(* ===== verification/Prelude.thy ===== *)
theory Prelude
  imports
    Main
    "HOL-Library.Char_ord"
    "HOL-Library.List_Lexorder"
    "HOL-Library.Product_Lexorder"
    "HOL-Library.Option_ord"
    "HOL-Library.Finite_Map"
begin

text \<open>
  Shared material of the development: the exceptions the Python code raises and the
  sequencing of fallible steps, the pieces of the Python language and of its standard
  library that several components use (truth values, \<open>str.strip\<close>, \<open>str.lower\<close>, \<open>str\<close> of a
  number, JSON documents), keyed tables as lists of rows, and the collections of rules
  that the component proofs share.

  A Python \<open>str\<close> is a \<open>string\<close> whose characters are the code points 0 to 255 (the code
  that depends on larger code points, the truncation and event stream components, has a
  text type of its own). \<open>None\<close> is \<open>None\<close> and a value that may be \<open>None\<close> is an \<open>option\<close>.
\<close>

named_theorems result_simps \<open>rules that evaluate sequenced fallible steps\<close>
named_theorems table_simps \<open>rules about keyed tables\<close>
named_theorems json_simps \<open>rules that read and build JSON documents\<close>

section \<open>Exceptions and fallible steps\<close>

datatype py_error =
    ValueError string
  | RuntimeError string
  | AttributeError
  | TypeError
  | KeyError string
  | IndexError
  | AssertionError
  | IntegrityError
  | RetryUnavailable string
  | SSEParseError string

type_synonym 'a result = "py_error + 'a"

definition bind_result :: "'e + 'a \<Rightarrow> ('a \<Rightarrow> 'e + 'b) \<Rightarrow> 'e + 'b" where
  "bind_result m f = (case m of Inl e \<Rightarrow> Inl e | Inr x \<Rightarrow> f x)"

lemma bind_result_Inl [simp, result_simps]: "bind_result (Inl e) f = Inl e"
  by (simp add: bind_result_def)

lemma bind_result_Inr [simp, result_simps]: "bind_result (Inr x) f = f x"
  by (simp add: bind_result_def)

lemma bind_result_cong [fundef_cong]:
  "m = m' \<Longrightarrow> (\<And>x. m' = Inr x \<Longrightarrow> f x = f' x) \<Longrightarrow> bind_result m f = bind_result m' f'"
  by (cases m') auto

lemma bind_result_eq_Inr [result_simps]:
  "bind_result m f = Inr y \<longleftrightarrow> (\<exists>x. m = Inr x \<and> f x = Inr y)"
  by (cases m) auto

lemma bind_result_eq_Inl [result_simps]:
  "bind_result m f = Inl e \<longleftrightarrow> m = Inl e \<or> (\<exists>x. m = Inr x \<and> f x = Inl e)"
  by (cases m) auto

lemma bind_result_InrE:
  assumes "bind_result m f = Inr y"
  obtains x where "m = Inr x" and "f x = Inr y"
  using assms by (auto simp: bind_result_eq_Inr)

lemma bind_result_assoc:
  "bind_result (bind_result m f) g = bind_result m (\<lambda>x. bind_result (f x) g)"
  by (cases m) auto

text \<open>A loop that runs a fallible body over a list, threading a state.\<close>

fun fold_result :: "('a \<Rightarrow> 's \<Rightarrow> 'e + 's) \<Rightarrow> 'a list \<Rightarrow> 's \<Rightarrow> 'e + 's" where
  "fold_result f [] s = Inr s"
| "fold_result f (x # xs) s = bind_result (f x s) (fold_result f xs)"

lemma fold_result_append:
  "fold_result f (xs @ ys) s = bind_result (fold_result f xs s) (fold_result f ys)"
  by (induction xs arbitrary: s) (auto simp: bind_result_assoc cong: bind_result_cong)

lemma fold_result_invariant:
  assumes "fold_result f xs s = Inr t" and "P s"
    and "\<And>x s s'. x \<in> set xs \<Longrightarrow> P s \<Longrightarrow> f x s = Inr s' \<Longrightarrow> P s'"
  shows "P t"
  using assms
proof (induction xs arbitrary: s)
  case Nil
  then show ?case by simp
next
  case (Cons x xs)
  from Cons.prems(1) obtain s' where s': "f x s = Inr s'" and rest: "fold_result f xs s' = Inr t"
    by (auto simp: bind_result_eq_Inr)
  have "P s'" using Cons.prems(2) s' by (intro Cons.prems(3) [of x s s']) auto
  with rest show ?case by (rule Cons.IH) (use Cons.prems(3) in auto)
qed

section \<open>Text\<close>

text \<open>The characters \<open>str.isspace\<close> accepts among the code points 0 to 255.\<close>

definition py_isspace :: "char \<Rightarrow> bool" where
  "py_isspace c = (let n = (of_char c :: nat) in (9 \<le> n \<and> n \<le> 13) \<or> (28 \<le> n \<and> n \<le> 32) \<or> n = 133 \<or> n = 160)"

definition py_strip :: "string \<Rightarrow> string" where
  "py_strip s = rev (dropWhile py_isspace (rev (dropWhile py_isspace s)))"

definition py_lower_char :: "char \<Rightarrow> char" where
  "py_lower_char c = (let n = (of_char c :: nat) in
     if (65 \<le> n \<and> n \<le> 90) \<or> (192 \<le> n \<and> n \<le> 222 \<and> n \<noteq> 215) then char_of (n + 32) else c)"

definition py_lower :: "string \<Rightarrow> string" where
  "py_lower s = map py_lower_char s"

lemma dropWhile_fixpoint: "(xs = [] \<or> \<not> P (hd xs)) \<Longrightarrow> dropWhile P xs = xs"
  by (cases xs) auto

lemma py_strip_Nil [simp]: "py_strip [] = []"
  by (simp add: py_strip_def)

lemma last_dropWhile: "dropWhile P xs \<noteq> [] \<Longrightarrow> last (dropWhile P xs) = last xs"
  by (induction xs) auto

lemma py_strip_idem [simp]: "py_strip (py_strip s) = py_strip s"
proof -
  let ?t = "dropWhile py_isspace s"
  let ?u = "rev (dropWhile py_isspace (rev ?t))"
  have "dropWhile py_isspace ?u = ?u"
  proof (rule dropWhile_fixpoint, cases "?u = []")
    case False
    then have "hd ?u = last (dropWhile py_isspace (rev ?t))" by (simp add: hd_rev)
    also have "\<dots> = last (rev ?t)" using False by (simp add: last_dropWhile)
    also have "\<dots> = hd ?t" by (simp add: last_rev)
    finally have "hd ?u = hd ?t" .
    moreover have "?t \<noteq> []" using False by (metis dropWhile.simps(1) rev.simps(1))
    ultimately show "?u = [] \<or> \<not> py_isspace (hd ?u)" by (simp add: hd_dropWhile)
  qed simp
  then show ?thesis by (simp add: py_strip_def)
qed

text \<open>\<open>str\<close> of a natural number.\<close>

definition digit_char :: "nat \<Rightarrow> char" where
  "digit_char n = char_of (48 + n)"

fun nat_str :: "nat \<Rightarrow> string" where
  "nat_str n = (if n < 10 then [digit_char n] else nat_str (n div 10) @ [digit_char (n mod 10)])"

declare nat_str.simps [simp del]

lemma of_char_digit_char: "n < 10 \<Longrightarrow> (of_char (digit_char n) :: nat) = 48 + n"
  by (simp add: digit_char_def)

lemma nat_str_digits: "c \<in> set (nat_str n) \<Longrightarrow> 48 \<le> (of_char c :: nat) \<and> (of_char c :: nat) \<le> 57"
proof (induction n rule: nat_str.induct)
  case (1 n)
  then show ?case
    by (subst (asm) (2) nat_str.simps) (auto simp: of_char_digit_char split: if_splits)
qed

lemma nat_str_nonempty [simp]: "nat_str n \<noteq> []"
  by (subst nat_str.simps) simp

fun str_nat :: "string \<Rightarrow> nat \<Rightarrow> nat" where
  "str_nat [] acc = acc"
| "str_nat (c # cs) acc = str_nat cs (10 * acc + (of_char c - 48))"

lemma str_nat_append: "str_nat (xs @ ys) acc = str_nat ys (str_nat xs acc)"
  by (induction xs arbitrary: acc) auto

lemma str_nat_nat_str: "str_nat (nat_str n) 0 = n"
proof (induction n rule: nat_str.induct)
  case (1 n)
  then show ?case
    by (subst nat_str.simps) (auto simp: str_nat_append of_char_digit_char)
qed

lemma nat_str_inject: "nat_str m = nat_str n \<Longrightarrow> m = n"
  by (metis str_nat_nat_str)

section \<open>JSON documents\<close>

text \<open>
  The values \<open>json.loads\<close> builds and \<open>json.dumps\<close> writes in these components (no component
  here computes with floating point members). A Python \<open>dict\<close> is a finite map: every text
  the code stores is written with sorted keys, so equal maps have equal texts.
  \<open>JDoc v\<close> is the \<open>str\<close> that \<open>_canonical_json(v)\<close> returns; every other \<open>str\<close> is a \<open>JStr\<close>.
  SQL's \<open>NULL\<close> and Python's \<open>None\<close> in a text column are \<open>JNull\<close>.
\<close>

datatype json =
    JNull
  | JBool bool
  | JInt int
  | JStr string
  | JList "json list"
  | JObj "(string, json) fmap"
  | JDoc json

type_synonym jobj = "(string, json) fmap"

definition canonical_json :: "json \<Rightarrow> json" where
  "canonical_json v = JDoc v"

text \<open>A document built from a dictionary literal, whose keys are distinct.\<close>

definition jdict :: "(string \<times> json) list \<Rightarrow> jobj" where
  "jdict kvs = fmap_of_list kvs"

abbreviation jempty :: jobj where
  "jempty \<equiv> fmempty"

text \<open>\<open>d.get(k)\<close>: a missing member reads as \<open>None\<close>, which is also what \<open>null\<close> reads as.\<close>

definition jget :: "jobj \<Rightarrow> string \<Rightarrow> json" where
  "jget m k = (case fmlookup m k of None \<Rightarrow> JNull | Some v \<Rightarrow> v)"

text \<open>The truth value of a document.\<close>

fun truthy :: "json \<Rightarrow> bool" where
  "truthy JNull = False"
| "truthy (JBool b) = b"
| "truthy (JInt n) = (n \<noteq> 0)"
| "truthy (JStr s) = (s \<noteq> [])"
| "truthy (JList xs) = (xs \<noteq> [])"
| "truthy (JObj m) = (m \<noteq> fmempty)"
| "truthy (JDoc v) = True"

text \<open>\<open>_json_object\<close>: a dictionary as it is, or the dictionary a text column encodes.\<close>

definition json_object :: "json \<Rightarrow> jobj" where
  "json_object v = (case v of JObj m \<Rightarrow> m | JDoc (JObj m) \<Rightarrow> m | _ \<Rightarrow> fmempty)"

text \<open>An optional \<open>str\<close> as a member value, and the converse for a member that holds text.\<close>

definition jopt :: "string option \<Rightarrow> json" where
  "jopt x = (case x of None \<Rightarrow> JNull | Some s \<Rightarrow> JStr s)"

definition jstr_of :: "json \<Rightarrow> string option" where
  "jstr_of v = (case v of JStr s \<Rightarrow> Some s | _ \<Rightarrow> None)"

lemma jget_jdict [simp, json_simps]:
  "jget (jdict kvs) k = (case map_of kvs k of None \<Rightarrow> JNull | Some v \<Rightarrow> v)"
  by (simp add: jget_def jdict_def fmlookup_of_list)

lemma fmlookup_jdict [simp, json_simps]: "fmlookup (jdict kvs) k = map_of kvs k"
  by (simp add: jdict_def fmlookup_of_list)

lemma fmdom_jdict [simp, json_simps]: "k |\<in>| fmdom (jdict kvs) \<longleftrightarrow> k \<in> fst ` set kvs"
  by (metis fmdom_notD fmdom_notI fmlookup_jdict map_of_eq_None_iff)

lemma jget_fmupd [simp, json_simps]: "jget (fmupd k v m) k' = (if k = k' then v else jget m k')"
  by (simp add: jget_def)

lemma jget_fmempty [simp, json_simps]: "jget fmempty k = JNull"
  by (simp add: jget_def)

lemma jget_fmadd [simp, json_simps]:
  "jget (m ++\<^sub>f n) k = (if k |\<in>| fmdom n then jget n k else jget m k)"
  by (simp add: jget_def)

lemma jget_fmdrop [simp, json_simps]: "jget (fmdrop k m) k' = (if k = k' then JNull else jget m k')"
  by (simp add: jget_def)

lemma fmupd_neq_fmempty [simp]: "fmupd k v m \<noteq> fmempty"
  by (metis fmempty_lookup fmupd_lookup option.distinct(1))

lemma jdict_neq_fmempty [simp]: "jdict (kv # kvs) \<noteq> fmempty"
proof -
  have "fmlookup (jdict (kv # kvs)) (fst kv) \<noteq> None" by (cases kv) simp
  then show ?thesis by (metis fmempty_lookup)
qed

lemma json_object_simps [simp, json_simps]:
  "json_object (JObj m) = m" "json_object (JDoc (JObj m)) = m" "json_object JNull = fmempty"
  "json_object (JStr s) = fmempty"
  by (simp_all add: json_object_def)

lemma jstr_of_jopt [simp]: "jstr_of (jopt x) = x"
  by (cases x) (simp_all add: jopt_def jstr_of_def)

lemma jopt_eq_JNull [simp]: "jopt x = JNull \<longleftrightarrow> x = None"
  by (cases x) (simp_all add: jopt_def)

subsection \<open>The text of a value\<close>

definition hex_digit :: "nat \<Rightarrow> char" where
  "hex_digit n = (if n < 10 then char_of (48 + n) else char_of (87 + n))"

abbreviation backslash :: char where
  "backslash \<equiv> CHR 0x5C"

text \<open>A \<open>str\<close> in a \<open>repr\<close>, and in a JSON text written with \<open>ensure_ascii=False\<close>.\<close>

definition repr_char :: "char \<Rightarrow> char \<Rightarrow> string" where
  "repr_char quote c = (let n = (of_char c :: nat) in
     if c = quote \<or> n = 92 then [backslash, c]
     else if n = 10 then [backslash, CHR ''n'']
     else if n = 13 then [backslash, CHR ''r'']
     else if n = 9 then [backslash, CHR ''t'']
     else if n < 32 \<or> (127 \<le> n \<and> n \<le> 160) \<or> n = 173
       then [backslash, CHR ''x'', hex_digit (n div 16), hex_digit (n mod 16)]
     else [c])"

definition repr_string :: "string \<Rightarrow> string" where
  "repr_string s = (let single = CHR 0x27; double = CHR 0x22;
       quote = (if single \<in> set s \<and> double \<notin> set s then double else single)
     in quote # concat (map (repr_char quote) s) @ [quote])"

definition dump_char :: "char \<Rightarrow> string" where
  "dump_char c = (let n = (of_char c :: nat) in
     if n = 34 \<or> n = 92 then [backslash, c]
     else if n = 10 then [backslash, CHR ''n'']
     else if n = 13 then [backslash, CHR ''r'']
     else if n = 9 then [backslash, CHR ''t'']
     else if n = 8 then [backslash, CHR ''b'']
     else if n = 12 then [backslash, CHR ''f'']
     else if n < 32 then backslash # ''u00'' @ [hex_digit (n div 16), hex_digit (n mod 16)]
     else [c])"

definition dump_string :: "string \<Rightarrow> string" where
  "dump_string s = CHR 0x22 # concat (map dump_char s) @ [CHR 0x22]"

definition int_str :: "int \<Rightarrow> string" where
  "int_str n = (if n < 0 then ''-'' @ nat_str (nat (- n)) else nat_str (nat n))"

fun join :: "'a list \<Rightarrow> 'a list list \<Rightarrow> 'a list" where
  "join sep [] = []"
| "join sep [x] = x"
| "join sep (x # y # zs) = x @ sep @ join sep (y # zs)"

primrec json_dumps :: "json \<Rightarrow> string" where
  "json_dumps JNull = ''null''"
| "json_dumps (JBool b) = (if b then ''true'' else ''false'')"
| "json_dumps (JInt n) = int_str n"
| "json_dumps (JStr s) = dump_string s"
| "json_dumps (JList xs) = ''['' @ join '','' (map json_dumps xs) @ '']''"
| "json_dumps (JObj m) = ''{'' @ join '',''
     (map (\<lambda>(k, t). dump_string k @ '':'' @ t) (sorted_list_of_fmap (fmmap json_dumps m))) @ ''}''"
| "json_dumps (JDoc v) = dump_string (json_dumps v)"

primrec py_repr :: "json \<Rightarrow> string" where
  "py_repr JNull = ''None''"
| "py_repr (JBool b) = (if b then ''True'' else ''False'')"
| "py_repr (JInt n) = int_str n"
| "py_repr (JStr s) = repr_string s"
| "py_repr (JList xs) = ''['' @ join '', '' (map py_repr xs) @ '']''"
| "py_repr (JObj m) = ''{'' @ join '', ''
     (map (\<lambda>(k, t). repr_string k @ '': '' @ t) (sorted_list_of_fmap (fmmap py_repr m))) @ ''}''"
| "py_repr (JDoc v) = repr_string (json_dumps v)"

definition py_str :: "json \<Rightarrow> string" where
  "py_str v = (case v of JStr s \<Rightarrow> s | JDoc d \<Rightarrow> json_dumps d | _ \<Rightarrow> py_repr v)"

text \<open>\<open>str(v or "")\<close>, of a document and of an optional string.\<close>

definition str_or_empty :: "json \<Rightarrow> string" where
  "str_or_empty v = (if truthy v then py_str v else [])"

definition opt_str :: "string option \<Rightarrow> string" where
  "opt_str x = (case x of None \<Rightarrow> [] | Some s \<Rightarrow> s)"

lemma str_or_empty_JStr [simp, json_simps]: "str_or_empty (JStr s) = s"
  by (simp add: str_or_empty_def py_str_def)

lemma str_or_empty_JNull [simp, json_simps]: "str_or_empty JNull = []"
  by (simp add: str_or_empty_def)

lemma str_or_empty_jopt [simp, json_simps]: "str_or_empty (jopt x) = opt_str x"
  by (cases x) (simp_all add: jopt_def opt_str_def)

lemma opt_str_simps [simp, json_simps]: "opt_str None = []" "opt_str (Some s) = s"
  by (simp_all add: opt_str_def)

text \<open>The items a \<open>for\<close> loop reads from a value: a dictionary yields its keys, a text its characters.\<close>

definition py_iter :: "json \<Rightarrow> json list result" where
  "py_iter v = (case v of
       JList xs \<Rightarrow> Inr xs
     | JObj m \<Rightarrow> Inr (map (\<lambda>(k, _). JStr k) (sorted_list_of_fmap m))
     | JStr s \<Rightarrow> Inr (map (\<lambda>c. JStr [c]) s)
     | JDoc d \<Rightarrow> Inr (map (\<lambda>c. JStr [c]) (json_dumps d))
     | _ \<Rightarrow> Inl TypeError)"

text \<open>\<open>v or {}\<close> followed by a member access, which only a dictionary has.\<close>

definition object_or_empty :: "json \<Rightarrow> jobj result" where
  "object_or_empty v =
     (if truthy v then (case v of JObj m \<Rightarrow> Inr m | _ \<Rightarrow> Inl AttributeError) else Inr fmempty)"

text \<open>Assignment to a key of a dictionary that keeps its insertion order.\<close>

fun dict_put :: "'k \<Rightarrow> 'v \<Rightarrow> ('k \<times> 'v) list \<Rightarrow> ('k \<times> 'v) list" where
  "dict_put k v [] = [(k, v)]"
| "dict_put k v ((k', v') # kvs) = (if k = k' then (k, v) # kvs else (k', v') # dict_put k v kvs)"

lemma map_of_dict_put [simp]: "map_of (dict_put k v kvs) = (map_of kvs)(k \<mapsto> v)"
  by (induction kvs) auto

text \<open>\<open>del d[k]\<close> and \<open>d.pop(k, None)\<close>.\<close>

definition dict_del :: "'k \<Rightarrow> ('k \<times> 'v) list \<Rightarrow> ('k \<times> 'v) list" where
  "dict_del k kvs = filter (\<lambda>(k', v). k' \<noteq> k) kvs"

lemma map_of_dict_del [simp]: "map_of (dict_del k kvs) = (map_of kvs)(k := None)"
  unfolding dict_del_def by (induction kvs) (auto simp: fun_eq_iff)

lemma dict_put_twice [simp]: "dict_put k v (dict_put k v' kvs) = dict_put k v kvs"
  by (induction kvs) auto

lemma dict_del_put [simp]: "dict_del k (dict_put k v kvs) = dict_del k kvs"
  unfolding dict_del_def by (induction kvs) auto

text \<open>\<open>map\<close> of a fallible function over a list.\<close>

fun map_result :: "('a \<Rightarrow> 'e + 'b) \<Rightarrow> 'a list \<Rightarrow> 'e + 'b list" where
  "map_result f [] = Inr []"
| "map_result f (x # xs) = bind_result (f x) (\<lambda>y. bind_result (map_result f xs) (\<lambda>ys. Inr (y # ys)))"

lemma map_result_length: "map_result f xs = Inr ys \<Longrightarrow> length ys = length xs"
  by (induction xs arbitrary: ys) (auto simp: bind_result_eq_Inr)

lemma map_result_Inr_iff:
  "map_result f xs = Inr ys \<longleftrightarrow> list_all2 (\<lambda>x y. f x = Inr y) xs ys"
  by (induction xs arbitrary: ys) (auto simp: bind_result_eq_Inr list_all2_Cons1)

lemma map_result_total:
  "(\<And>x. x \<in> set xs \<Longrightarrow> f x = Inr (g x)) \<Longrightarrow> map_result f xs = Inr (map g xs)"
  by (induction xs) auto

text \<open>The digest of a text: the code only compares digests, and only with digests it computed.\<close>

datatype digest = Sha256 json

section \<open>Keyed tables\<close>

text \<open>
  A table is the list of its rows. \<open>row_of\<close> is a primary key lookup, \<open>update_where\<close> an
  \<open>UPDATE\<close> with a \<open>WHERE\<close> clause, \<open>row_count\<close> the number of rows it matches, and
  \<open>unique_where\<close> a (partial) unique index.
\<close>

definition row_of :: "('r \<Rightarrow> 'k) \<Rightarrow> 'r list \<Rightarrow> 'k \<Rightarrow> 'r option" where
  "row_of key rows k = find (\<lambda>r. key r = k) rows"

definition update_where :: "('r \<Rightarrow> bool) \<Rightarrow> ('r \<Rightarrow> 'r) \<Rightarrow> 'r list \<Rightarrow> 'r list" where
  "update_where p f rows = map (\<lambda>r. if p r then f r else r) rows"

definition row_count :: "('r \<Rightarrow> bool) \<Rightarrow> 'r list \<Rightarrow> nat" where
  "row_count p rows = length (filter p rows)"

definition unique_where :: "('r \<Rightarrow> bool) \<Rightarrow> ('r \<Rightarrow> 'k) \<Rightarrow> 'r list \<Rightarrow> bool" where
  "unique_where p f rows = distinct (map f (filter p rows))"

lemma row_of_SomeD: "row_of key rows k = Some r \<Longrightarrow> r \<in> set rows \<and> key r = k"
  by (auto simp: row_of_def find_Some_iff)

lemma row_of_None_iff: "row_of key rows k = None \<longleftrightarrow> k \<notin> key ` set rows"
  by (auto simp: row_of_def find_None_iff)

lemma row_of_eq_Some_iff:
  assumes "distinct (map key rows)"
  shows "row_of key rows k = Some r \<longleftrightarrow> r \<in> set rows \<and> key r = k"
proof
  assume "r \<in> set rows \<and> key r = k"
  moreover obtain r' where r': "row_of key rows k = Some r'"
    using calculation by (metis image_eqI not_Some_eq row_of_None_iff)
  ultimately show "row_of key rows k = Some r"
    using assms row_of_SomeD [OF r'] by (metis distinct_map inj_onD)
qed (rule row_of_SomeD)

lemma row_of_Nil [simp, table_simps]: "row_of key [] k = None"
  by (simp add: row_of_def)

lemma row_of_Cons [simp, table_simps]:
  "row_of key (r # rows) k = (if key r = k then Some r else row_of key rows k)"
  by (simp add: row_of_def)

lemma row_of_append:
  "row_of key (xs @ ys) k = (case row_of key xs k of None \<Rightarrow> row_of key ys k | Some r \<Rightarrow> Some r)"
  by (induction xs) auto

lemma set_update_where: "set (update_where p f rows) = (\<lambda>r. if p r then f r else r) ` set rows"
  by (simp add: update_where_def)

lemma map_key_update_where:
  "(\<And>r. p r \<Longrightarrow> key (f r) = key r) \<Longrightarrow> map key (update_where p f rows) = map key rows"
  by (induction rows) (auto simp: update_where_def)

lemma row_of_update_where:
  "(\<And>r. p r \<Longrightarrow> key (f r) = key r) \<Longrightarrow>
   row_of key (update_where p f rows) k = map_option (\<lambda>r. if p r then f r else r) (row_of key rows k)"
  by (induction rows) (auto simp: update_where_def)

lemma update_where_none: "(\<And>r. r \<in> set rows \<Longrightarrow> \<not> p r) \<Longrightarrow> update_where p f rows = rows"
  by (induction rows) (auto simp: update_where_def)

lemma update_where_cong:
  "(\<And>x. x \<in> set rows \<Longrightarrow> (if p x then f x else x) = (if q x then g x else x)) \<Longrightarrow>
   update_where p f rows = update_where q g rows"
  by (simp add: update_where_def)

lemma row_count_eq_0: "row_count p rows = 0 \<longleftrightarrow> (\<forall>r\<in>set rows. \<not> p r)"
  by (auto simp: row_count_def filter_empty_conv)

lemma row_count_by_key:
  assumes "distinct (map key rows)"
  shows "row_count (\<lambda>r. key r = k \<and> q r) rows =
     (case row_of key rows k of None \<Rightarrow> 0 | Some r \<Rightarrow> if q r then 1 else 0)"
  using assms
proof (induction rows)
  case Nil
  then show ?case by (simp add: row_count_def)
next
  case (Cons r rows)
  show ?case
  proof (cases "key r = k")
    case True
    then have "k \<notin> key ` set rows" using Cons.prems by auto
    then have "filter (\<lambda>r. key r = k \<and> q r) rows = []"
      by (auto simp: filter_empty_conv)
    with True show ?thesis by (simp add: row_count_def)
  next
    case False
    with Cons show ?thesis by (simp add: row_count_def)
  qed
qed

lemma unique_whereD:
  assumes "unique_where p f rows" and "r \<in> set rows" and "s \<in> set rows"
    and "p r" and "p s" and "f r = f s"
  shows "r = s"
proof -
  from assms(1) have "inj_on f (set (filter p rows))"
    by (simp add: unique_where_def distinct_map)
  then show ?thesis by (rule inj_onD) (use assms in auto)
qed

lemma unique_where_Cons:
  "unique_where p f (r # rows) \<longleftrightarrow>
     (p r \<longrightarrow> (\<forall>x\<in>set rows. p x \<longrightarrow> f x \<noteq> f r)) \<and> unique_where p f rows"
proof -
  have "f r \<in> f ` set (filter p rows) \<longleftrightarrow> (\<exists>x\<in>set rows. p x \<and> f x = f r)"
    by (auto simp: image_iff)
  then show ?thesis by (auto simp: unique_where_def)
qed

text \<open>A unique index after one row was replaced, and after a row was appended.\<close>

lemma unique_where_replace:
  assumes "distinct (map key rows)" and "unique_where p f rows"
    and "p new \<Longrightarrow> \<forall>x\<in>set rows. key x \<noteq> key new \<longrightarrow> p x \<longrightarrow> f x \<noteq> f new"
  shows "unique_where p f (update_where (\<lambda>r. key r = key new) (\<lambda>_. new) rows)"
  using assms
proof (induction rows)
  case Nil
  then show ?case by (simp add: update_where_def)
next
  case (Cons r rows)
  have IH: "unique_where p f (update_where (\<lambda>r. key r = key new) (\<lambda>_. new) rows)"
    using Cons by (auto simp: unique_where_Cons)
  show ?case
  proof (cases "key r = key new")
    case True
    then have "key new \<notin> key ` set rows" using Cons.prems(1) by simp
    then have fresh: "\<forall>x\<in>set rows. key x \<noteq> key new" by (metis image_eqI)
    then have "update_where (\<lambda>r. key r = key new) (\<lambda>_. new) rows = rows"
      by (intro update_where_none) auto
    then show ?thesis using True fresh Cons.prems(2,3)
      by (auto simp: update_where_def unique_where_Cons)
  next
    case False
    have "p r \<longrightarrow> (\<forall>x\<in>set (update_where (\<lambda>r. key r = key new) (\<lambda>_. new) rows). p x \<longrightarrow> f x \<noteq> f r)"
      using Cons.prems False by (auto simp: set_update_where unique_where_Cons)
    then show ?thesis using IH False by (simp add: update_where_def unique_where_Cons)
  qed
qed

lemma unique_where_append_one:
  "unique_where p f rows \<Longrightarrow> (p r \<Longrightarrow> \<forall>x\<in>set rows. p x \<longrightarrow> f x \<noteq> f r) \<Longrightarrow> unique_where p f (rows @ [r])"
  by (induction rows) (auto simp: unique_where_Cons unique_where_def)

lemma list_all_replace:
  "list_all P rows \<Longrightarrow> P new \<Longrightarrow> list_all P (update_where q (\<lambda>_. new) rows)"
  by (induction rows) (auto simp: update_where_def)

section \<open>Step systems\<close>

text \<open>
  The contract shared by the stateful components: a step keeps the invariant and moves the
  state only along a preorder. What holds of one step holds of every run.
\<close>

locale evolving_system =
  fixes step :: "'s \<Rightarrow> 's \<Rightarrow> bool"
    and inv :: "'s \<Rightarrow> bool"
    and evolves :: "'s \<Rightarrow> 's \<Rightarrow> bool"
  assumes step_inv: "inv s \<Longrightarrow> step s s' \<Longrightarrow> inv s'"
    and step_evolves: "inv s \<Longrightarrow> step s s' \<Longrightarrow> evolves s s'"
    and evolves_refl: "evolves s s"
    and evolves_trans: "evolves s s' \<Longrightarrow> evolves s' s'' \<Longrightarrow> evolves s s''"
begin

lemma run_inv_evolves:
  assumes "step\<^sup>*\<^sup>* s s'" and "inv s"
  shows "inv s' \<and> evolves s s'"
  using assms
proof (induction rule: rtranclp_induct)
  case base
  then show ?case by (simp add: evolves_refl)
next
  case (step y z)
  then show ?case using step_inv step_evolves evolves_trans by blast
qed

end

end
