(* ===== verification/DeliveryStates.thy ===== *)
theory DeliveryStates
  imports Prelude
begin

text \<open>
  The vocabulary of the Delivery pipeline: the state matrix of
  \<open>src/storage/delivery_states.py\<close> (what each state means for ordering, for native side
  effects, for cancellation and for the submitter), the delivery intents and priorities of
  \<open>src/core/message_priority.py\<close>, and the message kinds of \<open>src/core/delivery_target.py\<close>.
\<close>

section \<open>The Delivery state matrix\<close>

datatype ordering_role = Claimable | Fence | TurnOwned | OrderTerminal
datatype native_effect = NoEffect | PossibleEffect | UnknownEffect | AcceptedEffect
datatype run_cancel_action = CancelRetire | CancelTurnOwner | CancelComplete
datatype submission_status = SubReserved | SubAdmitted | SubRetired

record delivery_state_policy =
  ordering :: ordering_role
  native_effect :: native_effect
  run_cancel :: run_cancel_action
  submission :: submission_status

datatype delivery_state =
    Reserved
  | Queued
  | Claimed
  | PendingSteer
  | Steering
  | InterruptWaiting
  | ReconcilingSteer
  | Accepted
  | Retired

text \<open>The text of a state, as the \<open>state\<close> column and the matrix keys spell it.\<close>

fun state_name :: "delivery_state \<Rightarrow> string" where
  "state_name Reserved = ''reserved''"
| "state_name Queued = ''queued''"
| "state_name Claimed = ''claimed''"
| "state_name PendingSteer = ''pending_steer''"
| "state_name Steering = ''steering''"
| "state_name InterruptWaiting = ''interrupt_waiting''"
| "state_name ReconcilingSteer = ''reconciling_steer''"
| "state_name Accepted = ''accepted''"
| "state_name Retired = ''retired''"

definition delivery_policy :: "ordering_role \<Rightarrow> native_effect \<Rightarrow> run_cancel_action \<Rightarrow> submission_status
    \<Rightarrow> delivery_state_policy" where
  "delivery_policy o' n r s = \<lparr>ordering = o', native_effect = n, run_cancel = r, submission = s\<rparr>"

definition DELIVERY_STATE_MATRIX :: "(delivery_state \<times> delivery_state_policy) list" where
  "DELIVERY_STATE_MATRIX =
    [(Reserved, delivery_policy Fence NoEffect CancelRetire SubReserved),
     (Queued, delivery_policy Claimable NoEffect CancelRetire SubAdmitted),
     (Claimed, delivery_policy TurnOwned PossibleEffect CancelTurnOwner SubAdmitted),
     (PendingSteer, delivery_policy Fence NoEffect CancelRetire SubAdmitted),
     (Steering, delivery_policy Fence PossibleEffect CancelTurnOwner SubAdmitted),
     (InterruptWaiting, delivery_policy TurnOwned PossibleEffect CancelTurnOwner SubAdmitted),
     (ReconcilingSteer, delivery_policy Fence UnknownEffect CancelTurnOwner SubAdmitted),
     (Accepted, delivery_policy OrderTerminal AcceptedEffect CancelComplete SubAdmitted),
     (Retired, delivery_policy OrderTerminal NoEffect CancelComplete SubRetired)]"

definition DELIVERY_STATES :: "delivery_state list" where
  "DELIVERY_STATES = map fst DELIVERY_STATE_MATRIX"

definition CLAIMABLE_QUEUE_STATES :: "delivery_state list" where
  "CLAIMABLE_QUEUE_STATES = map fst (filter (\<lambda>(s, p). ordering p = Claimable) DELIVERY_STATE_MATRIX)"

definition FENCE_STATES :: "delivery_state list" where
  "FENCE_STATES = map fst (filter (\<lambda>(s, p). ordering p = Fence) DELIVERY_STATE_MATRIX)"

definition RUN_CANCEL_RETIRE_STATES :: "delivery_state list" where
  "RUN_CANCEL_RETIRE_STATES = map fst (filter (\<lambda>(s, p). run_cancel p = CancelRetire) DELIVERY_STATE_MATRIX)"

definition ADMITTED_DELIVERY_STATES :: "delivery_state list" where
  "ADMITTED_DELIVERY_STATES = map fst (filter (\<lambda>(s, p). submission p = SubAdmitted) DELIVERY_STATE_MATRIX)"

definition policy_for :: "string \<Rightarrow> delivery_state_policy result" where
  "policy_for state =
     (case map_of (map (\<lambda>(s, p). (state_name s, p)) DELIVERY_STATE_MATRIX) state of
        Some p \<Rightarrow> Inr p
      | None \<Rightarrow> Inl (ValueError (''unknown Delivery state: '' @ state)))"

lemmas matrix_defs = DELIVERY_STATE_MATRIX_def delivery_policy_def

lemma state_name_inject [simp]: "state_name s = state_name t \<longleftrightarrow> s = t"
  by (cases s; cases t) simp_all

text \<open>The policy of a state, which \<open>policy_for\<close> always finds.\<close>

fun policy_of :: "delivery_state \<Rightarrow> delivery_state_policy" where
  "policy_of Reserved = delivery_policy Fence NoEffect CancelRetire SubReserved"
| "policy_of Queued = delivery_policy Claimable NoEffect CancelRetire SubAdmitted"
| "policy_of Claimed = delivery_policy TurnOwned PossibleEffect CancelTurnOwner SubAdmitted"
| "policy_of PendingSteer = delivery_policy Fence NoEffect CancelRetire SubAdmitted"
| "policy_of Steering = delivery_policy Fence PossibleEffect CancelTurnOwner SubAdmitted"
| "policy_of InterruptWaiting = delivery_policy TurnOwned PossibleEffect CancelTurnOwner SubAdmitted"
| "policy_of ReconcilingSteer = delivery_policy Fence UnknownEffect CancelTurnOwner SubAdmitted"
| "policy_of Accepted = delivery_policy OrderTerminal AcceptedEffect CancelComplete SubAdmitted"
| "policy_of Retired = delivery_policy OrderTerminal NoEffect CancelComplete SubRetired"

lemma policy_for_state_name [simp]: "policy_for (state_name s) = Inr (policy_of s)"
  by (cases s) (simp_all add: policy_for_def DELIVERY_STATE_MATRIX_def)

lemma policy_for_total: "policy_for x = Inr p \<longleftrightarrow> (\<exists>s. x = state_name s \<and> p = policy_of s)"
proof
  assume "policy_for x = Inr p"
  then have "x \<in> state_name ` set (map fst DELIVERY_STATE_MATRIX)"
    by (force simp: policy_for_def image_iff dest!: map_of_SomeD split: option.splits)
  then obtain s where "x = state_name s" by blast
  with \<open>policy_for x = Inr p\<close> show "\<exists>s. x = state_name s \<and> p = policy_of s" by auto
qed auto

lemma CLAIMABLE_QUEUE_STATES_eq [simp]: "CLAIMABLE_QUEUE_STATES = [Queued]"
  by (simp add: CLAIMABLE_QUEUE_STATES_def matrix_defs)

lemma FENCE_STATES_eq [simp]: "FENCE_STATES = [Reserved, PendingSteer, Steering, ReconcilingSteer]"
  by (simp add: FENCE_STATES_def matrix_defs)

lemma RUN_CANCEL_RETIRE_STATES_eq [simp]: "RUN_CANCEL_RETIRE_STATES = [Reserved, Queued, PendingSteer]"
  by (simp add: RUN_CANCEL_RETIRE_STATES_def matrix_defs)

lemma set_DELIVERY_STATES [simp]: "s \<in> set DELIVERY_STATES"
  by (cases s) (simp_all add: DELIVERY_STATES_def DELIVERY_STATE_MATRIX_def)

lemma policy_of_run_cancel [simp]:
  "run_cancel (policy_of s) = CancelRetire \<longleftrightarrow> s \<in> {Reserved, Queued, PendingSteer}"
  by (cases s) (simp_all add: delivery_policy_def)

lemma policy_of_terminal [simp]:
  "ordering (policy_of s) = OrderTerminal \<longleftrightarrow> s \<in> {Accepted, Retired}"
  by (cases s) (simp_all add: delivery_policy_def)

lemma policy_of_admitted:
  "submission (policy_of s) = SubAdmitted \<longleftrightarrow> s \<noteq> Reserved \<and> s \<noteq> Retired"
  by (cases s) (simp_all add: delivery_policy_def)

section \<open>Delivery intents and priorities\<close>

datatype delivery_intent = Replace | Steer | Queue
datatype delivery_priority = P0 | P1 | P3

fun intent_name :: "delivery_intent \<Rightarrow> string" where
  "intent_name Replace = ''replace''"
| "intent_name Steer = ''steer''"
| "intent_name Queue = ''queue''"

fun priority_name :: "delivery_priority \<Rightarrow> string" where
  "priority_name P0 = ''p0''"
| "priority_name P1 = ''p1''"
| "priority_name P3 = ''p3''"

definition PRIORITY_BY_INTENT :: "(string \<times> (delivery_intent \<times> delivery_priority)) list" where
  "PRIORITY_BY_INTENT =
    [(''replace'', (Replace, P0)), (''steer'', (Steer, P1)), (''queue'', (Queue, P3))]"

definition INTENT_BY_PRIORITY :: "(string \<times> delivery_intent) list" where
  "INTENT_BY_PRIORITY = map (\<lambda>(_, (i, p)). (priority_name p, i)) PRIORITY_BY_INTENT"

definition INTENT_BY_TRIGGER :: "(string \<times> delivery_intent) list" where
  "INTENT_BY_TRIGGER =
    [(''im'', Steer), (''scheduled'', Queue), (''task_run'', Queue), (''watch'', Steer),
     (''hook'', Steer), (''webhook'', Steer), (''agent_run'', Steer),
     (''show_annotation'', Steer), (''callback'', Steer)]"

definition LEGACY_INTENT_ALIASES :: "(string \<times> string) list" where
  "LEGACY_INTENT_ALIASES = [(''send_now'', ''steer'')]"

definition normalize_delivery_intent :: "string \<Rightarrow> delivery_intent result" where
  "normalize_delivery_intent intent =
     (let normalized = py_lower (py_strip intent);
          normalized = (case map_of LEGACY_INTENT_ALIASES normalized of None \<Rightarrow> normalized | Some a \<Rightarrow> a)
      in case map_of PRIORITY_BY_INTENT normalized of
           None \<Rightarrow> Inl (ValueError (''unsupported delivery intent: '' @ intent))
         | Some (i, p) \<Rightarrow> Inr i)"

fun priority_of_intent :: "delivery_intent \<Rightarrow> delivery_priority" where
  "priority_of_intent i = snd (the (map_of PRIORITY_BY_INTENT (intent_name i)))"

definition priority_for_delivery_intent :: "string \<Rightarrow> delivery_priority result" where
  "priority_for_delivery_intent intent =
     bind_result (normalize_delivery_intent intent) (\<lambda>i. Inr (priority_of_intent i))"

definition delivery_intent_for_priority :: "string \<Rightarrow> delivery_intent result" where
  "delivery_intent_for_priority priority =
     (case map_of INTENT_BY_PRIORITY (py_strip priority) of
        Some i \<Rightarrow> Inr i
      | None \<Rightarrow> Inl (ValueError (''unsupported delivery priority: '' @ priority)))"

definition delivery_intent_for_trigger :: "string \<Rightarrow> delivery_intent result" where
  "delivery_intent_for_trigger trigger_kind =
     (case map_of INTENT_BY_TRIGGER (py_strip trigger_kind) of
        Some i \<Rightarrow> Inr i
      | None \<Rightarrow> Inl (ValueError (''unsupported delivery trigger: '' @ trigger_kind)))"

lemmas intent_tables = PRIORITY_BY_INTENT_def INTENT_BY_PRIORITY_def INTENT_BY_TRIGGER_def
  LEGACY_INTENT_ALIASES_def

lemmas py_text_defs = py_strip_def py_lower_def py_lower_char_def py_isspace_def

lemma priority_of_intent_simps [simp]:
  "priority_of_intent Replace = P0" "priority_of_intent Steer = P1" "priority_of_intent Queue = P3"
  by (simp_all add: PRIORITY_BY_INTENT_def)

declare priority_of_intent.simps [simp del]

lemma normalize_intent_name [simp]: "normalize_delivery_intent (intent_name i) = Inr i"
  by (cases i) (simp_all add: normalize_delivery_intent_def intent_tables py_text_defs)

lemma delivery_intent_for_priority_name [simp]:
  "delivery_intent_for_priority (priority_name (priority_of_intent i)) = Inr i"
  by (cases i) (simp_all add: delivery_intent_for_priority_def intent_tables py_text_defs)

lemma priority_name_inject [simp]: "priority_name p = priority_name q \<longleftrightarrow> p = q"
  by (cases p; cases q) simp_all

section \<open>Message kinds\<close>

definition MESSAGE_KINDS :: "string list" where
  "MESSAGE_KINDS = [''original'', ''quick_reply'', ''forwarded'', ''edited'', ''system'', ''unknown'']"

definition normalize_message_kind :: "json \<Rightarrow> string" where
  "normalize_message_kind value =
     (let normalized = py_strip (str_or_empty value)
      in if normalized \<in> set MESSAGE_KINDS then normalized else ''unknown'')"

lemma normalize_message_kind_in: "normalize_message_kind v \<in> set MESSAGE_KINDS"
  by (simp add: normalize_message_kind_def Let_def) (simp add: MESSAGE_KINDS_def)

lemma normalize_message_kind_idem [simp]:
  "normalize_message_kind (JStr (normalize_message_kind v)) = normalize_message_kind v"
proof -
  have "\<forall>k\<in>set MESSAGE_KINDS. py_strip k = k"
    by (simp add: MESSAGE_KINDS_def py_text_defs)
  then show ?thesis
    using normalize_message_kind_in [of v] by (simp add: normalize_message_kind_def Let_def)
qed

end
