(* ===== verification/DeliveryStore.thy ===== *)
theory DeliveryStore
  imports DeliveryStates
begin

text \<open>
  The tables of the Delivery store (\<open>session_turns\<close>, \<open>message_deliveries\<close> and what they are
  joined with, \<open>src/storage/models.py\<close>) with the constraints SQLite enforces on them, and
  the reads and the compare-and-set writes of \<open>src/storage/message_deliveries.py\<close> on which
  every operation of the store is built.

  A connection is a value of type \<open>db\<close>. A write that would break a \<open>CHECK\<close> constraint or a
  unique index raises \<open>IntegrityError\<close>; an exception carries no database, because the
  caller's transaction is rolled back. The clock and the identifier source that an operation
  reads are its \<open>env\<close> argument, read once per operation. Foreign keys are deferred to the
  commit in the schema and are a separate predicate here. Columns whose \<open>CHECK\<close> lists the
  allowed states (\<open>state\<close>, \<open>priority\<close>) have a datatype, so a text outside the list does not
  arise.
\<close>

section \<open>Rows\<close>

record env =
  utc_now_iso :: string
  turn_now_iso :: string
  new_attempt_id :: string
  new_delivery_id :: string
  iso_timestamp :: "string \<Rightarrow> string"

datatype turn_state = Waiting | Starting | Active | Terminal

record turn =
  t_id :: string
  t_session_id :: string
  t_initial_delivery_id :: string
  t_state :: turn_state
  t_backend :: string
  t_runtime_key :: "string option"
  t_runtime_turn_id :: "string option"
  t_native_turn_id :: "string option"
  t_start_attempt_id :: "string option"
  t_start_receipt_outcome :: "string option"
  t_start_receipt_json :: json
  t_dispatch_text :: "string option"
  t_dispatch_sha256 :: "digest option"
  t_terminal_outcome :: "string option"
  t_settled_by :: "string option"
  t_terminal_evidence_kind :: "string option"
  t_terminal_evidence_json :: json
  t_control_state :: "string option"
  t_control_mode :: "string option"
  t_control_attempt_id :: "string option"
  t_control_expected_native_turn_id :: "string option"
  t_control_receipt_outcome :: "string option"
  t_control_receipt_json :: json
  t_control_successor_delivery_id :: "string option"
  t_control_successor_turn_id :: "string option"
  t_version :: int
  t_created_at :: string
  t_updated_at :: string
  t_started_at :: "string option"
  t_terminal_at :: "string option"

record delivery =
  d_id :: string
  d_session_id :: string
  d_message_id :: "string option"
  d_priority :: delivery_priority
  d_state :: delivery_state
  d_snapshot_json :: json
  d_snapshot_sha256 :: digest
  d_dispatch_text :: "string option"
  d_dispatch_sha256 :: digest
  d_dedupe_key :: "string option"
  d_turn_id :: "string option"
  d_turn_role :: "string option"
  d_turn_position :: "int option"
  d_current_attempt_id :: "string option"
  d_current_attempt_kind :: "string option"
  d_current_target_turn_id :: "string option"
  d_current_expected_native_turn_id :: "string option"
  d_current_receipt_outcome :: "string option"
  d_current_receipt_json :: json
  d_current_attempt_opened_at :: "string option"
  d_delivery_history_json :: json
  d_version :: int
  d_submitted_at :: string
  d_updated_at :: string
  d_materialized_at :: "string option"
  d_retired_at :: "string option"

record message =
  m_id :: string
  m_columns :: jobj
  m_updated_at :: string
  m_delivered_at :: string

record turn_reply =
  r_turn_id :: string
  r_reply_text :: string
  r_updated_at :: string

record show_event =
  s_delivery_id :: string
  s_message_id :: "string option"

record agent_run =
  run_id :: string
  run_delivery_id :: "string option"
  run_created_at :: string

record agent_session =
  a_id :: string
  a_status :: string
  a_visibility :: string
  a_agent_backend :: "string option"
  a_composer_draft_text :: "string option"
  a_composer_draft_updated_at :: "string option"
  a_updated_at :: string

record db =
  deliveries :: "delivery list"
  turns :: "turn list"
  messages :: "message list"
  replies :: "turn_reply list"
  show_events :: "show_event list"
  runs :: "agent_run list"
  sessions :: "agent_session list"

section \<open>Constraints\<close>

text \<open>
  A \<open>CHECK\<close> expression has three values in SQL: comparing \<open>NULL\<close> yields \<open>NULL\<close>, and a row is
  refused only when the expression is false. \<open>tall\<close> and \<open>tany\<close> are SQL's conjunction and
  disjunction, \<open>check\<close> is the test SQLite makes.
\<close>

type_synonym tri = "bool option"

definition tall :: "tri list \<Rightarrow> tri" where
  "tall xs = (if Some False \<in> set xs then Some False else if None \<in> set xs then None else Some True)"

definition tany :: "tri list \<Rightarrow> tri" where
  "tany xs = (if Some True \<in> set xs then Some True else if None \<in> set xs then None else Some False)"

definition check :: "tri \<Rightarrow> bool" where
  "check x \<longleftrightarrow> x \<noteq> Some False"

definition is_null :: "'a option \<Rightarrow> tri" where
  "is_null x = Some (x = None)"

definition not_null :: "'a option \<Rightarrow> tri" where
  "not_null x = Some (x \<noteq> None)"

definition col_eq :: "'a option \<Rightarrow> 'a \<Rightarrow> tri" where
  "col_eq x a = map_option (\<lambda>y. y = a) x"

definition col_ne :: "'a option \<Rightarrow> 'a \<Rightarrow> tri" where
  "col_ne x a = map_option (\<lambda>y. y \<noteq> a) x"

definition col_in :: "'a option \<Rightarrow> 'a list \<Rightarrow> tri" where
  "col_in x as = map_option (\<lambda>y. y \<in> set as) x"

lemmas sql_defs = tall_def tany_def check_def is_null_def not_null_def col_eq_def col_ne_def col_in_def

lemma check_tall: "check (tall xs) \<longleftrightarrow> (\<forall>x\<in>set xs. check x)"
  by (auto simp: check_def tall_def)

lemma check_tany: "check (tany xs) \<longleftrightarrow> (\<exists>x\<in>set xs. check x)"
  by (auto simp: check_def tany_def) (metis (full_types) not_None_eq)

lemma check_simps [simp]:
  "check (Some b) \<longleftrightarrow> b" "check (is_null x) \<longleftrightarrow> x = None" "check (not_null x) \<longleftrightarrow> x \<noteq> None"
  "check (col_eq x a) \<longleftrightarrow> x = None \<or> x = Some a" "check (col_ne x a) \<longleftrightarrow> x \<noteq> Some a"
  "check (col_in x as) \<longleftrightarrow> (\<forall>y. x = Some y \<longrightarrow> y \<in> set as)"
  by (cases x; auto simp: check_def is_null_def not_null_def col_eq_def col_ne_def col_in_def)+

lemma check_tall_simps [simp]:
  "check (tall []) " "check (tall (x # xs)) \<longleftrightarrow> check x \<and> check (tall xs)"
  "\<not> check (tany [])" "check (tany (x # xs)) \<longleftrightarrow> check x \<or> check (tany xs)"
  by (auto simp: check_tall check_tany)

text \<open>The constraints of \<open>session_turns\<close>.\<close>

definition ck_session_turns_outcomes :: "turn \<Rightarrow> bool" where
  "ck_session_turns_outcomes t \<longleftrightarrow>
     check (tany [is_null (t_terminal_outcome t),
                  col_in (t_terminal_outcome t) [''completed'', ''failed'', ''canceled'', ''not_written'']])
     \<and> check (tany [is_null (t_start_receipt_outcome t),
                    col_in (t_start_receipt_outcome t) [''accepted'', ''not_written'', ''unknown'']])"

definition start_columns :: "(string option \<Rightarrow> tri) \<Rightarrow> (digest option \<Rightarrow> tri) \<Rightarrow> turn \<Rightarrow> tri list" where
  "start_columns f g t = [f (t_start_attempt_id t), f (t_dispatch_text t), g (t_dispatch_sha256 t)]"

definition ck_session_turns_start_shape :: "turn \<Rightarrow> bool" where
  "ck_session_turns_start_shape t \<longleftrightarrow>
     check (tany
       [tall (Some (t_state t = Waiting) # start_columns is_null is_null t @ [is_null (t_start_receipt_outcome t)]),
        tall (Some (t_state t = Starting) # start_columns not_null not_null t @
          [tany [is_null (t_start_receipt_outcome t), col_eq (t_start_receipt_outcome t) ''unknown'']]),
        tall (Some (t_state t = Active) # start_columns not_null not_null t @
          [col_eq (t_start_receipt_outcome t) ''accepted'']),
        tall [Some (t_state t = Terminal),
          tany
            [tany
               [tall (col_ne (t_terminal_outcome t) ''not_written'' # start_columns not_null not_null t @
                  [col_eq (t_start_receipt_outcome t) ''accepted'']),
                tall (col_eq (t_terminal_outcome t) ''failed'' # start_columns not_null not_null t @
                  [col_eq (t_start_receipt_outcome t) ''unknown''])],
             tall (col_eq (t_terminal_outcome t) ''not_written'' # start_columns not_null not_null t @
               [col_eq (t_start_receipt_outcome t) ''not_written'']),
             tall (col_eq (t_terminal_outcome t) ''not_written'' # start_columns is_null is_null t)]]])"

definition ck_session_turns_control :: "turn \<Rightarrow> bool" where
  "ck_session_turns_control t \<longleftrightarrow>
     check (tany [is_null (t_control_state t),
       col_in (t_control_state t)
         [''pending'', ''interrupting'', ''waiting_terminal'', ''reconciling'', ''refused'', ''settled'']])
     \<and> check (tany [is_null (t_control_mode t), col_in (t_control_mode t) [''stop_only'', ''replace'']])
     \<and> check (tany
         [tall [col_eq (t_control_mode t) ''replace'', not_null (t_control_successor_delivery_id t),
                not_null (t_control_successor_turn_id t)],
          tall [col_eq (t_control_mode t) ''stop_only'', is_null (t_control_successor_delivery_id t),
                is_null (t_control_successor_turn_id t)],
          tall [is_null (t_control_mode t), is_null (t_control_successor_delivery_id t),
                is_null (t_control_successor_turn_id t)]])"

definition ck_session_turns_terminal_shape :: "turn \<Rightarrow> bool" where
  "ck_session_turns_terminal_shape t \<longleftrightarrow>
     check (tany
       [tall [Some (t_state t = Terminal), not_null (t_terminal_outcome t), not_null (t_terminal_at t)],
        tall [Some (t_state t \<noteq> Terminal), is_null (t_terminal_outcome t), is_null (t_terminal_at t)]])"

definition turn_check :: "turn \<Rightarrow> bool" where
  "turn_check t \<longleftrightarrow> ck_session_turns_outcomes t \<and> ck_session_turns_start_shape t
     \<and> ck_session_turns_control t \<and> ck_session_turns_terminal_shape t"

definition turn_live :: "turn \<Rightarrow> bool" where
  "turn_live t \<longleftrightarrow> t_state t \<in> {Starting, Active}"

definition turn_uniques :: "turn list \<Rightarrow> bool" where
  "turn_uniques ts \<longleftrightarrow>
     distinct (map t_id ts)
     \<and> unique_where turn_live t_session_id ts
     \<and> unique_where (\<lambda>t. t_state t \<noteq> Terminal \<or> t_start_receipt_outcome t = Some ''accepted'')
         t_initial_delivery_id ts
     \<and> unique_where (\<lambda>t. t_state t = Waiting) t_session_id ts
     \<and> unique_where (\<lambda>t. t_control_attempt_id t \<noteq> None) t_control_attempt_id ts
     \<and> unique_where (\<lambda>t. t_start_attempt_id t \<noteq> None) t_start_attempt_id ts"

definition turn_table_ok :: "turn list \<Rightarrow> bool" where
  "turn_table_ok ts \<longleftrightarrow> list_all turn_check ts \<and> turn_uniques ts"

text \<open>The constraints of \<open>message_deliveries\<close>.\<close>

definition ck_message_deliveries_history_json :: "delivery \<Rightarrow> bool" where
  "ck_message_deliveries_history_json r \<longleftrightarrow>
     (case d_delivery_history_json r of
        JDoc h \<Rightarrow>
          (case h of
             JObj m \<Rightarrow>
               (case fmlookup m ''version'' of None \<Rightarrow> True | Some v \<Rightarrow> v = JNull \<or> v = JInt 1 \<or> v = JBool True)
               \<and> (case fmlookup m ''events'' of None \<Rightarrow> True | Some v \<Rightarrow> (case v of JList _ \<Rightarrow> True | _ \<Rightarrow> False))
           | _ \<Rightarrow> True)
      | _ \<Rightarrow> False)"

definition attempt_columns :: "(string option \<Rightarrow> tri) \<Rightarrow> delivery \<Rightarrow> tri list" where
  "attempt_columns f r =
     [f (d_current_attempt_id r), f (d_current_attempt_kind r),
      f (d_current_target_turn_id r), f (d_current_expected_native_turn_id r)]"

definition ck_message_deliveries_current_attempt_shape :: "delivery \<Rightarrow> bool" where
  "ck_message_deliveries_current_attempt_shape r \<longleftrightarrow>
     check (tany
       [tall [Some (d_state r \<in> {Steering, ReconcilingSteer}), not_null (d_current_attempt_id r),
              col_eq (d_current_attempt_kind r) ''steer'', not_null (d_current_target_turn_id r),
              not_null (d_current_expected_native_turn_id r)],
        tall [Some (d_state r = PendingSteer), not_null (d_current_attempt_id r),
              col_eq (d_current_attempt_kind r) ''steer'', not_null (d_current_target_turn_id r),
              is_null (d_current_expected_native_turn_id r)],
        tall (Some (d_state r \<notin> {Steering, ReconcilingSteer, PendingSteer}) # attempt_columns is_null r)])"

definition ck_message_deliveries_current_receipt :: "delivery \<Rightarrow> bool" where
  "ck_message_deliveries_current_receipt r \<longleftrightarrow>
     check (tany
       [tall [Some (d_state r = ReconcilingSteer), col_in (d_current_receipt_outcome r) [''accepted'', ''unknown'']],
        tall [Some (d_state r \<noteq> ReconcilingSteer), is_null (d_current_receipt_outcome r)]])"

definition ck_message_deliveries_materialization :: "delivery \<Rightarrow> bool" where
  "ck_message_deliveries_materialization r \<longleftrightarrow>
     check (tany
       [tall ([Some (d_state r = Accepted), not_null (d_message_id r), not_null (d_turn_id r),
               col_in (d_turn_role r) [''initial'', ''steer''], not_null (d_turn_position r),
               not_null (d_materialized_at r), Some (d_snapshot_json r = JNull), is_null (d_dispatch_text r)]
              @ attempt_columns is_null r
              @ [is_null (d_current_receipt_outcome r), is_null (d_current_attempt_opened_at r)]),
        tall [Some (d_state r \<noteq> Accepted), is_null (d_message_id r), is_null (d_materialized_at r)]])"

definition ck_message_deliveries_turn_membership :: "delivery \<Rightarrow> bool" where
  "ck_message_deliveries_turn_membership r \<longleftrightarrow>
     check (tany
       [tall [Some (d_state r \<in> {Claimed, InterruptWaiting}), not_null (d_turn_id r),
              col_eq (d_turn_role r) ''initial'', not_null (d_turn_position r)],
        tall [Some (d_state r = Accepted), not_null (d_turn_id r), not_null (d_turn_role r),
              not_null (d_turn_position r)],
        tall [Some (d_state r \<notin> {Claimed, InterruptWaiting, Accepted}), is_null (d_turn_id r),
              is_null (d_turn_role r), is_null (d_turn_position r)]])"

definition delivery_check :: "delivery \<Rightarrow> bool" where
  "delivery_check r \<longleftrightarrow>
     check (tany [is_null (d_current_attempt_kind r), col_eq (d_current_attempt_kind r) ''steer''])
     \<and> ck_message_deliveries_history_json r \<and> ck_message_deliveries_current_attempt_shape r
     \<and> ck_message_deliveries_current_receipt r \<and> ck_message_deliveries_materialization r
     \<and> ck_message_deliveries_turn_membership r"

definition delivery_uniques :: "delivery list \<Rightarrow> bool" where
  "delivery_uniques rs \<longleftrightarrow>
     distinct (map d_id rs)
     \<and> unique_where (\<lambda>r. d_dedupe_key r \<noteq> None) d_dedupe_key rs
     \<and> unique_where (\<lambda>r. d_turn_id r \<noteq> None \<and> d_turn_position r \<noteq> None)
         (\<lambda>r. (d_turn_id r, d_turn_position r)) rs"

definition delivery_table_ok :: "delivery list \<Rightarrow> bool" where
  "delivery_table_ok rs \<longleftrightarrow> list_all delivery_check rs \<and> delivery_uniques rs"

text \<open>The columns of \<open>messages\<close> that may not be null, and its unique indexes on the native identity.\<close>

definition message_check :: "message \<Rightarrow> bool" where
  "message_check m \<longleftrightarrow>
     list_all (\<lambda>k. jget (m_columns m) k \<noteq> JNull) [''platform'', ''author'', ''type'', ''content_json'', ''metadata_json'', ''created_at'']"

definition message_uniques :: "message list \<Rightarrow> bool" where
  "message_uniques ms \<longleftrightarrow>
     distinct (map m_id ms)
     \<and> unique_where (\<lambda>m. jget (m_columns m) ''scope_id'' \<noteq> JNull \<and> jget (m_columns m) ''native_message_id'' \<noteq> JNull)
         (\<lambda>m. (jget (m_columns m) ''platform'', jget (m_columns m) ''scope_id'', jget (m_columns m) ''native_message_id'')) ms
     \<and> unique_where (\<lambda>m. jget (m_columns m) ''scope_id'' = JNull \<and> jget (m_columns m) ''native_message_id'' \<noteq> JNull)
         (\<lambda>m. (jget (m_columns m) ''platform'', jget (m_columns m) ''native_message_id'')) ms"

definition message_table_ok :: "message list \<Rightarrow> bool" where
  "message_table_ok ms \<longleftrightarrow> list_all message_check ms \<and> message_uniques ms"

definition schema_ok :: "db \<Rightarrow> bool" where
  "schema_ok d \<longleftrightarrow> delivery_table_ok (deliveries d) \<and> turn_table_ok (turns d) \<and> message_table_ok (messages d)"

section \<open>Statements\<close>

definition insert_deliveries :: "delivery \<Rightarrow> db \<Rightarrow> db result" where
  "insert_deliveries r d =
     (let rows = deliveries d @ [r]
      in if delivery_table_ok rows then Inr (d\<lparr>deliveries := rows\<rparr>) else Inl IntegrityError)"

definition update_deliveries :: "(delivery \<Rightarrow> bool) \<Rightarrow> (delivery \<Rightarrow> delivery) \<Rightarrow> db \<Rightarrow> (nat \<times> db) result" where
  "update_deliveries p f d =
     (let rows = update_where p f (deliveries d)
      in if delivery_table_ok rows then Inr (row_count p (deliveries d), d\<lparr>deliveries := rows\<rparr>)
         else Inl IntegrityError)"

definition insert_turns :: "turn \<Rightarrow> db \<Rightarrow> db result" where
  "insert_turns t d =
     (let rows = turns d @ [t]
      in if turn_table_ok rows then Inr (d\<lparr>turns := rows\<rparr>) else Inl IntegrityError)"

definition update_turns :: "(turn \<Rightarrow> bool) \<Rightarrow> (turn \<Rightarrow> turn) \<Rightarrow> db \<Rightarrow> (nat \<times> db) result" where
  "update_turns p f d =
     (let rows = update_where p f (turns d)
      in if turn_table_ok rows then Inr (row_count p (turns d), d\<lparr>turns := rows\<rparr>)
         else Inl IntegrityError)"

definition insert_messages :: "message \<Rightarrow> db \<Rightarrow> db result" where
  "insert_messages m d =
     (let rows = messages d @ [m]
      in if message_table_ok rows then Inr (d\<lparr>messages := rows\<rparr>) else Inl IntegrityError)"

text \<open>The first row of an ordered selection (\<open>_one\<close>).\<close>

definition one :: "'r list \<Rightarrow> 'r option" where
  "one rows = (case rows of [] \<Rightarrow> None | r # _ \<Rightarrow> Some r)"

definition submitted_order :: "delivery \<Rightarrow> string \<times> string" where
  "submitted_order r = (d_submitted_at r, d_id r)"

definition select_deliveries :: "(delivery \<Rightarrow> bool) \<Rightarrow> db \<Rightarrow> delivery list" where
  "select_deliveries p d = sort_key submitted_order (filter p (deliveries d))"

definition get_turn :: "db \<Rightarrow> string \<Rightarrow> turn option" where
  "get_turn d turn_id = row_of t_id (turns d) turn_id"

definition get_delivery :: "db \<Rightarrow> string \<Rightarrow> delivery option" where
  "get_delivery d delivery_id = row_of d_id (deliveries d) delivery_id"

definition get_delivery_by_dedupe :: "db \<Rightarrow> string \<Rightarrow> delivery option" where
  "get_delivery_by_dedupe d key = find (\<lambda>r. d_dedupe_key r = Some key) (deliveries d)"

definition get_message :: "db \<Rightarrow> string \<Rightarrow> message option" where
  "get_message d message_id = row_of m_id (messages d) message_id"

end
