(* ===== verification/DeliveryContent.thy ===== *)
theory DeliveryContent
  imports DeliveryStore
begin

text \<open>
  What the Delivery store computes from a row without writing: the dedupe identity of a
  native event, the Message candidate a Delivery holds, the delivery history and the retry
  facts read from it, the payload shown to callers, the identity that decides whether two
  inputs may share a batch, and the Message a batch is merged into
  (\<open>src/storage/message_deliveries.py\<close>).
\<close>

definition TURN_OWNER_STATES :: "turn_state list" where
  "TURN_OWNER_STATES = [Starting, Active]"

definition FAILURE_RETRY_HISTORY_KIND :: string where
  "FAILURE_RETRY_HISTORY_KIND = ''backend_failure_retry''"

definition WEB_PUSH_USER_KEY_METADATA :: string where
  "WEB_PUSH_USER_KEY_METADATA = ''_web_push_user_key''"

definition WEB_PUSH_USER_KEYS_METADATA :: string where
  "WEB_PUSH_USER_KEYS_METADATA = ''_web_push_user_keys''"

definition WEB_PUSH_AUTHORIZATION_CONTEXTS_METADATA :: string where
  "WEB_PUSH_AUTHORIZATION_CONTEXTS_METADATA = ''_web_push_authorization_contexts''"

definition VIBEY_RESUME_METADATA_KEY :: string where
  "VIBEY_RESUME_METADATA_KEY = ''vibey_resume''"

definition VIBEY_SOURCE_TURN_METADATA_KEY :: string where
  "VIBEY_SOURCE_TURN_METADATA_KEY = ''vibey_source_turn_id''"

definition HARNESS_SOURCE_FIELDS :: "string list" where
  "HARNESS_SOURCE_FIELDS =
     [''task_trigger_kind'', ''task_execution_id'', ''task_definition_id'', ''task_definition_name'',
      ''source_kind'', ''source_actor'', ''source_session_id'', ''parent_run_id'',
      ''callback_session_id'', ''callback_mode'']"

lemmas store_keys = FAILURE_RETRY_HISTORY_KIND_def WEB_PUSH_USER_KEY_METADATA_def
  WEB_PUSH_USER_KEYS_METADATA_def WEB_PUSH_AUTHORIZATION_CONTEXTS_METADATA_def
  VIBEY_RESUME_METADATA_KEY_def VIBEY_SOURCE_TURN_METADATA_KEY_def

section \<open>Identity and metadata of an input\<close>

definition is_dict :: "json \<Rightarrow> bool" where
  "is_dict v = (case v of JObj _ \<Rightarrow> True | _ \<Rightarrow> False)"

text \<open>\<open>v\<close> as a dictionary when it is one, and the empty dictionary otherwise.\<close>

definition as_dict :: "json \<Rightarrow> jobj" where
  "as_dict v = (case v of JObj m \<Rightarrow> m | _ \<Rightarrow> fmempty)"

definition is_vibey_resume_payload :: "jobj \<Rightarrow> bool" where
  "is_vibey_resume_payload payload \<longleftrightarrow>
     jget payload ''type'' = JStr ''agent_initiated''
     \<and> jget payload ''author'' = JStr ''harness''
     \<and> jget payload ''source'' = JStr ''harness''
     \<and> is_dict (jget payload ''metadata'')
     \<and> jget (as_dict (jget payload ''metadata'')) VIBEY_RESUME_METADATA_KEY = JBool True"

definition legacy_admitted_user_id :: "json \<Rightarrow> string option" where
  "legacy_admitted_user_id metadata =
     (case jget (as_dict metadata) ''_memory_user_id'' of
        JStr s \<Rightarrow> if py_strip s \<noteq> [] then Some (py_strip s) else None
      | JDoc v \<Rightarrow> Some (py_strip (json_dumps v))
      | _ \<Rightarrow> None)"

definition message_kind_from_metadata :: "json \<Rightarrow> string" where
  "message_kind_from_metadata metadata =
     (let m = as_dict metadata in
      if truthy (jget m ''quick_reply_for'') then ''quick_reply''
      else if list_ex (\<lambda>key. truthy (jget m key))
                [''forwarded'', ''is_forwarded'', ''forward_origin'', ''forwarded_from''] then ''forwarded''
      else if truthy (jget m ''edited'') then ''edited''
      else if truthy (jget m ''is_system'') \<or> truthy (jget m ''system'') then ''system''
      else if jget m ''_memory_ordinary_text'' = JBool True then ''original''
      else ''unknown'')"

definition native_dedupe_key :: "string \<Rightarrow> string option \<Rightarrow> string option \<Rightarrow> string option" where
  "native_dedupe_key platform native_message_id scope_id =
     (let native_id = py_strip (opt_str native_message_id);
          native_scope = py_strip (opt_str scope_id)
      in if native_id = [] then None
         else if native_scope = [] then Some (platform @ '':'' @ native_id)
         else Some (platform @ '':scope:'' @ nat_str (length native_scope) @ '':'' @ native_scope @ '':'' @ native_id))"

definition metadata_without_delegated_owner :: "json \<Rightarrow> jobj" where
  "metadata_without_delegated_owner metadata =
     (let result = fmdrop ''delegated_memory_owner'' (as_dict metadata);
          provenance = jget result ''scheduled_provenance'';
          spec = (if is_dict provenance then jget (as_dict provenance) ''platform_specific'' else JNull);
          nested = (if is_dict spec then jget (as_dict spec) ''message_metadata'' else JNull)
      in if is_dict nested
         then fmupd ''scheduled_provenance''
                (JObj (fmupd ''platform_specific''
                  (JObj (fmupd ''message_metadata''
                    (JObj (fmdrop ''delegated_memory_owner'' (as_dict nested))) (as_dict spec)))
                  (as_dict provenance)))
                result
         else result)"

primrec without_private_fields :: "bool \<Rightarrow> json \<Rightarrow> json" where
  "without_private_fields detail JNull = JNull"
| "without_private_fields detail (JBool b) = JBool b"
| "without_private_fields detail (JInt n) = JInt n"
| "without_private_fields detail (JStr s) = JStr s"
| "without_private_fields detail (JDoc v) = JDoc v"
| "without_private_fields detail (JList xs) = JList (map (without_private_fields detail) xs)"
| "without_private_fields detail (JObj m) =
     JObj (fmfilter (\<lambda>key. key \<notin> {''resource_user_context'', ''delegated_memory_owner''}
             \<and> take 10 key \<noteq> ''_web_push_'' \<and> take 8 key \<noteq> ''_memory_''
             \<and> (detail \<or> key \<noteq> ''local_error_detail''))
          (fmmap (without_private_fields detail) m))"

definition public_message_metadata :: "json \<Rightarrow> bool \<Rightarrow> json" where
  "public_message_metadata metadata include_local_error_detail =
     without_private_fields include_local_error_detail (JObj (as_dict metadata))"

section \<open>The Message candidate\<close>

record message_input =
  mi_scope_id :: "string option"
  mi_session_id :: string
  mi_platform :: string
  mi_author :: string
  mi_source :: "string option"
  mi_message_type :: "string option"
  mi_text :: "string option"
  mi_content :: "jobj option"
  mi_metadata :: "jobj option"
  mi_author_id :: "string option"
  mi_author_name :: "string option"
  mi_native_message_id :: "string option"
  mi_parent_native_message_id :: "string option"
  mi_message_kind :: "string option"
  mi_read_at :: "string option"

definition message_snapshot :: "message_input \<Rightarrow> jobj" where
  "message_snapshot i =
     (let body0 = (case mi_content i of None \<Rightarrow> fmempty | Some c \<Rightarrow> c);
          body = (case mi_text i of
                    None \<Rightarrow> body0
                  | Some t \<Rightarrow> (if fmlookup body0 ''text'' = None then fmupd ''text'' (JStr t) body0 else body0));
          type0 = (if opt_str (mi_message_type i) \<noteq> [] then opt_str (mi_message_type i)
                   else if mi_author i = ''user'' then ''user'' else ''assistant'');
          to_harness = (mi_source i = Some ''harness'' \<and> mi_author i = ''user'' \<and> type0 = ''user'');
          author = (if to_harness then ''harness'' else mi_author i);
          resolved_type = (if to_harness then ''harness'' else type0);
          metadata0 = (case mi_metadata i of None \<Rightarrow> fmempty | Some m \<Rightarrow> m);
          metadata = (if mi_source i = Some ''user''
                      then fmdrop ''scheduled_provenance'' (metadata_without_delegated_owner (JObj metadata0))
                      else metadata0);
          filtered_metadata = fmfilter (\<lambda>key. take 8 key \<noteq> ''_memory_'') metadata
      in jdict
          [(''scope_id'', jopt (mi_scope_id i)),
           (''session_id'', JStr (mi_session_id i)),
           (''platform'', JStr (mi_platform i)),
           (''author'', JStr author),
           (''type'', JStr resolved_type),
           (''author_id'', jopt (mi_author_id i)),
           (''author_name'', jopt (mi_author_name i)),
           (''source'', jopt (mi_source i)),
           (''native_message_id'', jopt (mi_native_message_id i)),
           (''parent_native_message_id'', jopt (mi_parent_native_message_id i)),
           (''message_kind'', JStr (normalize_message_kind (jopt (mi_message_kind i)))),
           (''content_text'',
              (case mi_text i of
                 Some t \<Rightarrow> JStr t
               | None \<Rightarrow> (if truthy (jget body ''text'') then jget body ''text'' else JNull))),
           (''content_json'', canonical_json (JObj body)),
           (''metadata_json'', canonical_json (JObj filtered_metadata)),
           (''read_at'', jopt (mi_read_at i))])"

section \<open>The delivery history\<close>

text \<open>\<open>_history(value)["events"]\<close>, and an event appended to it.\<close>

definition history_events :: "json \<Rightarrow> json list" where
  "history_events value = (case jget (json_object value) ''events'' of JList es \<Rightarrow> es | _ \<Rightarrow> [])"

definition history_json :: "json list \<Rightarrow> json" where
  "history_json es = canonical_json (JObj (jdict [(''version'', JInt 1), (''events'', JList es)]))"

definition stamped_event :: "string \<Rightarrow> jobj \<Rightarrow> json" where
  "stamped_event now event = JObj (jdict [(''at'', JStr now)] ++\<^sub>f event)"

definition append_history_value :: "env \<Rightarrow> json \<Rightarrow> jobj \<Rightarrow> json" where
  "append_history_value env value event =
     history_json (history_events value @ [stamped_event (utc_now_iso env) event])"

text \<open>The CHECK on the history column makes \<open>events\<close> a list, so the loop over another value is not reached.\<close>

definition delivery_admission_context :: "delivery \<Rightarrow> jobj" where
  "delivery_admission_context delivery =
     (case find (\<lambda>e. is_dict e \<and> jget (as_dict e) ''kind'' = JStr ''admission'')
            (history_events (d_delivery_history_json delivery)) of
        None \<Rightarrow> fmempty
      | Some e \<Rightarrow> as_dict (jget (as_dict e) ''context''))"

definition delivery_has_history_event :: "delivery \<Rightarrow> string \<Rightarrow> bool" where
  "delivery_has_history_event delivery kind =
     list_ex (\<lambda>e. is_dict e \<and> str_or_empty (jget (as_dict e) ''kind'') = kind)
       (history_events (d_delivery_history_json delivery))"

text \<open>\<open>event.get\<close> of an event that is not a dictionary raises \<open>AttributeError\<close>.\<close>

definition event_dict :: "json \<Rightarrow> jobj result" where
  "event_dict e = (case e of JObj m \<Rightarrow> Inr m | _ \<Rightarrow> Inl AttributeError)"

definition has_kind :: "jobj \<Rightarrow> string \<Rightarrow> bool" where
  "has_kind event kind \<longleftrightarrow> jget event ''kind'' = JStr kind"

definition has_outcome :: "jobj \<Rightarrow> string list \<Rightarrow> bool" where
  "has_outcome event outcomes \<longleftrightarrow> jget event ''outcome'' \<in> JStr ` set outcomes"

fun binding_scan :: "bool \<Rightarrow> json list \<Rightarrow> jobj option result" where
  "binding_scan unclaimed_only [] = Inr None"
| "binding_scan unclaimed_only (e # es) = bind_result (event_dict e) (\<lambda>event.
     if unclaimed_only \<and> has_kind event ''start'' \<and> has_outcome event [''claimed'', ''opened''] then Inr None
     else if has_kind event FAILURE_RETRY_HISTORY_KIND then Inr (Some event)
     else binding_scan unclaimed_only es)"

definition failure_retry_binding :: "delivery \<Rightarrow> bool \<Rightarrow> jobj option result" where
  "failure_retry_binding delivery unclaimed_only =
     binding_scan unclaimed_only (rev (history_events (d_delivery_history_json delivery)))"

fun retry_state_scan :: "json list \<Rightarrow> bool result" where
  "retry_state_scan [] = Inr False"
| "retry_state_scan (e # es) = bind_result (event_dict e) (\<lambda>event.
     if has_kind event ''start'' \<or> has_kind event ''queue'' then Inr False
     else if has_kind event FAILURE_RETRY_HISTORY_KIND then Inr True
     else retry_state_scan es)"

definition failure_retry_state :: "delivery \<Rightarrow> delivery_state result" where
  "failure_retry_state delivery =
     (if d_state delivery = Queued
      then bind_result (retry_state_scan (rev (history_events (d_delivery_history_json delivery))))
             (\<lambda>awaiting. Inr (if awaiting then Reserved else d_state delivery))
      else Inr (d_state delivery))"

fun receipt_scan :: "bool \<Rightarrow> json list \<Rightarrow> jobj option result" where
  "receipt_scan completed_no_write [] = Inr None"
| "receipt_scan completed_no_write (e # es) = bind_result (event_dict e) (\<lambda>event.
     if has_kind event FAILURE_RETRY_HISTORY_KIND then Inr None
     else if has_kind event ''start'' then
       (if has_outcome event [''not_written''] then
          bind_result (object_or_empty (jget event ''receipt'')) (\<lambda>receipt.
            if jget receipt ''requires_explicit_retry'' = JBool True then Inr (Some receipt)
            else receipt_scan True es)
        else if completed_no_write \<and> has_outcome event [''claimed'', ''opened'']
        then receipt_scan completed_no_write es
        else Inr None)
     else receipt_scan completed_no_write es)"

definition explicit_start_retry_receipt :: "delivery \<Rightarrow> jobj option result" where
  "explicit_start_retry_receipt delivery =
     receipt_scan False (rev (history_events (d_delivery_history_json delivery)))"

definition requires_explicit_start_retry :: "delivery \<Rightarrow> bool result" where
  "requires_explicit_start_retry delivery =
     bind_result (explicit_start_retry_receipt delivery) (\<lambda>r. Inr (r \<noteq> None))"

fun failures_scan :: "nat \<Rightarrow> json list \<Rightarrow> nat result" where
  "failures_scan count [] = Inr count"
| "failures_scan count (e # es) = bind_result (event_dict e) (\<lambda>event.
     if has_kind event FAILURE_RETRY_HISTORY_KIND then Inr count
     else if \<not> has_kind event ''start'' then failures_scan count es
     else if has_outcome event [''claimed'', ''opened''] then failures_scan count es
     else bind_result (object_or_empty (jget event ''receipt'')) (\<lambda>receipt.
       if jget receipt ''reason'' = JStr ''refused_concurrent_turn'' then failures_scan count es
       else if \<not> has_outcome event [''not_written'']
         \<or> jget receipt ''kind'' \<noteq> JStr ''definitive_prewrite_failure''
         \<or> jget receipt ''reason'' \<noteq> JStr ''no_terminal_result'' then Inr count
       else failures_scan (Suc count) es))"

definition consecutive_prewrite_start_failures :: "delivery \<Rightarrow> nat result" where
  "consecutive_prewrite_start_failures delivery =
     failures_scan 0 (rev (history_events (d_delivery_history_json delivery)))"

section \<open>Payloads\<close>

definition jint_opt :: "int option \<Rightarrow> json" where
  "jint_opt x = (case x of None \<Rightarrow> JNull | Some n \<Rightarrow> JInt n)"

text \<open>\<open>a or b\<close> of two values.\<close>

definition or_else :: "json \<Rightarrow> json \<Rightarrow> json" where
  "or_else a b = (if truthy a then a else b)"

definition delivery_payload_from_snapshot :: "delivery \<Rightarrow> jobj \<Rightarrow> jobj result" where
  "delivery_payload_from_snapshot row snapshot =
     bind_result (if d_state row = Queued then explicit_start_retry_receipt row else Inr None) (\<lambda>retry_receipt.
     let content = json_object (jget snapshot ''content_json'');
         metadata = json_object (jget snapshot ''metadata_json'')
     in Inr (jdict
       [(''id'', JStr (d_id row)),
        (''delivery_id'', JStr (d_id row)),
        (''message_id'', jopt (d_message_id row)),
        (''turn_id'', jopt (d_turn_id row)),
        (''turn_role'', jopt (d_turn_role row)),
        (''turn_position'', jint_opt (d_turn_position row)),
        (''session_id'', JStr (d_session_id row)),
        (''scope_id'', jget snapshot ''scope_id''),
        (''platform'', jget snapshot ''platform''),
        (''author'', jget snapshot ''author''),
        (''type'', jget snapshot ''type''),
        (''source'', jget snapshot ''source''),
        (''author_id'', jget snapshot ''author_id''),
        (''author_name'', jget snapshot ''author_name''),
        (''native_message_id'', jget snapshot ''native_message_id''),
        (''parent_native_message_id'', jget snapshot ''parent_native_message_id''),
        (''message_kind'',
           JStr (if fmlookup snapshot ''message_kind'' \<noteq> None
                 then normalize_message_kind (jget snapshot ''message_kind'')
                 else message_kind_from_metadata (JObj metadata))),
        (''text'', or_else (jget snapshot ''content_text'') (or_else (jget content ''text'') (JStr []))),
        (''content'', JObj content),
        (''metadata'', JObj metadata),
        (''dispatch_text'', JStr (opt_str (d_dispatch_text row))),
        (''priority'', JStr (priority_name (d_priority row))),
        (''state'', JStr (state_name (d_state row))),
        (''requires_explicit_retry'', JBool (retry_receipt \<noteq> None)),
        (''retry_reason'', (case retry_receipt of None \<Rightarrow> JNull | Some r \<Rightarrow> jget r ''reason'')),
        (''created_at'', JStr (d_submitted_at row)),
        (''submitted_at'', JStr (d_submitted_at row)),
        (''updated_at'', JStr (d_updated_at row)),
        (''retired_at'', jopt (d_retired_at row)),
        (''version'', JInt (d_version row))]))"

definition delivery_payload :: "delivery \<Rightarrow> jobj result" where
  "delivery_payload row = delivery_payload_from_snapshot row (json_object (d_snapshot_json row))"

definition delivery_has_remote_resource_context :: "delivery \<Rightarrow> bool result" where
  "delivery_has_remote_resource_context row =
     bind_result (delivery_payload row) (\<lambda>payload.
       Inr (is_dict (jget payload ''metadata'') \<and>
            is_dict (jget (as_dict (jget payload ''metadata'')) ''resource_user_context'')))"

definition scheduled_delivery_provenance :: "jobj \<Rightarrow> jobj option" where
  "scheduled_delivery_provenance payload =
     (if jget payload ''source'' \<noteq> JStr ''harness'' then None
      else let provenance = jget (as_dict (jget payload ''metadata'')) ''scheduled_provenance'';
               spec = (if is_dict provenance then jget (as_dict provenance) ''platform_specific'' else JNull)
           in if is_dict spec then Some (as_dict provenance) else None)"

text \<open>\<open>public_delivery_payload\<close> takes a row, or a mapping that already is a payload.\<close>

datatype payload_source = FromRow delivery | FromPayload jobj

definition public_delivery_payload :: "payload_source \<Rightarrow> jobj result" where
  "public_delivery_payload source =
     bind_result (case source of FromRow row \<Rightarrow> delivery_payload row | FromPayload payload \<Rightarrow> Inr payload) (\<lambda>payload.
       Inr (if is_dict (jget payload ''metadata'')
            then fmupd ''metadata'' (public_message_metadata (jget payload ''metadata'') False) payload
            else payload))"

definition has_substantive_input :: "string option \<Rightarrow> bool \<Rightarrow> bool" where
  "has_substantive_input dispatch_text has_attachments \<longleftrightarrow>
     py_strip (opt_str dispatch_text) \<noteq> [] \<or> has_attachments"

definition has_substantive_content :: "delivery \<Rightarrow> bool \<Rightarrow> bool" where
  "has_substantive_content delivery has_attachments =
     has_substantive_input (d_dispatch_text delivery) has_attachments"

section \<open>Batches\<close>

definition MESSAGE_MERGE_IDENTITY_FIELDS :: "string list" where
  "MESSAGE_MERGE_IDENTITY_FIELDS =
     [''scope_id'', ''platform'', ''author'', ''type'', ''source'', ''author_id'', ''author_name'',
      ''parent_native_message_id'', ''message_kind'']"

definition is_voice_input :: "json \<Rightarrow> bool" where
  "is_voice_input metadata \<longleftrightarrow> is_dict metadata \<and> jget (as_dict metadata) ''input'' = JStr ''voice''"

definition delegated_authority_merge_identity :: "jobj \<Rightarrow> json" where
  "delegated_authority_merge_identity metadata =
     (let provenance = jget metadata ''scheduled_provenance'';
          spec = (if is_dict provenance then jget (as_dict provenance) ''platform_specific'' else JNull);
          nested = (if is_dict spec then jget (as_dict spec) ''message_metadata'' else JNull)
      in canonical_json (JList (map (\<lambda>value.
           if is_dict value
           then JObj (jdict [(''resource_user_context'', jget (as_dict value) ''resource_user_context'')])
           else JNull) [JObj metadata, nested])))"

definition message_merge_identity :: "jobj \<Rightarrow> json list" where
  "message_merge_identity value =
     (let metadata = (if is_dict (jget value ''metadata'') then as_dict (jget value ''metadata'')
                      else json_object (jget value ''metadata_json''));
          kind = (if fmlookup value ''message_kind'' \<noteq> None
                  then normalize_message_kind (jget value ''message_kind'')
                  else message_kind_from_metadata (JObj metadata))
      in map (jget value) (butlast MESSAGE_MERGE_IDENTITY_FIELDS) @
         [JStr kind,
          (if jget value ''platform'' = JStr ''avibe'' \<and> \<not> truthy (jget value ''author_id'')
           then jopt (legacy_admitted_user_id (JObj metadata)) else JNull),
          delegated_authority_merge_identity metadata,
          JBool (is_voice_input (JObj metadata))])"

definition verified_snapshot :: "delivery \<Rightarrow> jobj result" where
  "verified_snapshot delivery =
     (let snapshot_json = d_snapshot_json delivery in
      if \<not> truthy snapshot_json \<or> Sha256 snapshot_json \<noteq> d_snapshot_sha256 delivery
      then Inl (RuntimeError ''Delivery snapshot integrity check failed'')
      else let snapshot = json_object snapshot_json in
        if list_all (\<lambda>k. fmlookup snapshot k \<noteq> None)
             [''session_id'', ''platform'', ''author'', ''type'', ''content_json'', ''metadata_json'']
        then Inr snapshot
        else Inl (RuntimeError ''Delivery snapshot is incomplete''))"

text \<open>The web push recipients and their authorization contexts, collected over a batch.\<close>

definition add_push_key :: "json \<Rightarrow> string list \<Rightarrow> string list" where
  "add_push_key value keys =
     (let key = py_strip (str_or_empty value)
      in if key \<noteq> [] \<and> key \<notin> set keys then keys @ [key] else keys)"

definition snapshot_push_values :: "jobj \<Rightarrow> json list" where
  "snapshot_push_values metadata =
     jget metadata WEB_PUSH_USER_KEY_METADATA
     # (case jget metadata WEB_PUSH_USER_KEYS_METADATA of JList vs \<Rightarrow> vs | _ \<Rightarrow> [])"

definition add_push_context :: "json \<Rightarrow> (string \<times> json) list \<Rightarrow> (string \<times> json) list" where
  "add_push_context raw_context contexts =
     (if is_dict raw_context
      then let user_key = py_strip (str_or_empty (jget (as_dict raw_context) ''user_key''))
           in if user_key \<noteq> [] then dict_put user_key raw_context contexts else contexts
      else contexts)"

definition snapshot_push_contexts :: "jobj \<Rightarrow> json list" where
  "snapshot_push_contexts metadata =
     (case jget metadata WEB_PUSH_AUTHORIZATION_CONTEXTS_METADATA of JList vs \<Rightarrow> vs | _ \<Rightarrow> [])"

definition merged_push_metadata :: "jobj list \<Rightarrow> jobj \<Rightarrow> jobj" where
  "merged_push_metadata snapshots metadata0 =
     (let metadatas = map (\<lambda>s. json_object (jget s ''metadata_json'')) snapshots;
          keys = fold add_push_key (concat (map snapshot_push_values metadatas)) [];
          contexts = fold add_push_context (concat (map snapshot_push_contexts metadatas)) [];
          metadata1 = fmdrop WEB_PUSH_USER_KEYS_METADATA (fmdrop WEB_PUSH_USER_KEY_METADATA metadata0);
          metadata2 = (case keys of
                         [] \<Rightarrow> metadata1
                       | [k] \<Rightarrow> fmupd WEB_PUSH_USER_KEY_METADATA (JStr k) metadata1
                       | _ \<Rightarrow> fmupd WEB_PUSH_USER_KEYS_METADATA (JList (map JStr keys)) metadata1);
          filtered = map snd (filter (\<lambda>(k, _). k \<in> set keys) contexts)
      in if filtered \<noteq> []
         then fmupd WEB_PUSH_AUTHORIZATION_CONTEXTS_METADATA (JList filtered) metadata2
         else fmdrop WEB_PUSH_AUTHORIZATION_CONTEXTS_METADATA metadata2)"

definition harness_source :: "jobj \<Rightarrow> jobj" where
  "harness_source spec = jdict (map (\<lambda>key. (key, jget spec key))
     (filter (\<lambda>key. jget spec key \<noteq> JNull) HARNESS_SOURCE_FIELDS))"

definition snapshot_harness_specs :: "jobj list \<Rightarrow> json list result" where
  "snapshot_harness_specs snapshots =
     map_result (\<lambda>snapshot.
       bind_result (object_or_empty (jget (json_object (jget snapshot ''metadata_json'')) ''scheduled_provenance''))
         (\<lambda>provenance. Inr (jget provenance ''platform_specific'')))
       (filter (\<lambda>snapshot. jget snapshot ''source'' = JStr ''harness'') snapshots)"

definition merged_batch_metadata :: "delivery list \<Rightarrow> jobj list \<Rightarrow> jobj \<Rightarrow> jobj result" where
  "merged_batch_metadata rows snapshots metadata0 =
     (if length rows \<le> 1 then Inr metadata0
      else bind_result (snapshot_harness_specs snapshots) (\<lambda>specs.
        let metadata1 = fmupd ''merged_delivery_ids'' (JList (map (\<lambda>r. JStr (d_id r)) rows)) metadata0;
            harness_sources = map (\<lambda>spec. JObj (harness_source (as_dict spec))) (filter is_dict specs);
            metadata2 = (if harness_sources \<noteq> []
                         then fmupd ''merged_harness_sources'' (JList harness_sources) metadata1 else metadata1);
            native_ids = filter (\<lambda>n. n \<noteq> []) (map (\<lambda>s. str_or_empty (jget s ''native_message_id'')) snapshots)
        in Inr (if native_ids \<noteq> []
                then fmupd ''merged_native_message_ids'' (JList (map JStr native_ids)) metadata2
                else metadata2)))"

text \<open>The visible text and the attachments a batch is shown with.\<close>

definition merged_visible_text :: "jobj list \<Rightarrow> string" where
  "merged_visible_text snapshots =
     join [CHR 0x0A] (filter (\<lambda>t. t \<noteq> []) (map (\<lambda>s. str_or_empty (jget s ''content_text'')) snapshots))"

definition merged_attachments :: "jobj list \<Rightarrow> json list result" where
  "merged_attachments contents =
     bind_result (map_result (\<lambda>content.
         (let a = jget content ''attachments'' in if truthy a then py_iter a else Inr [])) contents)
       (\<lambda>xss. Inr (concat xss))"

definition merged_content :: "jobj list \<Rightarrow> string \<Rightarrow> json list \<Rightarrow> jobj" where
  "merged_content contents visible_text attachments =
     (let c0 = hd contents;
          c1 = (if visible_text \<noteq> [] then fmupd ''text'' (JStr visible_text) c0 else fmdrop ''text'' c0)
      in if attachments \<noteq> [] then fmupd ''attachments'' (JList attachments) c1 else c1)"

definition merged_initial_snapshot :: "delivery list \<Rightarrow> jobj result" where
  "merged_initial_snapshot rows =
     bind_result (map_result verified_snapshot rows) (\<lambda>snapshots.
       case snapshots of
         [] \<Rightarrow> Inl IndexError
       | s0 # rest \<Rightarrow>
          if list_ex (\<lambda>s. message_merge_identity s \<noteq> message_merge_identity s0) rest
          then Inl (RuntimeError ''Delivery batch contains incompatible Message identities'')
          else
           let contents = map (\<lambda>s. json_object (jget s ''content_json'')) snapshots;
               visible_text = merged_visible_text snapshots
           in bind_result (merged_attachments contents) (\<lambda>attachments.
              bind_result (merged_batch_metadata rows snapshots
                  (merged_push_metadata snapshots (json_object (jget s0 ''metadata_json'')))) (\<lambda>metadata.
              Inr (fmupd ''metadata_json'' (canonical_json (JObj metadata))
                    (fmupd ''content_json''
                       (canonical_json (JObj (merged_content contents visible_text attachments)))
                       (fmupd ''content_text'' (if visible_text \<noteq> [] then JStr visible_text else JNull)
                          (fmupd ''created_at'' (JStr (d_submitted_at (hd rows))) s0)))))))"

end
