(* ===== verification/DeliveryOps.thy ===== *)
theory DeliveryOps
  imports DeliveryContent
begin

text \<open>
  The operations of the Delivery store: the ordered reads, the inserts, the two
  compare-and-set writes, and the operations built from them that claim, steer, accept,
  reconcile and retire Deliveries and move Turns
  (\<open>src/storage/message_deliveries.py\<close>). An operation takes the database last and returns
  its result with the new database, or the exception it raises.
\<close>

section \<open>Reads\<close>

definition get_delivery_by_native_identity ::
    "string \<Rightarrow> string option \<Rightarrow> string option \<Rightarrow> string option \<Rightarrow> bool \<Rightarrow> db \<Rightarrow> (delivery option \<times> db) result" where
  "get_delivery_by_native_identity platform native_message_id scope_id session_id normalize_legacy d =
     (case native_dedupe_key platform native_message_id scope_id of
        None \<Rightarrow> Inr (None, d)
      | Some canonical_key \<Rightarrow>
         (let delivery = get_delivery_by_dedupe d canonical_key in
          if delivery \<noteq> None \<or> scope_id = None then Inr (delivery, d)
          else case native_dedupe_key platform native_message_id None of
            None \<Rightarrow> Inr (None, d)
          | Some legacy_key \<Rightarrow>
             if legacy_key = canonical_key then Inr (None, d)
             else case get_delivery_by_dedupe d legacy_key of
               None \<Rightarrow> Inr (None, d)
             | Some r \<Rightarrow>
                if session_id \<noteq> None \<and> Some (d_session_id r) \<noteq> session_id then Inr (None, d)
                else
                 let scope0 = jget (json_object (d_snapshot_json r)) ''scope_id'';
                     delivery_scope =
                       (if scope0 = JNull \<and> opt_str (d_message_id r) \<noteq> []
                        then (case get_message d (opt_str (d_message_id r)) of
                                None \<Rightarrow> JNull | Some m \<Rightarrow> jget (m_columns m) ''scope_id'')
                        else scope0)
                 in if delivery_scope \<noteq> jopt scope_id then Inr (None, d)
                    else if \<not> normalize_legacy then Inr (Some r, d)
                    else bind_result (update_deliveries
                           (\<lambda>x. d_id x = d_id r \<and> d_dedupe_key x = Some legacy_key)
                           (\<lambda>x. x\<lparr>d_dedupe_key := Some canonical_key\<rparr>) d) (\<lambda>(n, d').
                         Inr (if n \<noteq> 1 then get_delivery_by_dedupe d' canonical_key
                              else Some (r\<lparr>d_dedupe_key := Some canonical_key\<rparr>), d'))))"

definition created_order :: "turn \<Rightarrow> string \<times> string" where
  "created_order t = (t_created_at t, t_id t)"

definition select_turns :: "(turn \<Rightarrow> bool) \<Rightarrow> db \<Rightarrow> turn list" where
  "select_turns p d = sort_key created_order (filter p (turns d))"

definition active_turn :: "db \<Rightarrow> string \<Rightarrow> turn option" where
  "active_turn d session_id =
     one (rev (select_turns (\<lambda>t. t_session_id t = session_id \<and> t_state t \<in> set TURN_OWNER_STATES) d))"

definition ordering_head :: "db \<Rightarrow> string \<Rightarrow> bool \<Rightarrow> delivery option" where
  "ordering_head d session_id include_claimable =
     one (select_deliveries (\<lambda>r. d_session_id r = session_id \<and>
        (d_state r \<in> set FENCE_STATES \<or>
         (include_claimable \<and> d_priority r = P3 \<and> d_state r \<in> set CLAIMABLE_QUEUE_STATES))) d)"

definition claimable_fifo_head :: "db \<Rightarrow> string \<Rightarrow> delivery option" where
  "claimable_fifo_head d session_id =
     (case ordering_head d session_id True of
        None \<Rightarrow> None
      | Some head \<Rightarrow> if d_state head = Queued then Some head else None)"

definition claimable_fifo_rows :: "db \<Rightarrow> string \<Rightarrow> delivery list" where
  "claimable_fifo_rows d session_id =
     takeWhile (\<lambda>r. d_state r = Queued)
       (select_deliveries (\<lambda>r. d_session_id r = session_id \<and>
          ((d_priority r = P3 \<and> d_state r = Queued) \<or> d_state r \<in> set FENCE_STATES)) d)"

definition claimable_fifo_prefix :: "db \<Rightarrow> string \<Rightarrow> jobj list result" where
  "claimable_fifo_prefix d session_id = map_result delivery_payload (claimable_fifo_rows d session_id)"

definition list_queued :: "db \<Rightarrow> string \<Rightarrow> bool \<Rightarrow> jobj list result" where
  "list_queued d session_id include_steering =
     (let states = (if include_steering then {Queued, PendingSteer, Steering, ReconcilingSteer} else {Queued})
      in map_result delivery_payload
           (select_deliveries (\<lambda>r. d_session_id r = session_id \<and> d_state r \<in> states) d))"

definition position_order :: "delivery \<Rightarrow> int option \<times> string" where
  "position_order r = (d_turn_position r, d_id r)"

definition initial_deliveries_for_turn :: "db \<Rightarrow> string \<Rightarrow> delivery list" where
  "initial_deliveries_for_turn d turn_id =
     sort_key position_order
       (filter (\<lambda>r. d_turn_id r = Some turn_id \<and> d_turn_role r = Some ''initial'') (deliveries d))"

definition attempt_deliveries :: "db \<Rightarrow> string \<Rightarrow> delivery list" where
  "attempt_deliveries d attempt_id = select_deliveries (\<lambda>r. d_current_attempt_id r = Some attempt_id) d"

definition recovery_turns :: "db \<Rightarrow> string option \<Rightarrow> turn list" where
  "recovery_turns d session_id =
     (let scoped = (\<lambda>t. opt_str session_id = [] \<or> Some (t_session_id t) = session_id)
      in sort_key created_order
           (filter (\<lambda>t. t_state t = Waiting \<and> scoped t) (turns d) @
            filter (\<lambda>t. t_state t \<in> {Starting, Active} \<and> scoped t) (turns d)))"

definition live_delivery :: "delivery \<Rightarrow> bool" where
  "live_delivery r \<longleftrightarrow>
     d_state r \<in> {Reserved, Queued, Claimed, PendingSteer, Steering, ReconcilingSteer}"

definition unresolved_deliveries :: "db \<Rightarrow> string option \<Rightarrow> delivery list" where
  "unresolved_deliveries d session_id =
     select_deliveries (\<lambda>r. d_state r \<in> set (FENCE_STATES @ [Claimed]) \<and> live_delivery r \<and>
       (opt_str session_id = [] \<or> Some (d_session_id r) = session_id)) d"

definition recoverable_reservations :: "db \<Rightarrow> string option \<Rightarrow> delivery list" where
  "recoverable_reservations d session_id =
     select_deliveries (\<lambda>r. d_state r = Reserved \<and> live_delivery r \<and>
       (opt_str session_id = [] \<or> Some (d_session_id r) = session_id)) d"

definition session_ids_with_live_turns :: "db \<Rightarrow> string set" where
  "session_ids_with_live_turns d = set (map t_session_id (filter turn_live (turns d)))"

definition session_has_turn_history :: "db \<Rightarrow> string \<Rightarrow> bool" where
  "session_has_turn_history d session_id = list_ex (\<lambda>t. t_session_id t = session_id) (turns d)"

definition active_runtime_session_ids_for_backend :: "db \<Rightarrow> string \<Rightarrow> string set" where
  "active_runtime_session_ids_for_backend d backend =
     set (map t_session_id (filter (\<lambda>t. t_backend t = backend \<and> t_state t = Active) (turns d)))"

definition live_turns_for_backend_sessions :: "db \<Rightarrow> string \<Rightarrow> string set \<Rightarrow> turn list" where
  "live_turns_for_backend_sessions d backend session_ids =
     filter (\<lambda>t. t_backend t = backend \<and> t_session_id t \<in> session_ids \<and>
                 t_state t \<in> set TURN_OWNER_STATES) (turns d)"

definition delivery_for_turn :: "db \<Rightarrow> string \<Rightarrow> delivery option" where
  "delivery_for_turn d turn_id =
     get_delivery d (case get_turn d turn_id of None \<Rightarrow> [] | Some t \<Rightarrow> t_initial_delivery_id t)"

definition message_for_delivery :: "db \<Rightarrow> delivery \<Rightarrow> message option" where
  "message_for_delivery d delivery =
     (if opt_str (d_message_id delivery) = [] then None else get_message d (opt_str (d_message_id delivery)))"

definition execution_delivery_payload :: "db \<Rightarrow> delivery \<Rightarrow> jobj result" where
  "execution_delivery_payload d delivery =
     (case message_for_delivery d delivery of
        Some m \<Rightarrow> delivery_payload_from_snapshot delivery (m_columns m)
      | None \<Rightarrow> delivery_payload delivery)"

definition queued_session_ids_without_live_turns :: "db \<Rightarrow> string option \<Rightarrow> string list" where
  "queued_session_ids_without_live_turns d session_id =
     remdups (map d_session_id (filter (\<lambda>r. d_state r = Queued
        \<and> list_ex (\<lambda>a. a_id a = d_session_id r \<and> a_status a = ''active'') (sessions d)
        \<and> \<not> list_ex (\<lambda>t. t_session_id t = d_session_id r \<and> t_state t \<in> set TURN_OWNER_STATES) (turns d)
        \<and> (opt_str session_id = [] \<or> Some (d_session_id r) = session_id)) (deliveries d)))"

definition deliveries_for_turn :: "db \<Rightarrow> string \<Rightarrow> delivery list" where
  "deliveries_for_turn d turn_id =
     sort_key (\<lambda>r. (d_turn_position r, d_submitted_at r, d_id r))
       (filter (\<lambda>r. d_turn_id r = Some turn_id \<or> d_current_target_turn_id r = Some turn_id) (deliveries d))"

definition agent_run_ids_for_delivery :: "db \<Rightarrow> delivery \<Rightarrow> string list" where
  "agent_run_ids_for_delivery d delivery =
     (let delivery_id = py_strip (d_id delivery) in
      if delivery_id = [] then []
      else map run_id (sort_key (\<lambda>x. (run_created_at x, run_id x))
             (filter (\<lambda>x. run_delivery_id x = Some delivery_id) (runs d))))"

definition accepted_agent_run_ids_for_turn :: "db \<Rightarrow> string \<Rightarrow> string list" where
  "accepted_agent_run_ids_for_turn d turn_id =
     fold (\<lambda>r acc. if r \<in> set acc then acc else acc @ [r])
       (concat (map (agent_run_ids_for_delivery d)
          (filter (\<lambda>r. d_state r = Accepted \<and> d_turn_id r = Some turn_id) (deliveries_for_turn d turn_id)))) []"

definition pending_control_for_turn :: "db \<Rightarrow> string \<Rightarrow> turn option" where
  "pending_control_for_turn d turn_id =
     one (filter (\<lambda>t. t_id t = turn_id \<and> t_control_state t \<in>
        {Some ''pending'', Some ''interrupting'', Some ''waiting_terminal'', Some ''reconciling''}) (turns d))"

definition turn_has_unresolved_steer :: "db \<Rightarrow> string \<Rightarrow> bool" where
  "turn_has_unresolved_steer d turn_id =
     list_ex (\<lambda>r. d_current_target_turn_id r = Some turn_id \<and> d_state r \<in> {Steering, ReconcilingSteer}) (deliveries d)"

definition pending_steer_for_turn :: "db \<Rightarrow> string \<Rightarrow> delivery option" where
  "pending_steer_for_turn d turn_id =
     one (select_deliveries (\<lambda>r. d_current_target_turn_id r = Some turn_id \<and> d_state r = PendingSteer) d)"

definition turn_has_delivery_owner :: "db \<Rightarrow> string \<Rightarrow> bool" where
  "turn_has_delivery_owner d turn_id =
     (case get_turn d turn_id of None \<Rightarrow> False | Some t \<Rightarrow> get_delivery d (t_initial_delivery_id t) \<noteq> None)"

section \<open>Inserts\<close>

text \<open>The row that \<open>insert_turn\<close> writes.\<close>

definition turn_row :: "env \<Rightarrow> string \<Rightarrow> string \<Rightarrow> string \<Rightarrow> turn_state \<Rightarrow> string \<Rightarrow> string option
    \<Rightarrow> string option \<Rightarrow> string option \<Rightarrow> db \<Rightarrow> turn" where
  "turn_row env turn_id session_id initial_delivery_id state backend start_attempt_id dispatch_text now d =
     (let timestamp = (if opt_str now \<noteq> [] then opt_str now else turn_now_iso env);
          has_started = (state \<in> {Starting, Active});
          resolved_attempt_id =
            (if has_started then Some (if opt_str start_attempt_id \<noteq> [] then opt_str start_attempt_id
                                       else new_attempt_id env) else None);
          resolved_dispatch_text =
            (if has_started then
               (case dispatch_text of
                  Some t \<Rightarrow> Some t
                | None \<Rightarrow> Some (case get_delivery d initial_delivery_id of
                                  None \<Rightarrow> [] | Some r \<Rightarrow> opt_str (d_dispatch_text r)))
             else None)
      in \<lparr>t_id = turn_id, t_session_id = session_id, t_initial_delivery_id = initial_delivery_id,
            t_state = state, t_backend = backend, t_runtime_key = None, t_runtime_turn_id = None,
            t_native_turn_id = None, t_start_attempt_id = resolved_attempt_id,
            t_start_receipt_outcome = (if state = Active then Some ''accepted'' else None),
            t_start_receipt_json =
              (if state = Active then canonical_json (JObj (jdict [(''kind'', JStr ''seeded_active'')]))
               else JDoc (JObj fmempty)),
            t_dispatch_text = resolved_dispatch_text,
            t_dispatch_sha256 =
              (if has_started then Some (Sha256 (JStr (opt_str resolved_dispatch_text))) else None),
            t_terminal_outcome = None, t_settled_by = None, t_terminal_evidence_kind = None,
            t_terminal_evidence_json = JDoc (JObj fmempty), t_control_state = None, t_control_mode = None,
            t_control_attempt_id = None, t_control_expected_native_turn_id = None,
            t_control_receipt_outcome = None, t_control_receipt_json = JDoc (JObj fmempty),
            t_control_successor_delivery_id = None, t_control_successor_turn_id = None,
            t_version = 1, t_created_at = timestamp, t_updated_at = timestamp,
            t_started_at = (if has_started then Some timestamp else None), t_terminal_at = None\<rparr>)"

definition insert_turn :: "env \<Rightarrow> string \<Rightarrow> string \<Rightarrow> string \<Rightarrow> turn_state \<Rightarrow> string \<Rightarrow> string option
    \<Rightarrow> string option \<Rightarrow> string option \<Rightarrow> db \<Rightarrow> (turn \<times> db) result" where
  "insert_turn env turn_id session_id initial_delivery_id state backend start_attempt_id dispatch_text now d =
     (let values = turn_row env turn_id session_id initial_delivery_id state backend start_attempt_id
            dispatch_text now d
      in bind_result (insert_turns values d) (\<lambda>d'. Inr (values, d')))"

record delivery_input =
  in_delivery_id :: string
  in_session_id :: string
  in_priority :: delivery_priority
  in_state :: delivery_state
  in_snapshot :: jobj
  in_dispatch_text :: string
  in_dedupe_key :: "string option"
  in_turn_id :: "string option"
  in_current_attempt_id :: "string option"
  in_current_attempt_kind :: "string option"
  in_current_target_turn_id :: "string option"
  in_current_expected_native_turn_id :: "string option"
  in_current_receipt_outcome :: "string option"
  in_current_receipt :: "jobj option"
  in_history_event :: "jobj option"
  in_now :: "string option"

text \<open>The row that \<open>insert_delivery\<close> writes.\<close>

definition delivery_row :: "env \<Rightarrow> delivery_input \<Rightarrow> delivery" where
  "delivery_row env i =
     (let timestamp = (if opt_str (in_now i) \<noteq> [] then opt_str (in_now i) else utc_now_iso env);
          serialized_snapshot = canonical_json (JObj (in_snapshot i));
          events = (case in_history_event i of
                      None \<Rightarrow> []
                    | Some e \<Rightarrow> if e = fmempty then [] else [stamped_event timestamp e])
      in \<lparr>d_id = in_delivery_id i, d_session_id = in_session_id i, d_message_id = None,
            d_priority = in_priority i, d_state = in_state i,
            d_snapshot_json = serialized_snapshot, d_snapshot_sha256 = Sha256 serialized_snapshot,
            d_dispatch_text = Some (in_dispatch_text i),
            d_dispatch_sha256 = Sha256 (JStr (in_dispatch_text i)),
            d_dedupe_key = in_dedupe_key i, d_turn_id = in_turn_id i, d_turn_role = None,
            d_turn_position = None, d_current_attempt_id = in_current_attempt_id i,
            d_current_attempt_kind = in_current_attempt_kind i,
            d_current_target_turn_id = in_current_target_turn_id i,
            d_current_expected_native_turn_id = in_current_expected_native_turn_id i,
            d_current_receipt_outcome = in_current_receipt_outcome i,
            d_current_receipt_json =
              canonical_json (JObj (case in_current_receipt i of None \<Rightarrow> fmempty | Some m \<Rightarrow> m)),
            d_current_attempt_opened_at =
              (if opt_str (in_current_attempt_id i) \<noteq> [] then Some timestamp else None),
            d_delivery_history_json = history_json events, d_version = 1, d_submitted_at = timestamp,
            d_updated_at = timestamp, d_materialized_at = None, d_retired_at = None\<rparr>)"

definition insert_delivery :: "env \<Rightarrow> delivery_input \<Rightarrow> db \<Rightarrow> (delivery \<times> db) result" where
  "insert_delivery env i d =
     (let values = delivery_row env i
      in bind_result (insert_deliveries values d) (\<lambda>d'. Inr (values, d')))"

text \<open>A submission with the optional arguments of \<open>insert_delivery\<close> left at their defaults.\<close>

definition plain_input :: "string \<Rightarrow> string \<Rightarrow> delivery_priority \<Rightarrow> delivery_state \<Rightarrow> jobj \<Rightarrow> string
    \<Rightarrow> string option \<Rightarrow> jobj option \<Rightarrow> string option \<Rightarrow> delivery_input" where
  "plain_input delivery_id session_id priority state snapshot dispatch_text dedupe_key event now =
     \<lparr>in_delivery_id = delivery_id, in_session_id = session_id, in_priority = priority, in_state = state,
      in_snapshot = snapshot, in_dispatch_text = dispatch_text, in_dedupe_key = dedupe_key,
      in_turn_id = None, in_current_attempt_id = None, in_current_attempt_kind = None,
      in_current_target_turn_id = None, in_current_expected_native_turn_id = None,
      in_current_receipt_outcome = None, in_current_receipt = None, in_history_event = event, in_now = now\<rparr>"

definition enqueue_queued :: "env \<Rightarrow> message_input \<Rightarrow> string option \<Rightarrow> string option \<Rightarrow> db \<Rightarrow> (jobj \<times> db) result" where
  "enqueue_queued env i dispatch_text now d =
     bind_result (insert_delivery env (plain_input (new_delivery_id env) (mi_session_id i) P3 Queued
         (message_snapshot i)
         (case dispatch_text of None \<Rightarrow> opt_str (mi_text i) | Some t \<Rightarrow> t)
         (native_dedupe_key (mi_platform i) (mi_native_message_id i) (mi_scope_id i))
         (Some (jdict [(''kind'', JStr ''submitted''), (''priority'', JStr ''p3'')])) now) d)
       (\<lambda>(row, d'). bind_result (delivery_payload row) (\<lambda>payload. Inr (payload, d')))"

section \<open>Compare and set\<close>

text \<open>
  The columns a Turn write sets: the state and the start time, which \<open>cas_turn\<close> looks at,
  and the rest as an update of the row.
\<close>

record turn_values =
  tv_state :: "turn_state option"
  tv_started_at :: "string option option"
  tv_rest :: "turn \<Rightarrow> turn"

definition turn_update :: "env \<Rightarrow> int \<Rightarrow> turn_values \<Rightarrow> turn \<Rightarrow> turn" where
  "turn_update env expected_version v t =
     (let started = (case tv_started_at v of
                       Some s \<Rightarrow> s
                     | None \<Rightarrow> if tv_state v = Some Starting then Some (turn_now_iso env) else t_started_at t)
      in (tv_rest v t)
           \<lparr>t_state := (case tv_state v of None \<Rightarrow> t_state t | Some s \<Rightarrow> s),
            t_started_at := started,
            t_version := expected_version + 1, t_updated_at := utc_now_iso env\<rparr>)"

definition cas_turn :: "env \<Rightarrow> string \<Rightarrow> int \<Rightarrow> turn_state list \<Rightarrow> turn_values \<Rightarrow> db \<Rightarrow> (turn option \<times> db) result" where
  "cas_turn env turn_id expected_version expected_states v d =
     bind_result (update_turns
         (\<lambda>t. t_id t = turn_id \<and> t_version t = expected_version \<and> t_state t \<in> set expected_states)
         (turn_update env expected_version v) d)
       (\<lambda>(n, d'). Inr (if n = 1 then get_turn d' turn_id else None, d'))"

definition delivery_update :: "env \<Rightarrow> int \<Rightarrow> json \<Rightarrow> (delivery \<Rightarrow> delivery) \<Rightarrow> jobj option \<Rightarrow> delivery \<Rightarrow> delivery" where
  "delivery_update env expected_version history f event r =
     (case event of
        None \<Rightarrow> f r
      | Some e \<Rightarrow> (f r)\<lparr>d_delivery_history_json := append_history_value env history e\<rparr>)
       \<lparr>d_version := expected_version + 1, d_updated_at := utc_now_iso env\<rparr>"

definition cas_delivery :: "env \<Rightarrow> string \<Rightarrow> int \<Rightarrow> delivery_state list \<Rightarrow> (delivery \<Rightarrow> delivery) \<Rightarrow> jobj option
    \<Rightarrow> db \<Rightarrow> (delivery option \<times> db) result" where
  "cas_delivery env delivery_id expected_version expected_states f event d =
     (case get_delivery d delivery_id of
        None \<Rightarrow> Inr (None, d)
      | Some current \<Rightarrow>
         if d_version current \<noteq> expected_version then Inr (None, d)
         else bind_result (update_deliveries
                (\<lambda>r. d_id r = delivery_id \<and> d_version r = expected_version \<and> d_state r \<in> set expected_states)
                (delivery_update env expected_version (d_delivery_history_json current) f event) d)
              (\<lambda>(n, d'). Inr (if n = 1 then get_delivery d' delivery_id else None, d')))"

definition record_turn_reply :: "env \<Rightarrow> string \<Rightarrow> string \<Rightarrow> db \<Rightarrow> (bool \<times> db)" where
  "record_turn_reply env turn_id text d =
     (if list_ex (\<lambda>t. t_id t = turn_id \<and> t_state t \<in> set TURN_OWNER_STATES) (turns d)
      then let reply = \<lparr>r_turn_id = turn_id, r_reply_text = text, r_updated_at = utc_now_iso env\<rparr>
           in (True, d\<lparr>replies := (if list_ex (\<lambda>x. r_turn_id x = turn_id) (replies d)
                then update_where (\<lambda>x. r_turn_id x = turn_id) (\<lambda>_. reply) (replies d)
                else replies d @ [reply])\<rparr>)
      else (False, d))"

definition turn_last_reply :: "db \<Rightarrow> string \<Rightarrow> string option" where
  "turn_last_reply d turn_id = map_option r_reply_text (row_of r_turn_id (replies d) turn_id)"

section \<open>Start and steer attempts\<close>

text \<open>The columns of the current attempt, all of them reset except the time it was opened.\<close>

definition reset_attempt :: "string option \<Rightarrow> delivery \<Rightarrow> delivery" where
  "reset_attempt opened_at r =
     r\<lparr>d_current_attempt_id := None, d_current_attempt_kind := None, d_current_target_turn_id := None,
       d_current_expected_native_turn_id := None, d_current_receipt_outcome := None,
       d_current_receipt_json := JDoc (JObj fmempty), d_current_attempt_opened_at := opened_at\<rparr>"

definition clear_membership :: "delivery \<Rightarrow> delivery" where
  "clear_membership r = r\<lparr>d_turn_id := None, d_turn_role := None, d_turn_position := None\<rparr>"

definition claim_values :: "string \<Rightarrow> int \<Rightarrow> string option \<Rightarrow> delivery \<Rightarrow> delivery" where
  "claim_values turn_id position opened_at r =
     (reset_attempt opened_at r)\<lparr>d_state := Claimed, d_turn_id := Some turn_id,
        d_turn_role := Some ''initial'', d_turn_position := Some position\<rparr>"

definition open_start_attempt :: "env \<Rightarrow> string \<Rightarrow> int \<Rightarrow> string \<Rightarrow> string \<Rightarrow> db \<Rightarrow> (delivery option \<times> db) result" where
  "open_start_attempt env delivery_id expected_version turn_id attempt_id d =
     (case (get_turn d turn_id, get_delivery d delivery_id) of
        (Some turn, Some delivery) \<Rightarrow>
          if t_state turn \<noteq> Starting then Inr (None, d)
          else if t_initial_delivery_id turn \<noteq> delivery_id then Inr (None, d)
          else
           let text = opt_str (d_dispatch_text delivery) in
           bind_result (cas_turn env turn_id (t_version turn) [Starting]
               \<lparr>tv_state = None, tv_started_at = None,
                tv_rest = (\<lambda>t. t\<lparr>t_start_attempt_id := Some attempt_id, t_dispatch_text := Some text,
                                t_dispatch_sha256 := Some (Sha256 (JStr text))\<rparr>)\<rparr> d)
             (\<lambda>(updated_turn, d1).
               if updated_turn = None then Inr (None, d1)
               else cas_delivery env delivery_id expected_version [Reserved, Queued, InterruptWaiting]
                 (claim_values turn_id 0 (Some (utc_now_iso env)))
                 (Some (jdict [(''kind'', JStr ''start''), (''attempt_id'', JStr attempt_id),
                              (''turn_id'', JStr turn_id), (''outcome'', JStr ''opened'')])) d1)
      | _ \<Rightarrow> Inr (None, d))"

text \<open>
  The loops of the batch operations: each item is written by a compare-and-set, and a lost
  one raises. The accumulator is the list of saved rows with the database.
\<close>

definition batch_step :: "string \<Rightarrow> ('a \<Rightarrow> db \<Rightarrow> (delivery option \<times> db) result)
    \<Rightarrow> 'a \<Rightarrow> delivery list \<times> db \<Rightarrow> (delivery list \<times> db) result" where
  "batch_step lost f x acc =
     bind_result (f x (snd acc)) (\<lambda>(saved, d').
       case saved of
         None \<Rightarrow> Inl (RuntimeError lost)
       | Some row \<Rightarrow> Inr (fst acc @ [row], d'))"

definition batch :: "string \<Rightarrow> ('a \<Rightarrow> db \<Rightarrow> (delivery option \<times> db) result) \<Rightarrow> 'a list \<Rightarrow> db
    \<Rightarrow> (delivery list \<times> db) result" where
  "batch lost f xs d = fold_result (batch_step lost f) xs ([], d)"

definition claim_one :: "env \<Rightarrow> string \<Rightarrow> string \<Rightarrow> nat \<times> delivery \<Rightarrow> db \<Rightarrow> (delivery option \<times> db) result" where
  "claim_one env turn_id attempt_id = (\<lambda>(position, delivery).
     cas_delivery env (d_id delivery) (d_version delivery) [Reserved, Queued, InterruptWaiting]
       (claim_values turn_id (int position) None)
       (Some (jdict [(''kind'', JStr ''start''), (''attempt_id'', JStr attempt_id), (''turn_id'', JStr turn_id),
                    (''position'', JInt (int position)), (''outcome'', JStr ''claimed'')])))"

definition claim_start_batch :: "env \<Rightarrow> string \<Rightarrow> string \<Rightarrow> string \<Rightarrow> delivery list \<Rightarrow> string \<Rightarrow> string option
    \<Rightarrow> db \<Rightarrow> ((turn \<times> delivery list) \<times> db) result" where
  "claim_start_batch env turn_id session_id backend rows dispatch_text attempt_id d =
     (case rows of
        [] \<Rightarrow> Inl (ValueError ''a Turn requires at least one Delivery'')
      | first # _ \<Rightarrow>
         let resolved_attempt_id = (if opt_str attempt_id \<noteq> [] then opt_str attempt_id else new_attempt_id env)
         in bind_result (insert_turn env turn_id session_id (d_id first) Starting backend
                (Some resolved_attempt_id) (Some dispatch_text) None d) (\<lambda>(turn, d1).
            bind_result (batch ''Delivery batch claim lost after writer reservation''
                (claim_one env turn_id resolved_attempt_id) (enumerate 0 rows) d1) (\<lambda>(claimed, d2).
            Inr ((turn, claimed), d2))))"

definition activate_waiting_successor :: "env \<Rightarrow> turn \<Rightarrow> delivery \<Rightarrow> db \<Rightarrow> (turn option \<times> db) result" where
  "activate_waiting_successor env turn delivery d =
     (if t_state turn \<noteq> Waiting \<or> d_state delivery \<noteq> InterruptWaiting \<or> d_turn_id delivery \<noteq> Some (t_id turn)
      then Inr (None, d)
      else
       let attempt_id = new_attempt_id env; text = opt_str (d_dispatch_text delivery) in
       bind_result (cas_turn env (t_id turn) (t_version turn) [Waiting]
           \<lparr>tv_state = Some Starting, tv_started_at = None,
            tv_rest = (\<lambda>t. t\<lparr>t_start_attempt_id := Some attempt_id, t_start_receipt_outcome := None,
                            t_start_receipt_json := JDoc (JObj fmempty), t_dispatch_text := Some text,
                            t_dispatch_sha256 := Some (Sha256 (JStr text))\<rparr>)\<rparr> d) (\<lambda>(started, d1).
         if started = None then Inr (None, d1)
         else bind_result (cas_delivery env (d_id delivery) (d_version delivery) [InterruptWaiting]
                (\<lambda>r. r\<lparr>d_state := Claimed\<rparr>)
                (Some (jdict [(''kind'', JStr ''start''), (''attempt_id'', JStr attempt_id),
                             (''turn_id'', JStr (t_id turn)), (''position'', JInt 0),
                             (''outcome'', JStr ''claimed_after_interrupt'')])) d1) (\<lambda>(claimed, d2).
              if claimed = None then Inl (RuntimeError ''waiting successor Delivery claim lost'')
              else Inr (started, d2))))"

definition open_steer_attempt :: "env \<Rightarrow> string \<Rightarrow> int \<Rightarrow> string \<Rightarrow> string \<Rightarrow> string \<Rightarrow> db
    \<Rightarrow> (delivery option \<times> db) result" where
  "open_steer_attempt env delivery_id expected_version turn_id attempt_id expected_native_turn_id d =
     (if (case get_delivery d delivery_id of
            None \<Rightarrow> False
          | Some current \<Rightarrow> d_state current = PendingSteer \<and> d_current_attempt_id current \<noteq> Some attempt_id)
      then Inr (None, d)
      else cas_delivery env delivery_id expected_version [Reserved, Queued, PendingSteer]
        (\<lambda>r. r\<lparr>d_state := Steering, d_current_attempt_id := Some attempt_id,
               d_current_attempt_kind := Some ''steer'', d_current_target_turn_id := Some turn_id,
               d_current_expected_native_turn_id := Some expected_native_turn_id,
               d_current_receipt_outcome := None, d_current_receipt_json := JDoc (JObj fmempty),
               d_current_attempt_opened_at := Some (utc_now_iso env)\<rparr>)
        (Some (jdict [(''kind'', JStr ''steer''), (''attempt_id'', JStr attempt_id), (''turn_id'', JStr turn_id),
                     (''expected_native_turn_id'', JStr expected_native_turn_id),
                     (''outcome'', JStr ''opened'')])) d)"

definition open_steer_attempt_batch :: "env \<Rightarrow> delivery list \<Rightarrow> string \<Rightarrow> string \<Rightarrow> string \<Rightarrow> db
    \<Rightarrow> (delivery list \<times> db) result" where
  "open_steer_attempt_batch env rows turn_id attempt_id expected_native_turn_id d =
     batch ''Delivery steer batch claim lost after writer reservation''
       (\<lambda>delivery. open_steer_attempt env (d_id delivery) (d_version delivery) turn_id attempt_id
                     expected_native_turn_id) rows d"

definition open_pending_steer_batch :: "env \<Rightarrow> delivery list \<Rightarrow> string \<Rightarrow> string \<Rightarrow> db
    \<Rightarrow> (delivery list \<times> db) result" where
  "open_pending_steer_batch env rows turn_id attempt_id d =
     batch ''Delivery pending-steer batch claim lost''
       (\<lambda>delivery. cas_delivery env (d_id delivery) (d_version delivery) [Reserved, Queued]
          (\<lambda>r. r\<lparr>d_state := PendingSteer, d_current_attempt_id := Some attempt_id,
                 d_current_attempt_kind := Some ''steer'', d_current_target_turn_id := Some turn_id,
                 d_current_expected_native_turn_id := None, d_current_receipt_outcome := None,
                 d_current_receipt_json := JDoc (JObj fmempty),
                 d_current_attempt_opened_at := Some (utc_now_iso env)\<rparr>)
          (Some (jdict [(''kind'', JStr ''steer''), (''attempt_id'', JStr attempt_id), (''turn_id'', JStr turn_id),
                       (''outcome'', JStr ''pending_native_identity'')]))) rows d"

section \<open>Turn generations\<close>

text \<open>The receipt of a native start, and what a rerun after restarts carries over.\<close>

definition RESTART_STREAK_KEYS :: "string list" where
  "RESTART_STREAK_KEYS = [''restart_streak'', ''restart_response_seq'', ''restart_process'']"

definition start_receipt :: "turn \<Rightarrow> jobj" where
  "start_receipt turn = json_object (t_start_receipt_json turn)"

definition restart_receipt :: "turn \<Rightarrow> jobj" where
  "restart_receipt turn = fmfilter (\<lambda>k. k \<in> set RESTART_STREAK_KEYS) (start_receipt turn)"

definition recorded_execution :: "turn \<Rightarrow> jobj" where
  "recorded_execution turn = as_dict (jget (start_receipt turn) ''vibey_execution'')"

definition carried_receipt :: "turn \<Rightarrow> jobj" where
  "carried_receipt turn =
     fmfilter (\<lambda>k. k \<in> set (RESTART_STREAK_KEYS @ [''vibey_execution''])) (start_receipt turn)"

definition or_opt :: "string option \<Rightarrow> string option \<Rightarrow> string option" where
  "or_opt x y = (if opt_str x \<noteq> [] then x else y)"

definition binding_conflict :: "string option \<Rightarrow> string option \<Rightarrow> bool" where
  "binding_conflict column observed \<longleftrightarrow>
     (let persisted = py_strip (opt_str column); candidate = py_strip (opt_str observed)
      in persisted \<noteq> [] \<and> candidate \<noteq> [] \<and> persisted \<noteq> candidate)"

definition bind_native_start :: "env \<Rightarrow> string \<Rightarrow> int \<Rightarrow> string option \<Rightarrow> string option \<Rightarrow> string option
    \<Rightarrow> jobj option \<Rightarrow> db \<Rightarrow> (turn option \<times> db) result" where
  "bind_native_start env turn_id expected_version runtime_key runtime_turn_id native_turn_id execution d =
     (case get_turn d turn_id of
        None \<Rightarrow> Inr (None, d)
      | Some turn \<Rightarrow>
         if binding_conflict (t_runtime_key turn) runtime_key
            \<or> binding_conflict (t_runtime_turn_id turn) runtime_turn_id
            \<or> binding_conflict (t_native_turn_id turn) native_turn_id
         then Inr (None, d)
         else
          let receipt = jdict [(''kind'', JStr ''native_start'')] ++\<^sub>f carried_receipt turn;
              receipt = (case execution of
                           None \<Rightarrow> receipt
                         | Some e \<Rightarrow> if e = fmempty then receipt else fmupd ''vibey_execution'' (JObj e) receipt)
          in cas_turn env turn_id expected_version [Starting, Active]
               \<lparr>tv_state = Some Active,
                tv_started_at = Some (if opt_str (t_started_at turn) \<noteq> [] then t_started_at turn
                                      else Some (turn_now_iso env)),
                tv_rest = (\<lambda>t. t\<lparr>t_runtime_key := or_opt runtime_key (t_runtime_key turn),
                   t_runtime_turn_id := or_opt runtime_turn_id (t_runtime_turn_id turn),
                   t_native_turn_id := or_opt native_turn_id (t_native_turn_id turn),
                   t_start_receipt_outcome := Some ''accepted'',
                   t_start_receipt_json := canonical_json (JObj receipt)\<rparr>)\<rparr> d)"

definition rotate_restart_generation :: "env \<Rightarrow> string \<Rightarrow> int \<Rightarrow> int \<Rightarrow> int option \<Rightarrow> string option
    \<Rightarrow> db \<Rightarrow> (turn option \<times> db) result" where
  "rotate_restart_generation env turn_id expected_version streak response_seq process d =
     (case get_turn d turn_id of
        None \<Rightarrow> Inr (None, d)
      | Some turn \<Rightarrow>
         if t_state turn \<noteq> Active \<or> t_start_receipt_outcome turn \<noteq> Some ''accepted''
            \<or> t_version turn \<noteq> expected_version
         then Inr (None, d)
         else
          let receipt = fmupd ''restart_process'' (jopt process)
                (fmupd ''restart_response_seq'' (jint_opt response_seq)
                  (fmupd ''restart_streak'' (JInt streak) (start_receipt turn)))
          in cas_turn env turn_id expected_version [Active]
               \<lparr>tv_state = None, tv_started_at = None,
                tv_rest = (\<lambda>t. t\<lparr>t_runtime_key := None, t_runtime_turn_id := None, t_native_turn_id := None,
                                t_start_receipt_json := canonical_json (JObj receipt)\<rparr>)\<rparr> d)"

definition rebind_delivery :: "env \<Rightarrow> string \<Rightarrow> string \<Rightarrow> string \<Rightarrow> delivery \<Rightarrow> db \<Rightarrow> (delivery option \<times> db) result" where
  "rebind_delivery env turn_id expected_native_turn_id restored_native_turn_id attempt =
     cas_delivery env (d_id attempt) (d_version attempt) [d_state attempt]
       (\<lambda>r. r\<lparr>d_current_expected_native_turn_id := Some restored_native_turn_id\<rparr>)
       (Some (jdict [(''kind'', JStr ''native_generation_rebind''),
                    (''attempt_id'', jopt (d_current_attempt_id attempt)), (''turn_id'', JStr turn_id),
                    (''previous_native_turn_id'', JStr expected_native_turn_id),
                    (''restored_native_turn_id'', JStr restored_native_turn_id)]))"

definition rebind_values :: "turn \<Rightarrow> string \<Rightarrow> string \<Rightarrow> turn_values" where
  "rebind_values turn expected_native_turn_id restored_native_turn_id =
     (let moves_control = (t_control_state turn \<in>
             {Some ''pending'', Some ''interrupting'', Some ''waiting_terminal'', Some ''reconciling''}
           \<and> opt_str (t_control_expected_native_turn_id turn) = expected_native_turn_id)
      in \<lparr>tv_state = None, tv_started_at = None,
          tv_rest = (\<lambda>t. t\<lparr>t_native_turn_id := Some restored_native_turn_id,
             t_control_expected_native_turn_id :=
               (if moves_control then Some restored_native_turn_id
                else t_control_expected_native_turn_id t)\<rparr>)\<rparr>)"

definition rebind_attempts :: "db \<Rightarrow> string \<Rightarrow> string \<Rightarrow> delivery list" where
  "rebind_attempts d turn_id expected_native_turn_id =
     filter (\<lambda>r. d_current_target_turn_id r = Some turn_id \<and> d_state r \<in> {Steering, ReconcilingSteer}
       \<and> d_current_expected_native_turn_id r = Some expected_native_turn_id) (deliveries d)"

definition rebind_restored_native_generation :: "env \<Rightarrow> string \<Rightarrow> int \<Rightarrow> string \<Rightarrow> string \<Rightarrow> db
    \<Rightarrow> (turn option \<times> db) result" where
  "rebind_restored_native_generation env turn_id expected_version expected_native_turn_id restored_native_turn_id d =
     (case get_turn d turn_id of
        None \<Rightarrow> Inr (None, d)
      | Some turn \<Rightarrow>
         if t_state turn \<noteq> Active \<or> t_start_receipt_outcome turn \<noteq> Some ''accepted''
            \<or> t_version turn \<noteq> expected_version
            \<or> opt_str (t_native_turn_id turn) \<noteq> expected_native_turn_id
            \<or> restored_native_turn_id = [] \<or> restored_native_turn_id = expected_native_turn_id
         then Inr (None, d)
         else bind_result (cas_turn env turn_id expected_version [Active]
                (rebind_values turn expected_native_turn_id restored_native_turn_id) d) (\<lambda>(rebound, d1).
              if rebound = None then Inr (None, d1)
              else bind_result (batch ''restored native generation lost a Delivery attempt CAS''
                     (rebind_delivery env turn_id expected_native_turn_id restored_native_turn_id)
                     (rebind_attempts d1 turn_id expected_native_turn_id) d1)
                   (\<lambda>(_, d2). Inr (rebound, d2))))"

definition mark_start_unknown :: "env \<Rightarrow> string \<Rightarrow> int \<Rightarrow> jobj \<Rightarrow> db \<Rightarrow> (turn option \<times> db) result" where
  "mark_start_unknown env turn_id expected_version receipt d =
     cas_turn env turn_id expected_version [Starting]
       \<lparr>tv_state = None, tv_started_at = None,
        tv_rest = (\<lambda>t. t\<lparr>t_start_receipt_outcome := Some ''unknown'',
                        t_start_receipt_json := canonical_json (JObj receipt)\<rparr>)\<rparr> d"

definition records_not_written :: "turn \<Rightarrow> string \<Rightarrow> bool" where
  "records_not_written turn outcome \<longleftrightarrow> outcome = ''not_written'' \<and> opt_str (t_start_attempt_id turn) \<noteq> []"

definition terminal_values :: "env \<Rightarrow> turn \<Rightarrow> string \<Rightarrow> string option \<Rightarrow> string \<Rightarrow> jobj \<Rightarrow> turn_values" where
  "terminal_values env turn outcome settled_by evidence_kind evidence =
     \<lparr>tv_state = Some Terminal, tv_started_at = None,
      tv_rest = (\<lambda>t. (if records_not_written turn outcome
         then t\<lparr>t_start_receipt_outcome := Some ''not_written'',
                t_start_receipt_json :=
                  canonical_json (JObj (jdict [(''kind'', JStr evidence_kind)] ++\<^sub>f evidence))\<rparr>
         else t)
          \<lparr>t_terminal_outcome := Some outcome, t_settled_by := settled_by,
           t_terminal_evidence_kind := Some evidence_kind,
           t_terminal_evidence_json := canonical_json (JObj evidence),
           t_terminal_at := Some (turn_now_iso env)\<rparr>)\<rparr>"

definition terminalize_turn :: "env \<Rightarrow> string \<Rightarrow> string \<Rightarrow> string option \<Rightarrow> string \<Rightarrow> jobj option \<Rightarrow> db
    \<Rightarrow> ((bool \<times> turn option) \<times> db) result" where
  "terminalize_turn env turn_id outcome settled_by evidence_kind evidence d =
     (case get_turn d turn_id of
        None \<Rightarrow> Inr ((False, None), d)
      | Some turn \<Rightarrow>
         if t_state turn = Terminal then Inr ((False, Some turn), d)
         else if records_not_written turn outcome \<and> t_start_receipt_outcome turn = Some ''accepted''
         then Inr ((False, Some turn), d)
         else bind_result (cas_turn env turn_id (t_version turn) [t_state turn]
                (terminal_values env turn outcome settled_by evidence_kind
                   (case evidence of None \<Rightarrow> fmempty | Some e \<Rightarrow> e)) d) (\<lambda>(settled, d').
              Inr ((settled \<noteq> None, case settled of None \<Rightarrow> Some turn | Some t \<Rightarrow> Some t), d')))"

section \<open>Acceptance\<close>

definition canonical_message_timestamp :: "env \<Rightarrow> json \<Rightarrow> string option" where
  "canonical_message_timestamp env value =
     (let text = py_strip (str_or_empty value) in if text = [] then None else Some (iso_timestamp env text))"

definition MESSAGE_REQUIRED :: "string list" where
  "MESSAGE_REQUIRED = [''session_id'', ''platform'', ''author'', ''type'', ''content_json'', ''metadata_json'']"

definition message_columns :: "string \<Rightarrow> jobj \<Rightarrow> string \<Rightarrow> jobj" where
  "message_columns message_id snapshot created_at = jdict
     [(''id'', JStr message_id),
      (''scope_id'', jget snapshot ''scope_id''),
      (''session_id'', jget snapshot ''session_id''),
      (''platform'', jget snapshot ''platform''),
      (''author'', jget snapshot ''author''),
      (''type'', jget snapshot ''type''),
      (''author_id'', jget snapshot ''author_id''),
      (''author_name'', jget snapshot ''author_name''),
      (''source'', jget snapshot ''source''),
      (''native_message_id'', jget snapshot ''native_message_id''),
      (''parent_native_message_id'', jget snapshot ''parent_native_message_id''),
      (''content_text'', jget snapshot ''content_text''),
      (''content_json'', jget snapshot ''content_json''),
      (''metadata_json'', jget snapshot ''metadata_json''),
      (''created_at'', JStr created_at),
      (''read_at'', jget snapshot ''read_at'')]"

definition insert_message :: "env \<Rightarrow> string \<Rightarrow> jobj \<Rightarrow> string \<Rightarrow> db \<Rightarrow> db result" where
  "insert_message env message_id snapshot accepted_at d =
     (case (canonical_message_timestamp env (JStr accepted_at),
            canonical_message_timestamp env (or_else (jget snapshot ''created_at'') (JStr accepted_at))) of
        (Some accepted, Some created) \<Rightarrow>
          (case find (\<lambda>k. fmlookup snapshot k = None) MESSAGE_REQUIRED of
             Some k \<Rightarrow> Inl (KeyError k)
           | None \<Rightarrow>
              let columns = message_columns message_id snapshot created in
              (case get_message d message_id of
                 None \<Rightarrow> insert_messages
                   \<lparr>m_id = message_id, m_columns = columns, m_updated_at = accepted, m_delivered_at = accepted\<rparr> d
               | Some existing \<Rightarrow>
                   if m_columns existing \<noteq> columns
                   then Inl (RuntimeError ''Delivery Message identity collided with different content'')
                   else Inr d))
      | _ \<Rightarrow> Inl AssertionError)"

definition link_show_event :: "string \<Rightarrow> string \<Rightarrow> db \<Rightarrow> db" where
  "link_show_event delivery_id message_id d =
     d\<lparr>show_events := update_where (\<lambda>e. s_delivery_id e = delivery_id \<and> s_message_id e = None)
          (\<lambda>e. e\<lparr>s_message_id := Some message_id\<rparr>) (show_events d)\<rparr>"

definition accept_values :: "string \<Rightarrow> string \<Rightarrow> delivery \<Rightarrow> delivery" where
  "accept_values message_id now r =
     (reset_attempt None r)\<lparr>d_state := Accepted, d_message_id := Some message_id, d_snapshot_json := JNull,
        d_dispatch_text := None, d_materialized_at := Some now\<rparr>"

definition join_turn :: "string \<Rightarrow> string \<Rightarrow> int \<Rightarrow> delivery \<Rightarrow> delivery" where
  "join_turn turn_id role position r =
     r\<lparr>d_turn_id := Some turn_id, d_turn_role := Some role, d_turn_position := Some position\<rparr>"

text \<open>Save one accepted row, then link the show event that waits for it.\<close>

definition accept_row :: "env \<Rightarrow> string \<Rightarrow> delivery \<Rightarrow> delivery_state list \<Rightarrow> (delivery \<Rightarrow> delivery) \<Rightarrow> jobj \<Rightarrow> db
    \<Rightarrow> (delivery option \<times> db) result" where
  "accept_row env message_id row states f event d =
     bind_result (cas_delivery env (d_id row) (d_version row) states f (Some event) d) (\<lambda>(saved, d').
       Inr (saved, if saved = None then d' else link_show_event (d_id row) message_id d'))"

definition claimed_workbench_message_payload :: "db \<Rightarrow> string \<Rightarrow> jobj option result" where
  "claimed_workbench_message_payload d turn_id =
     (let rows = initial_deliveries_for_turn d turn_id in
      if rows = [] \<or> list_ex (\<lambda>r. d_state r \<noteq> Claimed) rows then Inr None
      else bind_result (merged_initial_snapshot rows) (\<lambda>snapshot.
        if jget snapshot ''platform'' = JStr ''avibe'' \<and> jget snapshot ''author'' = JStr ''user''
           \<and> jget snapshot ''type'' = JStr ''user'' \<and> jget snapshot ''source'' = JStr ''user''
        then bind_result (delivery_payload_from_snapshot (hd rows) snapshot) (\<lambda>p. Inr (Some p))
        else Inr None))"

definition accept_initial :: "env \<Rightarrow> turn \<Rightarrow> string \<Rightarrow> jobj \<Rightarrow> string \<Rightarrow> delivery \<Rightarrow> db
    \<Rightarrow> (delivery option \<times> db) result" where
  "accept_initial env turn turn_id evidence accepted_at row =
     accept_row env (t_initial_delivery_id turn) row [Claimed]
       (accept_values (t_initial_delivery_id turn) accepted_at)
       (jdict [(''kind'', JStr ''start''), (''attempt_id'', jopt (t_start_attempt_id turn)),
               (''turn_id'', JStr turn_id), (''outcome'', JStr ''accepted''), (''evidence'', JObj evidence)])"

definition materialize_start_acceptance :: "env \<Rightarrow> string \<Rightarrow> jobj \<Rightarrow> db \<Rightarrow> (delivery list \<times> db) result" where
  "materialize_start_acceptance env turn_id evidence d =
     (case get_turn d turn_id of
        None \<Rightarrow> Inr ([], d)
      | Some turn \<Rightarrow>
         if t_state turn \<notin> {Starting, Active, Terminal} then Inr ([], d)
         else if t_start_receipt_outcome turn \<noteq> Some ''accepted'' then Inr ([], d)
         else
          let rows = initial_deliveries_for_turn d turn_id in
          if rows = [] then Inl (RuntimeError ''active Turn has no initial Delivery batch'')
          else if list_all (\<lambda>r. d_state r = Accepted) rows then Inr (rows, d)
          else if list_ex (\<lambda>r. d_state r \<noteq> Claimed) rows
          then Inl (RuntimeError ''initial Delivery batch is only partially materialized'')
          else
           let message_id = t_initial_delivery_id turn; accepted_at = turn_now_iso env in
           bind_result (merged_initial_snapshot rows) (\<lambda>snapshot.
           bind_result (insert_message env message_id snapshot accepted_at d) (\<lambda>d1.
             batch ''initial Delivery materialization CAS lost''
               (accept_initial env turn turn_id evidence accepted_at) rows d1)))"

definition next_turn_position :: "db \<Rightarrow> string \<Rightarrow> int" where
  "next_turn_position d turn_id =
     (case [p. r \<leftarrow> deliveries d, d_turn_id r = Some turn_id, p \<leftarrow> (case d_turn_position r of None \<Rightarrow> [] | Some q \<Rightarrow> [q])] of
        [] \<Rightarrow> -1
      | p # ps \<Rightarrow> fold max ps p) + 1"

definition acceptance_event :: "delivery \<Rightarrow> string \<Rightarrow> jobj \<Rightarrow> jobj" where
  "acceptance_event delivery turn_id evidence = jdict
     [(''kind'', JStr (if opt_str (d_current_attempt_kind delivery) \<noteq> []
                       then opt_str (d_current_attempt_kind delivery)
                       else if truthy (jget evidence ''kind'') then py_str (jget evidence ''kind'')
                       else ''start'')),
      (''attempt_id'', jopt (d_current_attempt_id delivery)), (''turn_id'', JStr turn_id),
      (''outcome'', JStr ''accepted''), (''evidence'', JObj evidence)]"

definition materialize_acceptance :: "env \<Rightarrow> string \<Rightarrow> string option \<Rightarrow> string \<Rightarrow> jobj \<Rightarrow> db
    \<Rightarrow> (delivery option \<times> db) result" where
  "materialize_acceptance env delivery_id expected_attempt_id turn_id evidence d =
     (case get_delivery d delivery_id of
        None \<Rightarrow> Inr (None, d)
      | Some delivery \<Rightarrow>
         if d_state delivery = Accepted then
           (if d_message_id delivery = Some delivery_id \<and> d_turn_id delivery = Some turn_id
            then (if get_message d delivery_id = None
                  then Inl (RuntimeError ''accepted Delivery is missing its Message'')
                  else Inr (Some delivery, d))
            else Inr (None, d))
         else if expected_attempt_id \<noteq> None \<and> d_current_attempt_id delivery \<noteq> expected_attempt_id
         then Inr (None, d)
         else if opt_str (d_current_target_turn_id delivery) \<noteq> turn_id then Inr (None, d)
         else case get_turn d turn_id of
           None \<Rightarrow> Inr (None, d)
         | Some target_turn \<Rightarrow>
            if t_session_id target_turn \<noteq> d_session_id delivery then Inr (None, d)
            else bind_result (verified_snapshot delivery) (\<lambda>snapshot.
              let now = turn_now_iso env; position = next_turn_position d turn_id in
              bind_result (cas_delivery env delivery_id (d_version delivery) [d_state delivery]
                  (\<lambda>r. join_turn turn_id ''steer'' position (accept_values delivery_id now r))
                  (Some (acceptance_event delivery turn_id evidence)) d) (\<lambda>(accepted, d1).
                if accepted = None then Inr (None, d1)
                else bind_result (insert_message env delivery_id snapshot now d1) (\<lambda>d2.
                  Inr (accepted, link_show_event delivery_id delivery_id d2)))))"

definition accept_steered :: "env \<Rightarrow> string \<Rightarrow> string \<Rightarrow> string \<Rightarrow> jobj \<Rightarrow> string \<Rightarrow> int \<Rightarrow> nat \<times> delivery \<Rightarrow> db
    \<Rightarrow> (delivery option \<times> db) result" where
  "accept_steered env message_id attempt_id turn_id evidence now first_position = (\<lambda>(offset, row).
     accept_row env message_id row [d_state row]
       (\<lambda>r. join_turn turn_id ''steer'' (first_position + int offset) (accept_values message_id now r))
       (jdict [(''kind'', JStr ''steer''), (''attempt_id'', JStr attempt_id), (''turn_id'', JStr turn_id),
               (''outcome'', JStr ''accepted''), (''evidence'', JObj evidence)]))"

definition materialize_steer_acceptance :: "env \<Rightarrow> string \<Rightarrow> string \<Rightarrow> string \<Rightarrow> jobj \<Rightarrow> db
    \<Rightarrow> (delivery list \<times> db) result" where
  "materialize_steer_acceptance env leader_delivery_id expected_attempt_id turn_id evidence d =
     (case get_delivery d leader_delivery_id of
        None \<Rightarrow> Inr ([], d)
      | Some leader \<Rightarrow>
         if d_current_attempt_id leader \<noteq> Some expected_attempt_id then Inr ([], d)
         else
          let rows = attempt_deliveries d expected_attempt_id in
          if rows = [] \<or> list_ex (\<lambda>r. d_state r \<notin> {Steering, ReconcilingSteer}
                                      \<or> d_current_target_turn_id r \<noteq> Some turn_id) rows
          then Inr ([], d)
          else case get_turn d turn_id of
            None \<Rightarrow> Inr ([], d)
          | Some target_turn \<Rightarrow>
             if list_ex (\<lambda>r. d_session_id r \<noteq> t_session_id target_turn) rows then Inr ([], d)
             else
              let now = turn_now_iso env; message_id = d_id (hd rows);
                  first_position = next_turn_position d turn_id in
              bind_result (merged_initial_snapshot rows) (\<lambda>snapshot.
              bind_result (insert_message env message_id snapshot now d) (\<lambda>d1.
                batch ''steer Delivery batch materialization CAS lost''
                  (accept_steered env message_id expected_attempt_id turn_id evidence now first_position)
                  (enumerate 0 rows) d1)))"

section \<open>Receipts\<close>

definition receipt_states :: "delivery \<Rightarrow> string \<Rightarrow> delivery_state list" where
  "receipt_states delivery outcome =
     (if outcome = ''accepted'' \<and> d_current_receipt_outcome delivery = Some ''unknown''
      then [Steering, ReconcilingSteer] else [Steering])"

definition receipt_values :: "string \<Rightarrow> jobj \<Rightarrow> delivery \<Rightarrow> delivery" where
  "receipt_values outcome receipt r =
     r\<lparr>d_state := ReconcilingSteer, d_current_receipt_outcome := Some outcome,
       d_current_receipt_json := canonical_json (JObj receipt)\<rparr>"

definition mark_attempt_receipt :: "env \<Rightarrow> string \<Rightarrow> int \<Rightarrow> string \<Rightarrow> jobj \<Rightarrow> db \<Rightarrow> (delivery option \<times> db) result" where
  "mark_attempt_receipt env delivery_id expected_version outcome receipt d =
     (if outcome \<notin> {''accepted'', ''unknown''}
      then Inl (ValueError (''unsupported steer receipt outcome: '' @ outcome))
      else case get_delivery d delivery_id of
        None \<Rightarrow> Inr (None, d)
      | Some delivery \<Rightarrow>
         if opt_str (d_current_attempt_kind delivery) \<noteq> ''steer'' then Inr (None, d)
         else cas_delivery env delivery_id expected_version
           (receipt_states delivery outcome) (receipt_values outcome receipt)
           (Some (jdict [(''kind'', JStr (opt_str (d_current_attempt_kind delivery))),
                        (''attempt_id'', jopt (d_current_attempt_id delivery)),
                        (''turn_id'', jopt (d_current_target_turn_id delivery)),
                        (''outcome'', JStr outcome), (''receipt'', JObj receipt)])) d)"

definition mark_attempt_unknown :: "env \<Rightarrow> string \<Rightarrow> int \<Rightarrow> jobj \<Rightarrow> db \<Rightarrow> (delivery option \<times> db) result" where
  "mark_attempt_unknown env delivery_id expected_version receipt d =
     mark_attempt_receipt env delivery_id expected_version ''unknown'' receipt d"

definition mark_one_receipt :: "env \<Rightarrow> string \<Rightarrow> jobj \<Rightarrow> delivery \<Rightarrow> db \<Rightarrow> (delivery option \<times> db) result" where
  "mark_one_receipt env outcome receipt row d =
     (if d_state row = ReconcilingSteer \<and> d_current_receipt_outcome row = Some outcome then Inr (Some row, d)
      else mark_attempt_receipt env (d_id row) (d_version row) outcome receipt d)"

definition mark_attempt_receipt_batch :: "env \<Rightarrow> string \<Rightarrow> string \<Rightarrow> jobj \<Rightarrow> db \<Rightarrow> (delivery list \<times> db) result" where
  "mark_attempt_receipt_batch env leader_delivery_id outcome receipt d =
     (let attempt_id = (case get_delivery d leader_delivery_id of
                          None \<Rightarrow> [] | Some leader \<Rightarrow> opt_str (d_current_attempt_id leader))
      in if attempt_id = [] then Inr ([], d)
         else
          let rows = attempt_deliveries d attempt_id in
          if rows = [] \<or> list_ex (\<lambda>r. d_state r \<notin> {Steering, ReconcilingSteer}
               \<or> (d_state r = ReconcilingSteer \<and> d_current_receipt_outcome r \<noteq> Some outcome
                  \<and> \<not> (outcome = ''accepted'' \<and> d_current_receipt_outcome r = Some ''unknown''))) rows
          then Inr ([], d)
          else batch ''steer Delivery batch receipt persistence CAS lost'' (mark_one_receipt env outcome receipt) rows d)"

definition definitive_values :: "env \<Rightarrow> delivery_state \<Rightarrow> delivery_priority option \<Rightarrow> string option
    \<Rightarrow> delivery \<Rightarrow> delivery" where
  "definitive_values env next_state next_priority next_turn_id r =
     (let r1 = (reset_attempt None r)\<lparr>d_state := next_state, d_current_target_turn_id := next_turn_id\<rparr>;
          r2 = (case next_priority of None \<Rightarrow> r1 | Some p \<Rightarrow> r1\<lparr>d_priority := p\<rparr>);
          r3 = (if next_state \<in> {Queued, Reserved, Retired} then clear_membership r2 else r2)
      in if next_state = Retired then r3\<lparr>d_retired_at := Some (utc_now_iso env)\<rparr> else r3)"

definition record_definitive_attempt :: "env \<Rightarrow> string \<Rightarrow> int \<Rightarrow> delivery_state list \<Rightarrow> string \<Rightarrow> delivery_state
    \<Rightarrow> delivery_priority option \<Rightarrow> string option \<Rightarrow> jobj option \<Rightarrow> db \<Rightarrow> (delivery option \<times> db) result" where
  "record_definitive_attempt env delivery_id expected_version expected_states outcome next_state next_priority
     next_turn_id receipt d =
     (case get_delivery d delivery_id of
        None \<Rightarrow> Inr (None, d)
      | Some delivery \<Rightarrow>
         let history_kind =
               (if opt_str (d_current_attempt_kind delivery) \<noteq> [] then opt_str (d_current_attempt_kind delivery)
                else if d_state delivery = Claimed then ''start''
                else if d_state delivery = PendingSteer then ''steer''
                else ''interrupt_join'')
         in cas_delivery env delivery_id expected_version expected_states
              (definitive_values env next_state next_priority next_turn_id)
              (Some (jdict [(''kind'', JStr history_kind), (''attempt_id'', jopt (d_current_attempt_id delivery)),
                           (''turn_id'', jopt (d_current_target_turn_id delivery)), (''outcome'', JStr outcome),
                           (''receipt'', JObj (case receipt of None \<Rightarrow> fmempty | Some m \<Rightarrow> m))])) d)"

section \<open>Retirement\<close>

definition retire_event :: "string \<Rightarrow> jobj" where
  "retire_event reason = jdict [(''kind'', JStr ''retire''), (''reason'', JStr reason)]"

definition retire_values :: "env \<Rightarrow> delivery \<Rightarrow> delivery" where
  "retire_values env r = r\<lparr>d_state := Retired, d_retired_at := Some (utc_now_iso env)\<rparr>"

text \<open>Whether a compare-and-set saved its row.\<close>

definition saved :: "(delivery option \<times> db) result \<Rightarrow> (bool \<times> db) result" where
  "saved m = bind_result m (\<lambda>(r, d'). Inr (r \<noteq> None, d'))"

definition retire_queued :: "env \<Rightarrow> string \<Rightarrow> string \<Rightarrow> db \<Rightarrow> (bool \<times> db) result" where
  "retire_queued env session_id delivery_id d =
     (case get_delivery d delivery_id of
        None \<Rightarrow> Inr (False, d)
      | Some delivery \<Rightarrow>
         if d_session_id delivery \<noteq> session_id \<or> d_state delivery \<noteq> Queued then Inr (False, d)
         else saved (cas_delivery env delivery_id (d_version delivery) [Queued] (retire_values env)
                (Some (retire_event ''queue_remove'')) d))"

definition retire_queued_for_resubmission :: "env \<Rightarrow> string \<Rightarrow> string \<Rightarrow> string \<Rightarrow> db \<Rightarrow> (bool \<times> db) result" where
  "retire_queued_for_resubmission env session_id delivery_id expected_dedupe_key d =
     (case get_delivery d delivery_id of
        None \<Rightarrow> Inr (False, d)
      | Some delivery \<Rightarrow>
         if d_session_id delivery \<noteq> session_id \<or> d_state delivery \<noteq> Queued
            \<or> d_dedupe_key delivery \<noteq> Some expected_dedupe_key \<or> d_current_attempt_id delivery \<noteq> None
         then Inr (False, d)
         else saved (cas_delivery env delivery_id (d_version delivery) [Queued]
                (\<lambda>r. (retire_values env r)\<lparr>d_dedupe_key := None\<rparr>)
                (Some (fmupd ''released_dedupe_key'' (JStr expected_dedupe_key)
                        (retire_event ''agent_run_recovery_resubmit''))) d))"

definition retire_reserved :: "env \<Rightarrow> string \<Rightarrow> string \<Rightarrow> string \<Rightarrow> db \<Rightarrow> (bool \<times> db) result" where
  "retire_reserved env session_id delivery_id reason d =
     (case get_delivery d delivery_id of
        None \<Rightarrow> Inr (False, d)
      | Some delivery \<Rightarrow>
         if d_session_id delivery \<noteq> session_id \<or> d_state delivery \<noteq> Reserved
            \<or> opt_str (d_current_attempt_id delivery) \<noteq> []
         then Inr (False, d)
         else saved (cas_delivery env delivery_id (d_version delivery) [Reserved] (retire_values env)
                (Some (retire_event reason)) d))"

definition withdraw_values :: "env \<Rightarrow> delivery \<Rightarrow> delivery" where
  "withdraw_values env r = clear_membership (reset_attempt None (retire_values env r))"

definition retire_not_written :: "env \<Rightarrow> string \<Rightarrow> string \<Rightarrow> string \<Rightarrow> db \<Rightarrow> (bool \<times> db) result" where
  "retire_not_written env session_id delivery_id reason d =
     (case get_delivery d delivery_id of
        None \<Rightarrow> Inr (False, d)
      | Some delivery \<Rightarrow>
         if d_session_id delivery \<noteq> session_id then Inr (False, d)
         else bind_result (policy_for (state_name (d_state delivery))) (\<lambda>policy.
           if run_cancel policy \<noteq> CancelRetire then Inr (False, d)
           else saved (cas_delivery env delivery_id (d_version delivery) [d_state delivery]
                  (withdraw_values env) (Some (retire_event reason)) d)))"

definition cancel_control_values :: "turn \<Rightarrow> turn \<Rightarrow> turn" where
  "cancel_control_values predecessor t =
     (let t1 = t\<lparr>t_control_successor_delivery_id := None, t_control_successor_turn_id := None\<rparr> in
      if t_state predecessor = Terminal then t1\<lparr>t_control_mode := None\<rparr>
      else if t_control_state predecessor = Some ''pending''
      then t1\<lparr>t_control_state := None, t_control_mode := None, t_control_attempt_id := None,
              t_control_expected_native_turn_id := None, t_control_receipt_outcome := None,
              t_control_receipt_json := JDoc (JObj fmempty)\<rparr>
      else t1\<lparr>t_control_mode := Some ''stop_only''\<rparr>)"

definition replacement_predecessor :: "db \<Rightarrow> string \<Rightarrow> string \<Rightarrow> string \<Rightarrow> turn option" where
  "replacement_predecessor d session_id delivery_id successor_turn_id =
     one (rev (select_turns (\<lambda>t. t_session_id t = session_id
        \<and> t_control_successor_delivery_id t = Some delivery_id
        \<and> t_control_successor_turn_id t = Some successor_turn_id) d))"

definition unlink_predecessor :: "env \<Rightarrow> turn option \<Rightarrow> db \<Rightarrow> (bool \<times> db) result" where
  "unlink_predecessor env predecessor d =
     (case predecessor of
        None \<Rightarrow> Inr (True, d)
      | Some p \<Rightarrow>
         bind_result (cas_turn env (t_id p) (t_version p) [t_state p]
             \<lparr>tv_state = None, tv_started_at = None, tv_rest = cancel_control_values p\<rparr> d) (\<lambda>(unlinked, d').
           if unlinked = None
           then Inl (RuntimeError ''replacement Run cancellation lost predecessor unlink'')
           else Inr (True, d')))"

definition retire_replacement :: "env \<Rightarrow> string \<Rightarrow> string \<Rightarrow> db \<Rightarrow> (bool \<times> db) result" where
  "retire_replacement env session_id delivery_id d =
     (case get_delivery d delivery_id of
        None \<Rightarrow> Inr (False, d)
      | Some delivery \<Rightarrow>
         if d_session_id delivery \<noteq> session_id \<or> d_state delivery \<noteq> InterruptWaiting then Inr (False, d)
         else
          let successor_turn_id = opt_str (d_turn_id delivery) in
          case get_turn d successor_turn_id of
            None \<Rightarrow> Inr (False, d)
          | Some successor \<Rightarrow>
             if t_session_id successor \<noteq> session_id \<or> t_state successor \<noteq> Terminal
                \<or> t_initial_delivery_id successor \<noteq> delivery_id
                \<or> t_terminal_outcome successor \<noteq> Some ''not_written''
                \<or> t_settled_by successor \<noteq> Some ''agent_run_canceled''
                \<or> t_terminal_evidence_kind successor \<noteq> Some ''replacement_run_canceled''
             then Inr (False, d)
             else bind_result (cas_delivery env delivery_id (d_version delivery) [InterruptWaiting]
                    (\<lambda>r. clear_membership (retire_values env r))
                    (Some (retire_event ''replacement_agent_run_canceled'')) d) (\<lambda>(retired, d1).
                  if retired = None
                  then Inl (RuntimeError ''replacement Run cancellation lost its waiting successor'')
                  else unlink_predecessor env (replacement_predecessor d session_id delivery_id successor_turn_id) d1))"

definition retire_for_run_cancellation :: "env \<Rightarrow> string \<Rightarrow> string \<Rightarrow> db \<Rightarrow> (bool \<times> db) result" where
  "retire_for_run_cancellation env session_id delivery_id d =
     bind_result (retire_not_written env session_id delivery_id ''agent_run_canceled_before_native_write'' d)
       (\<lambda>(done, d'). if done then Inr (True, d') else retire_replacement env session_id delivery_id d')"

definition archive_step :: "env \<Rightarrow> delivery \<Rightarrow> string list \<times> db \<Rightarrow> (string list \<times> db) result" where
  "archive_step env row acc =
     bind_result (cas_delivery env (d_id row) (d_version row) [d_state row] (withdraw_values env)
         (Some (retire_event ''session_archive'')) (snd acc))
       (\<lambda>(r, d'). Inr (if r \<noteq> None then fst acc @ [d_id row] else fst acc, d'))"

text \<open>The identifiers of the retired Deliveries; the count that is returned with them is their number.\<close>

definition retire_for_archive :: "env \<Rightarrow> string \<Rightarrow> db \<Rightarrow> (string list \<times> db) result" where
  "retire_for_archive env session_id d =
     fold_result (archive_step env)
       (filter (\<lambda>r. d_session_id r = session_id \<and> d_state r \<in> set RUN_CANCEL_RETIRE_STATES) (deliveries d)) ([], d)"

section \<open>Cancellation and drafts\<close>

definition agent_run_input_reached_turn :: "db \<Rightarrow> string \<Rightarrow> string \<Rightarrow> bool \<times> string" where
  "agent_run_input_reached_turn d run turn_id0 =
     (let rid = py_strip run; turn_id = py_strip turn_id0 in
      if rid = [] \<or> turn_id = [] then (False, ''missing_run_turn_identity'')
      else case get_turn d turn_id of
        None \<Rightarrow> (False, ''turn_not_active'')
      | Some turn \<Rightarrow>
         if t_state turn \<notin> set TURN_OWNER_STATES then (False, ''turn_not_active'')
         else case one (concat (map (\<lambda>x. filter (\<lambda>r. run_delivery_id x = Some (d_id r)) (deliveries d))
                     (filter (\<lambda>x. run_id x = rid) (runs d)))) of
           None \<Rightarrow> (False, ''run_delivery_missing'')
         | Some row \<Rightarrow>
            if d_session_id row \<noteq> t_session_id turn then (False, ''run_session_mismatch'')
            else if \<not> ((opt_str (d_turn_id row) = turn_id \<and> d_state row \<in> {Claimed, Accepted})
                     \<or> (opt_str (d_current_target_turn_id row) = turn_id
                        \<and> d_state row \<in> {Steering, ReconcilingSteer}))
            then (False, ''run_not_owned_by_turn'')
            else if t_control_mode turn = Some ''replace'' \<and> t_control_state turn = Some ''waiting_terminal''
            then
             let successor_turn_id = opt_str (t_control_successor_turn_id turn);
                 successor_delivery_id = opt_str (t_control_successor_delivery_id turn)
             in (case (get_turn d successor_turn_id, get_delivery d successor_delivery_id) of
                   (Some successor, Some sd) \<Rightarrow>
                     if t_state successor = Waiting \<and> t_session_id successor = t_session_id turn
                        \<and> t_initial_delivery_id successor = successor_delivery_id
                        \<and> d_state sd = InterruptWaiting \<and> d_session_id sd = t_session_id turn
                        \<and> d_turn_id sd = Some successor_turn_id \<and> d_turn_role sd = Some ''initial''
                     then (False, ''turn_has_replacement_successor'')
                     else (False, ''turn_replacement_unresolved'')
                 | _ \<Rightarrow> (False, ''turn_replacement_unresolved''))
            else (True, ''run_input_in_turn''))"

definition set_draft :: "env \<Rightarrow> string \<Rightarrow> string option \<Rightarrow> db \<Rightarrow> bool \<times> db" where
  "set_draft env session_id text d =
     (let now = turn_now_iso env;
          draft = (if py_strip (opt_str text) \<noteq> [] then text else None)
      in (row_count (\<lambda>a. a_id a = session_id) (sessions d) = 1,
          d\<lparr>sessions := update_where (\<lambda>a. a_id a = session_id)
             (\<lambda>a. a\<lparr>a_composer_draft_text := draft, a_composer_draft_updated_at := Some now, a_updated_at := now\<rparr>)
             (sessions d)\<rparr>))"

definition get_draft_state :: "db \<Rightarrow> string \<Rightarrow> (string \<times> string option) option" where
  "get_draft_state d session_id =
     map_option (\<lambda>a. (opt_str (a_composer_draft_text a), a_composer_draft_updated_at a))
       (row_of a_id (sessions d) session_id)"

definition get_draft :: "db \<Rightarrow> string \<Rightarrow> (string \<times> string option) option" where
  "get_draft d session_id =
     (case get_draft_state d session_id of
        None \<Rightarrow> None
      | Some s \<Rightarrow> if fst s = [] then None else Some s)"

end
