(* ===== verification/DeliveryCas.thy ===== *)
theory DeliveryCas
  imports DeliveryOps
begin

text \<open>
  The compare-and-set writes as an interface. The locale \<open>versioned_table\<close> states what a
  writer may rely on (a write happens only at the version it names, it raises that row's
  version by one, and it touches no other row) and derives the optimistic concurrency facts
  from it; \<open>cas_delivery\<close> and \<open>cas_turn\<close> are its two instances.
\<close>

section \<open>The interface\<close>

locale versioned_table =
  fixes get :: "'d \<Rightarrow> 'k \<Rightarrow> 'r option"
    and version :: "'r \<Rightarrow> int"
    and invar :: "'d \<Rightarrow> bool"
    and writes :: "'w \<Rightarrow> bool"
    and cas :: "'k \<Rightarrow> int \<Rightarrow> 'w \<Rightarrow> 'd \<Rightarrow> ('r option \<times> 'd) result"
  assumes cas_saved: "invar d \<Longrightarrow> writes w \<Longrightarrow> cas k v w d = Inr (Some r, d') \<Longrightarrow>
      (\<exists>r0. get d k = Some r0 \<and> version r0 = v) \<and> get d' k = Some r \<and> version r = v + 1"
    and cas_frame: "invar d \<Longrightarrow> writes w \<Longrightarrow> cas k v w d = Inr (x, d') \<Longrightarrow> k' \<noteq> k \<Longrightarrow> get d' k' = get d k'"
    and cas_lost: "invar d \<Longrightarrow> writes w \<Longrightarrow> cas k v w d = Inr (None, d') \<Longrightarrow> d' = d"
    and cas_stale: "invar d \<Longrightarrow> writes w \<Longrightarrow> get d k = Some r0 \<Longrightarrow> version r0 \<noteq> v \<Longrightarrow> cas k v w d = Inr (None, d)"
    and cas_invar: "invar d \<Longrightarrow> writes w \<Longrightarrow> cas k v w d = Inr (x, d') \<Longrightarrow> invar d'"
begin

text \<open>Of two writers that read the same version, the second loses and changes nothing.\<close>

lemma second_writer_loses:
  assumes "invar d" "writes w" "writes w'" "cas k v w d = Inr (Some r, d')"
  shows "cas k v w' d' = Inr (None, d')"
proof -
  have "get d' k = Some r" and "version r = v + 1"
    using cas_saved [OF assms(1,2,4)] by auto
  then show ?thesis
    using cas_stale [OF cas_invar [OF assms(1,2,4)] assms(3)] by fastforce
qed

text \<open>A run of writes by any number of writers.\<close>

fun run :: "('k \<times> int \<times> 'w) list \<Rightarrow> 'd \<Rightarrow> 'd result" where
  "run [] d = Inr d"
| "run ((k, v, w) # ws) d = bind_result (cas k v w d) (\<lambda>(_, d'). run ws d')"

lemma run_version_mono:
  assumes "invar d" "\<forall>(k, v, w)\<in>set ws. writes w" "run ws d = Inr d'" "get d k = Some r"
  shows "\<exists>r'. get d' k = Some r' \<and> version r \<le> version r' \<and> (version r' = version r \<longrightarrow> r' = r)"
  using assms
proof (induction ws arbitrary: d r)
  case Nil
  then show ?case by simp
next
  case (Cons a ws)
  obtain k1 v w where a: "a = (k1, v, w)" by (cases a) auto
  from Cons.prems a obtain x d1 where c: "cas k1 v w d = Inr (x, d1)" and rest: "run ws d1 = Inr d'"
    and w: "writes w" by (auto simp: bind_result_eq_Inr)
  have i1: "invar d1" by (rule cas_invar [OF Cons.prems(1) w c])
  have "\<exists>r1. get d1 k = Some r1 \<and> version r \<le> version r1 \<and> (version r1 = version r \<longrightarrow> r1 = r)"
  proof (cases "k1 = k \<and> x \<noteq> None")
    case True
    then show ?thesis using cas_saved [OF Cons.prems(1) w] c Cons.prems(4) by fastforce
  next
    case False
    then show ?thesis
      using cas_lost [OF Cons.prems(1) w, of k1 v d1] cas_frame [OF Cons.prems(1) w c, of k] c Cons.prems(4)
      by (cases x) auto
  qed
  then obtain r1 where r1: "get d1 k = Some r1" "version r \<le> version r1" "version r1 = version r \<longrightarrow> r1 = r"
    by blast
  from Cons.IH [OF i1 _ rest r1(1)] Cons.prems(2) r1 show ?case by fastforce
qed

end

section \<open>Deliveries\<close>

definition put_delivery :: "delivery \<Rightarrow> db \<Rightarrow> db" where
  "put_delivery new d = d\<lparr>deliveries := update_where (\<lambda>r. d_id r = d_id new) (\<lambda>_. new) (deliveries d)\<rparr>"

lemma schema_ok_distinct:
  assumes "schema_ok d"
  shows "distinct (map d_id (deliveries d))" and "distinct (map t_id (turns d))"
    and "distinct (map m_id (messages d))"
  using assms by (auto simp: schema_ok_def delivery_table_ok_def delivery_uniques_def turn_table_ok_def turn_uniques_def
      message_table_ok_def message_uniques_def)

lemma get_delivery_iff:
  "schema_ok d \<Longrightarrow> get_delivery d i = Some r \<longleftrightarrow> r \<in> set (deliveries d) \<and> d_id r = i"
  by (simp add: get_delivery_def row_of_eq_Some_iff schema_ok_distinct)

lemma get_turn_iff:
  "schema_ok d \<Longrightarrow> get_turn d i = Some t \<longleftrightarrow> t \<in> set (turns d) \<and> t_id t = i"
  by (simp add: get_turn_def row_of_eq_Some_iff schema_ok_distinct)

lemma get_delivery_d_id: "get_delivery d i = Some r \<Longrightarrow> d_id r = i"
  by (auto simp: get_delivery_def dest: row_of_SomeD)

lemma get_turn_t_id: "get_turn d i = Some t \<Longrightarrow> t_id t = i"
  by (auto simp: get_turn_def dest: row_of_SomeD)

lemma put_delivery_simps [simp]:
  "turns (put_delivery r d) = turns d" "messages (put_delivery r d) = messages d"
  "sessions (put_delivery r d) = sessions d" "runs (put_delivery r d) = runs d"
  "replies (put_delivery r d) = replies d" "show_events (put_delivery r d) = show_events d"
  by (simp_all add: put_delivery_def)

lemma get_delivery_put:
  assumes "get_delivery d (d_id new) \<noteq> None"
  shows "get_delivery (put_delivery new d) i = (if i = d_id new then Some new else get_delivery d i)"
proof -
  have "row_of d_id (update_where (\<lambda>r. d_id r = d_id new) (\<lambda>_. new) rs) i =
      (if i = d_id new \<and> row_of d_id rs i \<noteq> None then Some new else row_of d_id rs i)" for rs
    by (induction rs) (auto simp: update_where_def)
  then show ?thesis using assms by (auto simp: get_delivery_def put_delivery_def)
qed

lemma set_deliveries_put:
  "set (deliveries (put_delivery new d)) \<subseteq> insert new {r \<in> set (deliveries d). d_id r \<noteq> d_id new}"
  by (auto simp: put_delivery_def set_update_where)

lemma map_d_id_put: "map d_id (deliveries (put_delivery new d)) = map d_id (deliveries d)"
  by (simp add: put_delivery_def map_key_update_where)

abbreviation updated_delivery :: "env \<Rightarrow> (delivery \<Rightarrow> delivery) \<Rightarrow> jobj option \<Rightarrow> delivery \<Rightarrow> delivery" where
  "updated_delivery env f event r \<equiv> delivery_update env (d_version r) (d_delivery_history_json r) f event r"

lemma delivery_update_id [simp]: "d_id (delivery_update env v h f ev r) = d_id (f r)"
  by (cases ev) (simp_all add: delivery_update_def)

lemma delivery_update_version [simp]: "d_version (delivery_update env v h f ev r) = v + 1"
  by (cases ev) (simp_all add: delivery_update_def)

text \<open>What \<open>cas_delivery\<close> does on a database that satisfies the schema.\<close>

lemma cas_delivery_eq:
  assumes "schema_ok d" and keeps: "\<And>r. d_id (f r) = d_id r"
  shows "cas_delivery env i v states f ev d =
    (case get_delivery d i of
       None \<Rightarrow> Inr (None, d)
     | Some r \<Rightarrow>
        if d_version r \<noteq> v \<or> d_state r \<notin> set states then Inr (None, d)
        else if delivery_table_ok (deliveries (put_delivery (updated_delivery env f ev r) d))
        then Inr (Some (updated_delivery env f ev r), put_delivery (updated_delivery env f ev r) d)
        else Inl IntegrityError)"
proof (cases "get_delivery d i")
  case None
  then show ?thesis by (simp add: cas_delivery_def)
next
  case (Some r)
  let ?p = "\<lambda>x. d_id x = i \<and> d_version x = v \<and> d_state x \<in> set states"
  let ?g = "delivery_update env v (d_delivery_history_json r) f ev"
  have r: "r \<in> set (deliveries d)" "d_id r = i"
    using Some get_delivery_iff [OF assms(1)] by auto
  have only: "x = r" if "x \<in> set (deliveries d)" "d_id x = i" for x
    using that Some get_delivery_iff [OF assms(1)] by (metis option.inject)
  have count: "row_count ?p (deliveries d) = (if d_version r = v \<and> d_state r \<in> set states then 1 else 0)"
    using row_count_by_key [OF schema_ok_distinct(1) [OF assms(1)], of i
        "\<lambda>x. d_version x = v \<and> d_state x \<in> set states"] Some
    by (simp add: get_delivery_def)
  show ?thesis
  proof (cases "d_version r = v \<and> d_state r \<in> set states")
    case False
    then have "update_where ?p ?g (deliveries d) = deliveries d"
      using only by (intro update_where_none) auto
    then show ?thesis using Some False assms(1) count
      by (auto simp: cas_delivery_def update_deliveries_def schema_ok_def Let_def)
  next
    case True
    have rows: "update_where ?p ?g (deliveries d) =
        update_where (\<lambda>x. d_id x = d_id (?g r)) (\<lambda>_. ?g r) (deliveries d)"
    proof (rule update_where_cong)
      fix x assume "x \<in> set (deliveries d)"
      then show "(if ?p x then ?g x else x) = (if d_id x = d_id (?g r) then ?g r else x)"
        using only [of x] True r(2) by (cases "d_id x = i") (simp_all add: keeps)
    qed
    then have "update_deliveries ?p ?g d =
        (if delivery_table_ok (deliveries (put_delivery (?g r) d)) then Inr (1, put_delivery (?g r) d)
         else Inl IntegrityError)"
      using True count by (simp add: update_deliveries_def put_delivery_def Let_def)
    moreover have "get_delivery (put_delivery (?g r) d) i = Some (?g r)"
      using get_delivery_put [of d "?g r" i] Some r keeps by simp
    ultimately show ?thesis using Some True by (simp add: cas_delivery_def)
  qed
qed

lemma get_delivery_put_updated:
  assumes "get_delivery d i = Some r" and "\<And>r. d_id (f r) = d_id r"
  shows "get_delivery (put_delivery (delivery_update env v h f ev r) d) k =
    (if k = i then Some (delivery_update env v h f ev r) else get_delivery d k)"
  using assms get_delivery_d_id [OF assms(1)] by (subst get_delivery_put) auto

section \<open>Turns\<close>

definition put_turn :: "turn \<Rightarrow> db \<Rightarrow> db" where
  "put_turn new d = d\<lparr>turns := update_where (\<lambda>t. t_id t = t_id new) (\<lambda>_. new) (turns d)\<rparr>"

lemma put_turn_simps [simp]:
  "deliveries (put_turn t d) = deliveries d" "messages (put_turn t d) = messages d"
  "sessions (put_turn t d) = sessions d" "runs (put_turn t d) = runs d"
  "replies (put_turn t d) = replies d" "show_events (put_turn t d) = show_events d"
  by (simp_all add: put_turn_def)

lemma get_turn_put:
  assumes "get_turn d (t_id new) \<noteq> None"
  shows "get_turn (put_turn new d) i = (if i = t_id new then Some new else get_turn d i)"
proof -
  have "row_of t_id (update_where (\<lambda>t. t_id t = t_id new) (\<lambda>_. new) ts) i =
      (if i = t_id new \<and> row_of t_id ts i \<noteq> None then Some new else row_of t_id ts i)" for ts
    by (induction ts) (auto simp: update_where_def)
  then show ?thesis using assms by (auto simp: get_turn_def put_turn_def)
qed

lemma get_delivery_put_turn [simp]: "get_delivery (put_turn t d) i = get_delivery d i"
  by (simp add: get_delivery_def)

lemma get_turn_put_delivery [simp]: "get_turn (put_delivery r d) i = get_turn d i"
  by (simp add: get_turn_def)

lemma get_message_put [simp]:
  "get_message (put_turn t d) i = get_message d i" "get_message (put_delivery r d) i = get_message d i"
  by (simp_all add: get_message_def)

abbreviation updated_turn :: "env \<Rightarrow> turn_values \<Rightarrow> turn \<Rightarrow> turn" where
  "updated_turn env v t \<equiv> turn_update env (t_version t) v t"

lemma turn_update_id [simp]: "t_id (turn_update env n v t) = t_id (tv_rest v t)"
  by (simp add: turn_update_def Let_def)

lemma turn_update_version [simp]: "t_version (turn_update env n v t) = n + 1"
  by (simp add: turn_update_def Let_def)

lemma turn_update_state [simp]:
  "t_state (turn_update env n v t) = (case tv_state v of None \<Rightarrow> t_state t | Some s \<Rightarrow> s)"
  by (simp add: turn_update_def Let_def)

lemma cas_turn_eq:
  assumes "schema_ok d" and keeps: "\<And>t. t_id (tv_rest v t) = t_id t"
  shows "cas_turn env i n states v d =
    (case get_turn d i of
       None \<Rightarrow> Inr (None, d)
     | Some t \<Rightarrow>
        if t_version t \<noteq> n \<or> t_state t \<notin> set states then Inr (None, d)
        else if turn_table_ok (turns (put_turn (updated_turn env v t) d))
        then Inr (Some (updated_turn env v t), put_turn (updated_turn env v t) d)
        else Inl IntegrityError)"
proof -
  let ?p = "\<lambda>x. t_id x = i \<and> t_version x = n \<and> t_state x \<in> set states"
  let ?g = "turn_update env n v"
  have count: "row_count ?p (turns d) = (case get_turn d i of None \<Rightarrow> 0
      | Some t \<Rightarrow> if t_version t = n \<and> t_state t \<in> set states then 1 else 0)"
    using row_count_by_key [OF schema_ok_distinct(2) [OF assms(1)], of i
        "\<lambda>x. t_version x = n \<and> t_state x \<in> set states"]
    by (simp add: get_turn_def)
  have only: "get_turn d i = Some x" if "x \<in> set (turns d)" "t_id x = i" for x
    using that get_turn_iff [OF assms(1)] by blast
  show ?thesis
  proof (cases "\<exists>t. get_turn d i = Some t \<and> t_version t = n \<and> t_state t \<in> set states")
    case False
    then have "update_where ?p ?g (turns d) = turns d"
      using only by (intro update_where_none) auto
    with False assms(1) count show ?thesis
      by (auto simp: cas_turn_def update_turns_def schema_ok_def Let_def split: option.splits)
  next
    case True
    then obtain t where t: "get_turn d i = Some t" "t_version t = n" "t_state t \<in> set states" by blast
    have tid: "t_id t = i" using t(1) by (rule get_turn_t_id)
    have rows: "update_where ?p ?g (turns d) =
        update_where (\<lambda>x. t_id x = t_id (?g t)) (\<lambda>_. ?g t) (turns d)"
      by (rule update_where_cong) (use only t tid keeps in auto)
    then have "update_turns ?p ?g d =
        (if turn_table_ok (turns (put_turn (?g t) d)) then Inr (1, put_turn (?g t) d)
         else Inl IntegrityError)"
      using t count by (simp add: update_turns_def put_turn_def Let_def)
    moreover have "get_turn (put_turn (?g t) d) i = Some (?g t)"
      using get_turn_put [of d "?g t" i] t tid keeps by simp
    ultimately show ?thesis using t by (simp add: cas_turn_def)
  qed
qed

lemma get_turn_put_updated:
  assumes "get_turn d i = Some t" and "\<And>t. t_id (tv_rest v t) = t_id t"
  shows "get_turn (put_turn (turn_update env n v t) d) k =
    (if k = i then Some (turn_update env n v t) else get_turn d k)"
  using assms get_turn_t_id [OF assms(1)] by (subst get_turn_put) auto

section \<open>The two instances\<close>

lemma schema_ok_put_delivery:
  "schema_ok d \<Longrightarrow> delivery_table_ok (deliveries (put_delivery r d)) \<Longrightarrow> schema_ok (put_delivery r d)"
  by (simp add: schema_ok_def)

lemma schema_ok_put_turn:
  "schema_ok d \<Longrightarrow> turn_table_ok (turns (put_turn t d)) \<Longrightarrow> schema_ok (put_turn t d)"
  by (simp add: schema_ok_def)

lemma cas_delivery_cases:
  assumes "schema_ok d" and "\<And>r. d_id (f r) = d_id r"
    and "cas_delivery env i v states f ev d = Inr (x, d')"
  obtains "x = None" and "d' = d"
  | r where "get_delivery d i = Some r" and "d_version r = v" and "d_state r \<in> set states"
    and "x = Some (updated_delivery env f ev r)" and "d' = put_delivery (updated_delivery env f ev r) d"
    and "schema_ok d'"
  using assms
  by (auto simp: cas_delivery_eq schema_ok_put_delivery split: option.splits if_splits)

lemma cas_turn_cases:
  assumes "schema_ok d" and "\<And>t. t_id (tv_rest v t) = t_id t"
    and "cas_turn env i n states v d = Inr (x, d')"
  obtains "x = None" and "d' = d"
  | t where "get_turn d i = Some t" and "t_version t = n" and "t_state t \<in> set states"
    and "x = Some (updated_turn env v t)" and "d' = put_turn (updated_turn env v t) d"
    and "schema_ok d'"
  using assms
  by (auto simp: cas_turn_eq schema_ok_put_turn split: option.splits if_splits)

definition delivery_write :: "env \<Rightarrow> string \<Rightarrow> int \<Rightarrow> delivery_state list \<times> (delivery \<Rightarrow> delivery) \<times> jobj option
    \<Rightarrow> db \<Rightarrow> (delivery option \<times> db) result" where
  "delivery_write env i v w d = cas_delivery env i v (fst w) (fst (snd w)) (snd (snd w)) d"

definition turn_write :: "env \<Rightarrow> string \<Rightarrow> int \<Rightarrow> turn_state list \<times> turn_values \<Rightarrow> db \<Rightarrow> (turn option \<times> db) result" where
  "turn_write env i v w d = cas_turn env i v (fst w) (snd w) d"

interpretation delivery_cas: versioned_table get_delivery d_version schema_ok
    "\<lambda>w. \<forall>r. d_id (fst (snd w) r) = d_id r" "delivery_write env" for env
  by unfold_locales
    (auto simp: delivery_write_def cas_delivery_eq get_delivery_put_updated schema_ok_put_delivery
      split: option.splits if_splits)

interpretation turn_cas: versioned_table get_turn t_version schema_ok
    "\<lambda>w. \<forall>t. t_id (tv_rest (snd w) t) = t_id t" "turn_write env" for env
  by unfold_locales
    (auto simp: turn_write_def cas_turn_eq get_turn_put_updated schema_ok_put_turn
      split: option.splits if_splits)

end
