(* ===== verification/DeliveryRows.thy ===== *)
theory DeliveryRows
  imports DeliveryCas "HOL-Library.Sublist"
begin

text \<open>
  What every row of the Delivery store satisfies and how a row may change. \<open>delivery_shape\<close>
  and \<open>turn_shape\<close> are the shapes the schema's \<open>CHECK\<close> constraints are written for, with the
  comparisons read as two-valued: they are stronger than what SQLite enforces, because a
  comparison with \<open>NULL\<close> passes a \<open>CHECK\<close>. (The start columns of a terminal Turn are the
  exception: there the store relies on what SQLite enforces.) \<open>delivery_evolves\<close> and \<open>turn_evolves\<close> are the
  abstract lifecycle: identity and content digests are fixed, versions only grow, the history
  is only extended, and a finished Delivery or Turn stays as it is.
\<close>

section \<open>Delivery rows\<close>

definition no_attempt :: "delivery \<Rightarrow> bool" where
  "no_attempt r \<longleftrightarrow> d_current_attempt_id r = None \<and> d_current_attempt_kind r = None
     \<and> d_current_target_turn_id r = None \<and> d_current_expected_native_turn_id r = None"

definition attempt_open :: "delivery \<Rightarrow> bool" where
  "attempt_open r \<longleftrightarrow> d_current_attempt_id r \<noteq> None \<and> d_current_attempt_kind r = Some ''steer''
     \<and> d_current_target_turn_id r \<noteq> None"

definition delivery_shape :: "delivery \<Rightarrow> bool" where
  "delivery_shape r \<longleftrightarrow>
     (if d_state r \<in> {Steering, ReconcilingSteer}
        then attempt_open r \<and> d_current_expected_native_turn_id r \<noteq> None
      else if d_state r = PendingSteer then attempt_open r \<and> d_current_expected_native_turn_id r = None
      else no_attempt r)
     \<and> (if d_state r = ReconcilingSteer
          then d_current_receipt_outcome r \<in> {Some ''accepted'', Some ''unknown''}
        else d_current_receipt_outcome r = None)
     \<and> (if d_state r = Accepted
          then d_message_id r \<noteq> None \<and> d_materialized_at r \<noteq> None \<and> d_snapshot_json r = JNull
            \<and> d_dispatch_text r = None \<and> d_current_attempt_opened_at r = None
        else d_message_id r = None \<and> d_materialized_at r = None)
     \<and> (if d_state r \<in> {Claimed, InterruptWaiting}
          then d_turn_id r \<noteq> None \<and> d_turn_role r = Some ''initial'' \<and> d_turn_position r \<noteq> None
        else if d_state r = Accepted
          then d_turn_id r \<noteq> None \<and> d_turn_role r \<in> {Some ''initial'', Some ''steer''} \<and> d_turn_position r \<noteq> None
        else d_turn_id r = None \<and> d_turn_role r = None \<and> d_turn_position r = None)"

text \<open>The history is a document the store wrote, and each of its events is a dictionary.\<close>

definition events_of :: "delivery \<Rightarrow> json list" where
  "events_of r = history_events (d_delivery_history_json r)"

definition history_ok :: "delivery \<Rightarrow> bool" where
  "history_ok r \<longleftrightarrow> d_delivery_history_json r = history_json (events_of r) \<and> list_all is_dict (events_of r)"

text \<open>A Delivery that is not accepted still holds the Message candidate it was submitted with.\<close>

definition snapshot_ok :: "delivery \<Rightarrow> bool" where
  "snapshot_ok r \<longleftrightarrow> (d_state r \<noteq> Accepted \<longrightarrow> (\<exists>s. verified_snapshot r = Inr s))"

definition row_ok :: "delivery \<Rightarrow> bool" where
  "row_ok r \<longleftrightarrow> delivery_shape r \<and> history_ok r \<and> snapshot_ok r"

lemma history_events_history_json [simp]: "history_events (history_json es) = es"
  by (simp add: history_events_def history_json_def canonical_json_def)

lemma delivery_check_of_shape:
  assumes "delivery_shape r" and "history_ok r"
  shows "delivery_check r"
proof -
  have "ck_message_deliveries_history_json r"
    using assms(2) by (auto simp: history_ok_def ck_message_deliveries_history_json_def history_json_def
        canonical_json_def split: json.splits)
  moreover have "check (tany [is_null (d_current_attempt_kind r), col_eq (d_current_attempt_kind r) ''steer''])"
    using assms(1) by (auto simp: delivery_shape_def attempt_open_def no_attempt_def split: if_splits)
  moreover have "ck_message_deliveries_current_attempt_shape r"
    using assms(1) by (auto simp: ck_message_deliveries_current_attempt_shape_def delivery_shape_def
        attempt_open_def no_attempt_def attempt_columns_def split: if_splits)
  moreover have "ck_message_deliveries_current_receipt r"
    using assms(1) by (auto simp: ck_message_deliveries_current_receipt_def delivery_shape_def split: if_splits)
  moreover have "ck_message_deliveries_materialization r"
    using assms(1) by (auto simp: ck_message_deliveries_materialization_def delivery_shape_def
        no_attempt_def attempt_columns_def split: if_splits)
  moreover have "ck_message_deliveries_turn_membership r"
    using assms(1) by (auto simp: ck_message_deliveries_turn_membership_def delivery_shape_def split: if_splits)
  ultimately show ?thesis by (simp add: delivery_check_def)
qed

lemma row_ok_check: "row_ok r \<Longrightarrow> delivery_check r"
  by (simp add: row_ok_def delivery_check_of_shape)

subsection \<open>How a row may change\<close>

definition delivery_evolves :: "delivery \<Rightarrow> delivery \<Rightarrow> bool" where
  "delivery_evolves r r' \<longleftrightarrow>
     d_id r' = d_id r \<and> d_session_id r' = d_session_id r \<and> d_submitted_at r' = d_submitted_at r
     \<and> d_snapshot_sha256 r' = d_snapshot_sha256 r \<and> d_dispatch_sha256 r' = d_dispatch_sha256 r
     \<and> d_version r \<le> d_version r' \<and> prefix (events_of r) (events_of r')
     \<and> (d_state r \<in> {Accepted, Retired} \<longrightarrow> r' = r\<lparr>d_dedupe_key := d_dedupe_key r'\<rparr>)"

lemma delivery_evolves_refl [simp]: "delivery_evolves r r"
  by (simp add: delivery_evolves_def)

lemma delivery_evolves_trans:
  assumes "delivery_evolves r s" and "delivery_evolves s t"
  shows "delivery_evolves r t"
proof -
  have "t = r\<lparr>d_dedupe_key := d_dedupe_key t\<rparr>" if "d_state r \<in> {Accepted, Retired}"
  proof -
    have s: "s = r\<lparr>d_dedupe_key := d_dedupe_key s\<rparr>"
      using that assms(1) by (simp add: delivery_evolves_def)
    then have "d_state s = d_state r"
      by (metis delivery.select_convs(5) delivery.surjective delivery.update_convs(10))
    then have "t = s\<lparr>d_dedupe_key := d_dedupe_key t\<rparr>"
      using that assms(2) by (simp add: delivery_evolves_def)
    also have "\<dots> = r\<lparr>d_dedupe_key := d_dedupe_key t\<rparr>"
      by (subst s) simp
    finally show ?thesis .
  qed
  then show ?thesis
    using assms by (auto simp: delivery_evolves_def intro: prefix_order.trans)
qed

definition deliveries_evolve :: "db \<Rightarrow> db \<Rightarrow> bool" where
  "deliveries_evolve d d' \<longleftrightarrow>
     (\<forall>i r. get_delivery d i = Some r \<longrightarrow> (\<exists>r'. get_delivery d' i = Some r' \<and> delivery_evolves r r'))"

lemma deliveries_evolve_refl [simp]: "deliveries_evolve d d"
  by (auto simp: deliveries_evolve_def)

lemma deliveries_evolve_trans:
  "deliveries_evolve d e \<Longrightarrow> deliveries_evolve e f \<Longrightarrow> deliveries_evolve d f"
  unfolding deliveries_evolve_def by (meson delivery_evolves_trans)

lemma deliveries_evolve_put_turn [simp]: "deliveries_evolve d (put_turn t d)"
  by (simp add: deliveries_evolve_def)

text \<open>The columns a compare-and-set writes besides the version, the time and the history.\<close>

lemma delivery_update_selectors [simp]:
  "d_session_id (delivery_update env v h f ev r) = d_session_id (f r)"
  "d_message_id (delivery_update env v h f ev r) = d_message_id (f r)"
  "d_priority (delivery_update env v h f ev r) = d_priority (f r)"
  "d_state (delivery_update env v h f ev r) = d_state (f r)"
  "d_snapshot_json (delivery_update env v h f ev r) = d_snapshot_json (f r)"
  "d_snapshot_sha256 (delivery_update env v h f ev r) = d_snapshot_sha256 (f r)"
  "d_dispatch_text (delivery_update env v h f ev r) = d_dispatch_text (f r)"
  "d_dispatch_sha256 (delivery_update env v h f ev r) = d_dispatch_sha256 (f r)"
  "d_dedupe_key (delivery_update env v h f ev r) = d_dedupe_key (f r)"
  "d_turn_id (delivery_update env v h f ev r) = d_turn_id (f r)"
  "d_turn_role (delivery_update env v h f ev r) = d_turn_role (f r)"
  "d_turn_position (delivery_update env v h f ev r) = d_turn_position (f r)"
  "d_current_attempt_id (delivery_update env v h f ev r) = d_current_attempt_id (f r)"
  "d_current_attempt_kind (delivery_update env v h f ev r) = d_current_attempt_kind (f r)"
  "d_current_target_turn_id (delivery_update env v h f ev r) = d_current_target_turn_id (f r)"
  "d_current_expected_native_turn_id (delivery_update env v h f ev r) = d_current_expected_native_turn_id (f r)"
  "d_current_receipt_outcome (delivery_update env v h f ev r) = d_current_receipt_outcome (f r)"
  "d_current_attempt_opened_at (delivery_update env v h f ev r) = d_current_attempt_opened_at (f r)"
  "d_submitted_at (delivery_update env v h f ev r) = d_submitted_at (f r)"
  "d_materialized_at (delivery_update env v h f ev r) = d_materialized_at (f r)"
  "d_retired_at (delivery_update env v h f ev r) = d_retired_at (f r)"
  by (cases ev; simp add: delivery_update_def)+

lemma delivery_update_history:
  "d_delivery_history_json (delivery_update env v h f ev r) =
     (case ev of None \<Rightarrow> d_delivery_history_json (f r) | Some e \<Rightarrow> append_history_value env h e)"
  by (cases ev) (simp_all add: delivery_update_def)

lemma delivery_shape_update [simp]:
  "delivery_shape (delivery_update env v h f ev r) = delivery_shape (f r)"
  by (simp add: delivery_shape_def attempt_open_def no_attempt_def)

lemma snapshot_ok_update [simp]: "snapshot_ok (delivery_update env v h f ev r) = snapshot_ok (f r)"
  by (simp add: snapshot_ok_def verified_snapshot_def Let_def)

text \<open>The writes of the store: the content digests, the identity and the history are not among the columns they set.\<close>

definition frame_ok :: "(delivery \<Rightarrow> delivery) \<Rightarrow> bool" where
  "frame_ok f \<longleftrightarrow> (\<forall>r. d_id (f r) = d_id r \<and> d_session_id (f r) = d_session_id r
     \<and> d_submitted_at (f r) = d_submitted_at r \<and> d_snapshot_sha256 (f r) = d_snapshot_sha256 r
     \<and> d_dispatch_sha256 (f r) = d_dispatch_sha256 r
     \<and> d_delivery_history_json (f r) = d_delivery_history_json r)"

lemma frame_ok_id: "frame_ok f \<Longrightarrow> d_id (f r) = d_id r"
  by (simp add: frame_ok_def)

lemma events_of_update:
  assumes "frame_ok f"
  shows "events_of (updated_delivery env f ev r) =
    events_of r @ (case ev of None \<Rightarrow> [] | Some e \<Rightarrow> [stamped_event (utc_now_iso env) e])"
  using assms by (cases ev) (simp_all add: events_of_def delivery_update_history append_history_value_def frame_ok_def)

lemma history_ok_update:
  assumes "frame_ok f" and "history_ok r"
  shows "history_ok (updated_delivery env f ev r)"
  using assms events_of_update [OF assms(1)]
  by (cases ev) (auto simp: history_ok_def delivery_update_history append_history_value_def events_of_def
      frame_ok_def stamped_event_def is_dict_def)

lemma delivery_evolves_update:
  assumes "frame_ok f" and "d_state r \<notin> {Accepted, Retired}"
  shows "delivery_evolves r (updated_delivery env f ev r)"
  using assms events_of_update [OF assms(1)] by (simp add: delivery_evolves_def frame_ok_def)

lemma row_ok_update:
  assumes "frame_ok f" and "row_ok r" and "delivery_shape (f r)" and "snapshot_ok (f r)"
  shows "row_ok (updated_delivery env f ev r)"
  using assms by (simp add: row_ok_def history_ok_update)

section \<open>Turn rows\<close>

definition start_written :: "turn \<Rightarrow> bool" where
  "start_written t \<longleftrightarrow> t_start_attempt_id t \<noteq> None \<and> t_dispatch_text t \<noteq> None \<and> t_dispatch_sha256 t \<noteq> None"

definition start_unwritten :: "turn \<Rightarrow> bool" where
  "start_unwritten t \<longleftrightarrow> t_start_attempt_id t = None \<and> t_dispatch_text t = None \<and> t_dispatch_sha256 t = None"

definition turn_start_ok :: "turn \<Rightarrow> bool" where
  "turn_start_ok t \<longleftrightarrow>
     (case t_state t of
        Waiting \<Rightarrow> start_unwritten t \<and> t_start_receipt_outcome t = None
      | Starting \<Rightarrow> start_written t \<and> t_start_receipt_outcome t \<in> {None, Some ''unknown''}
      | Active \<Rightarrow> start_written t \<and> t_start_receipt_outcome t = Some ''accepted''
      | Terminal \<Rightarrow> ck_session_turns_start_shape t \<and> ck_session_turns_outcomes t)"

definition turn_shape :: "turn \<Rightarrow> bool" where
  "turn_shape t \<longleftrightarrow> turn_start_ok t \<and> ck_session_turns_control t
     \<and> (t_control_mode t = None \<longrightarrow> t_control_successor_delivery_id t = None)
     \<and> (if t_state t = Terminal
        then t_terminal_outcome t \<in> {Some ''completed'', Some ''failed'', Some ''canceled'', Some ''not_written''}
          \<and> t_terminal_at t \<noteq> None
        else t_terminal_outcome t = None \<and> t_terminal_at t = None)"

lemma turn_start_shape_of_ok:
  assumes "turn_start_ok t"
  shows "ck_session_turns_start_shape t"
proof (cases "t_state t = Terminal")
  case True
  then show ?thesis using assms by (simp add: turn_start_ok_def)
next
  case False
  then show ?thesis
    using assms by (cases "t_state t") (auto simp: turn_start_ok_def start_written_def start_unwritten_def
        ck_session_turns_start_shape_def start_columns_def)
qed

lemma turn_check_of_shape:
  assumes "turn_shape t"
  shows "turn_check t"
proof -
  have start: "turn_start_ok t" using assms by (simp add: turn_shape_def)
  then have "ck_session_turns_outcomes t"
    using assms by (cases "t_state t") (auto simp: turn_start_ok_def turn_shape_def ck_session_turns_outcomes_def)
  moreover have "ck_session_turns_terminal_shape t"
    using assms by (auto simp: turn_shape_def ck_session_turns_terminal_shape_def split: if_splits)
  ultimately show ?thesis
    using assms turn_start_shape_of_ok [OF start] by (simp add: turn_check_def turn_shape_def)
qed

fun turn_rank :: "turn_state \<Rightarrow> nat" where
  "turn_rank Waiting = 0"
| "turn_rank Starting = 1"
| "turn_rank Active = 2"
| "turn_rank Terminal = 3"

definition turn_evolves :: "turn \<Rightarrow> turn \<Rightarrow> bool" where
  "turn_evolves t t' \<longleftrightarrow>
     t_id t' = t_id t \<and> t_session_id t' = t_session_id t \<and> t_backend t' = t_backend t
     \<and> t_initial_delivery_id t' = t_initial_delivery_id t \<and> t_created_at t' = t_created_at t
     \<and> t_version t \<le> t_version t' \<and> turn_rank (t_state t) \<le> turn_rank (t_state t')
     \<and> (t_state t = Terminal \<longrightarrow> t_terminal_outcome t' = t_terminal_outcome t
          \<and> t_settled_by t' = t_settled_by t \<and> t_terminal_at t' = t_terminal_at t
          \<and> t_start_receipt_outcome t' = t_start_receipt_outcome t)"

lemma turn_evolves_refl [simp]: "turn_evolves t t"
  by (simp add: turn_evolves_def)

lemma turn_rank_3: "3 \<le> turn_rank s \<longleftrightarrow> s = Terminal"
  by (cases s) simp_all

lemma turn_evolves_trans: "turn_evolves t u \<Longrightarrow> turn_evolves u v \<Longrightarrow> turn_evolves t v"
  unfolding turn_evolves_def using turn_rank_3 [of "t_state u"] by auto

definition turns_evolve :: "db \<Rightarrow> db \<Rightarrow> bool" where
  "turns_evolve d d' \<longleftrightarrow>
     (\<forall>i t. get_turn d i = Some t \<longrightarrow> (\<exists>t'. get_turn d' i = Some t' \<and> turn_evolves t t'))"

lemma turns_evolve_refl [simp]: "turns_evolve d d"
  by (auto simp: turns_evolve_def)

lemma turns_evolve_trans: "turns_evolve d e \<Longrightarrow> turns_evolve e f \<Longrightarrow> turns_evolve d f"
  unfolding turns_evolve_def by (meson turn_evolves_trans)

lemma turns_evolve_put_delivery [simp]: "turns_evolve d (put_delivery r d)"
  by (simp add: turns_evolve_def)

end
