(* ===== verification/DeliveryInvariant.thy ===== *)
theory DeliveryInvariant
  imports DeliveryRows
begin

text \<open>
  Every write of the Delivery store keeps the invariant \<open>store_ok\<close> and moves rows only along
  \<open>store_evolves\<close>: the lemmas here are about the two compare-and-set writes, the inserts and
  the batch loop, and one lemma per operation follows from them.
\<close>

definition store_ok :: "db \<Rightarrow> bool" where
  "store_ok d \<longleftrightarrow> schema_ok d \<and> list_all row_ok (deliveries d) \<and> list_all turn_shape (turns d)"

definition store_evolves :: "db \<Rightarrow> db \<Rightarrow> bool" where
  "store_evolves d d' \<longleftrightarrow> deliveries_evolve d d' \<and> turns_evolve d d'"

text \<open>What an operation guarantees of the database it returns.\<close>

definition keeps_store :: "db \<Rightarrow> db \<Rightarrow> bool" where
  "keeps_store d d' \<longleftrightarrow> store_ok d' \<and> store_evolves d d'"

lemma store_evolves_refl [simp]: "store_evolves d d"
  by (simp add: store_evolves_def)

lemma store_evolves_trans: "store_evolves d e \<Longrightarrow> store_evolves e f \<Longrightarrow> store_evolves d f"
  unfolding store_evolves_def by (blast intro: deliveries_evolve_trans turns_evolve_trans)

lemma keeps_store_refl: "store_ok d \<Longrightarrow> keeps_store d d"
  by (simp add: keeps_store_def)

lemma keeps_store_trans: "keeps_store d e \<Longrightarrow> keeps_store e f \<Longrightarrow> keeps_store d f"
  unfolding keeps_store_def by (blast intro: store_evolves_trans)

lemma keeps_store_ok: "keeps_store d d' \<Longrightarrow> store_ok d'"
  by (simp add: keeps_store_def)

lemma store_ok_schema: "store_ok d \<Longrightarrow> schema_ok d"
  by (simp add: store_ok_def)

lemma store_ok_row: "store_ok d \<Longrightarrow> get_delivery d i = Some r \<Longrightarrow> row_ok r"
  by (auto simp: store_ok_def get_delivery_iff list_all_iff)

lemma store_ok_turn: "store_ok d \<Longrightarrow> get_turn d i = Some t \<Longrightarrow> turn_shape t"
  by (auto simp: store_ok_def get_turn_iff list_all_iff)

section \<open>The two writes\<close>

lemma keeps_put_delivery:
  assumes "store_ok d" and "get_delivery d i = Some r" and "d_id new = i" and "row_ok new"
    and "delivery_evolves r new" and "schema_ok (put_delivery new d)"
  shows "keeps_store d (put_delivery new d)"
proof -
  have "list_all row_ok (deliveries (put_delivery new d))"
    using assms(1,4) by (auto simp: store_ok_def put_delivery_def list_all_replace)
  moreover have "deliveries_evolve d (put_delivery new d)"
    using assms(2,3,5) by (auto simp: deliveries_evolve_def get_delivery_put)
  ultimately show ?thesis
    using assms(1,6) by (simp add: keeps_store_def store_ok_def store_evolves_def)
qed

lemma keeps_put_turn:
  assumes "store_ok d" and "get_turn d i = Some t" and "t_id new = i" and "turn_shape new"
    and "turn_evolves t new" and "schema_ok (put_turn new d)"
  shows "keeps_store d (put_turn new d)"
proof -
  have "list_all turn_shape (turns (put_turn new d))"
    using assms(1,4) by (auto simp: store_ok_def put_turn_def list_all_replace)
  moreover have "turns_evolve d (put_turn new d)"
    using assms(2,3,5) by (auto simp: turns_evolve_def get_turn_put)
  ultimately show ?thesis
    using assms(1,6) by (simp add: keeps_store_def store_ok_def store_evolves_def)
qed

text \<open>A Delivery write that leaves finished rows alone and produces a row of the right shape.\<close>

lemma cas_delivery_keeps:
  assumes ok: "store_ok d" and frame: "frame_ok f"
    and states: "Accepted \<notin> set states" "Retired \<notin> set states"
    and good: "\<And>r. get_delivery d i = Some r \<Longrightarrow> row_ok r \<Longrightarrow> d_version r = v \<Longrightarrow> d_state r \<in> set states \<Longrightarrow>
        delivery_shape (f r) \<and> snapshot_ok (f r)"
    and run: "cas_delivery env i v states f ev d = Inr (x, d')"
  shows "keeps_store d d'"
proof (rule cas_delivery_cases [OF store_ok_schema [OF ok] frame_ok_id [OF frame] run])
  assume "d' = d"
  then show ?thesis using ok by (simp add: keeps_store_refl)
next
  fix r
  let ?new = "updated_delivery env f ev r"
  assume r: "get_delivery d i = Some r" "d_version r = v" "d_state r \<in> set states"
    and d': "d' = put_delivery ?new d" and schema: "schema_ok d'"
  have row: "row_ok r" by (rule store_ok_row [OF ok r(1)])
  have "row_ok ?new" using good [OF r(1) row r(2,3)] by (simp add: row_ok_update [OF frame row])
  moreover have "delivery_evolves r ?new"
    using r(3) states by (intro delivery_evolves_update [OF frame]) auto
  moreover have "d_id ?new = i"
    using frame_ok_id [OF frame] get_delivery_d_id [OF r(1)] by simp
  ultimately show ?thesis using keeps_put_delivery [OF ok r(1)] schema d' by simp
qed

lemma cas_turn_keeps:
  assumes ok: "store_ok d" and frame: "\<And>t. t_id (tv_rest v t) = t_id t"
    and good: "\<And>t. get_turn d i = Some t \<Longrightarrow> turn_shape t \<Longrightarrow> t_version t = n \<Longrightarrow> t_state t \<in> set states \<Longrightarrow>
        turn_check (updated_turn env v t) \<Longrightarrow>
        turn_shape (updated_turn env v t) \<and> turn_evolves t (updated_turn env v t)"
    and run: "cas_turn env i n states v d = Inr (x, d')"
  shows "keeps_store d d'"
proof (rule cas_turn_cases [OF store_ok_schema [OF ok] frame run])
  assume "d' = d"
  then show ?thesis using ok by (simp add: keeps_store_refl)
next
  fix t
  let ?new = "updated_turn env v t"
  assume t: "get_turn d i = Some t" "t_version t = n" "t_state t \<in> set states"
    and d': "d' = put_turn ?new d" and schema: "schema_ok d'"
  have id: "t_id ?new = i" using frame get_turn_t_id [OF t(1)] by simp
  have "?new \<in> set (turns d')"
    using schema d' get_turn_put [of d ?new i] t(1) id get_turn_iff [of d' i ?new] by simp
  then have "turn_check ?new"
    using schema by (auto simp: schema_ok_def turn_table_ok_def list_all_iff)
  then have "turn_shape ?new \<and> turn_evolves t ?new"
    by (rule good [OF t(1) store_ok_turn [OF ok t(1)] t(2,3)])
  then show ?thesis using keeps_put_turn [OF ok t(1) id] schema d' by simp
qed

text \<open>The columns \<open>turn_update\<close> sets.\<close>

lemma turn_update_selectors [simp]:
  "t_session_id (turn_update env n v t) = t_session_id (tv_rest v t)"
  "t_initial_delivery_id (turn_update env n v t) = t_initial_delivery_id (tv_rest v t)"
  "t_backend (turn_update env n v t) = t_backend (tv_rest v t)"
  "t_created_at (turn_update env n v t) = t_created_at (tv_rest v t)"
  "t_start_attempt_id (turn_update env n v t) = t_start_attempt_id (tv_rest v t)"
  "t_start_receipt_outcome (turn_update env n v t) = t_start_receipt_outcome (tv_rest v t)"
  "t_dispatch_text (turn_update env n v t) = t_dispatch_text (tv_rest v t)"
  "t_dispatch_sha256 (turn_update env n v t) = t_dispatch_sha256 (tv_rest v t)"
  "t_terminal_outcome (turn_update env n v t) = t_terminal_outcome (tv_rest v t)"
  "t_settled_by (turn_update env n v t) = t_settled_by (tv_rest v t)"
  "t_terminal_at (turn_update env n v t) = t_terminal_at (tv_rest v t)"
  "t_control_state (turn_update env n v t) = t_control_state (tv_rest v t)"
  "t_control_mode (turn_update env n v t) = t_control_mode (tv_rest v t)"
  "t_control_attempt_id (turn_update env n v t) = t_control_attempt_id (tv_rest v t)"
  "t_control_successor_delivery_id (turn_update env n v t) = t_control_successor_delivery_id (tv_rest v t)"
  "t_control_successor_turn_id (turn_update env n v t) = t_control_successor_turn_id (tv_rest v t)"
  "t_native_turn_id (turn_update env n v t) = t_native_turn_id (tv_rest v t)"
  "t_runtime_key (turn_update env n v t) = t_runtime_key (tv_rest v t)"
  "t_runtime_turn_id (turn_update env n v t) = t_runtime_turn_id (tv_rest v t)"
  by (simp_all add: turn_update_def Let_def)

section \<open>The batch loop\<close>

lemma batch_keeps:
  assumes "batch lost f xs d = Inr (rows, d')" and "store_ok d"
    and step: "\<And>x e y e'. x \<in> set xs \<Longrightarrow> store_ok e \<Longrightarrow> f x e = Inr (y, e') \<Longrightarrow> keeps_store e e'"
  shows "keeps_store d d'"
proof -
  have "(\<lambda>acc. keeps_store d (snd acc)) (rows, d')"
  proof (rule fold_result_invariant [OF assms(1) [unfolded batch_def]])
    show "keeps_store d (snd ([], d))" using assms(2) by (simp add: keeps_store_refl)
  next
    fix x s s'
    assume x: "x \<in> set xs" and s: "keeps_store d (snd s)" and run: "batch_step lost f x s = Inr s'"
    from run obtain y where "f x (snd s) = Inr (Some y, snd s')"
      by (auto simp: batch_step_def bind_result_eq_Inr split: option.splits)
    then have "keeps_store (snd s) (snd s')" using x s by (intro step) (auto dest: keeps_store_ok)
    then show "keeps_store d (snd s')" using s by (rule keeps_store_trans [rotated])
  qed
  then show ?thesis by simp
qed

section \<open>Deliveries\<close>

lemmas write_defs = claim_values_def reset_attempt_def clear_membership_def accept_values_def
  join_turn_def retire_values_def withdraw_values_def

lemma frame_ok_writes [simp]:
  "frame_ok (claim_values t p o')" "frame_ok (accept_values m now)" "frame_ok (retire_values env)"
  "frame_ok (withdraw_values env)" "frame_ok (\<lambda>r. join_turn t role p (accept_values m now r))"
  "frame_ok (\<lambda>r. clear_membership (retire_values env r))" "frame_ok (\<lambda>r. r\<lparr>d_state := s\<rparr>)"
  "frame_ok (\<lambda>r. (retire_values env r)\<lparr>d_dedupe_key := k\<rparr>)"
  by (simp_all add: frame_ok_def write_defs)

lemma snapshot_ok_same:
  assumes "snapshot_ok r" and "d_snapshot_json r' = d_snapshot_json r"
    and "d_snapshot_sha256 r' = d_snapshot_sha256 r" and "d_state r \<noteq> Accepted"
  shows "snapshot_ok r'"
  using assms by (simp add: snapshot_ok_def verified_snapshot_def Let_def)

lemma claim_values_shape:
  assumes "row_ok r" and "d_state r \<in> {Reserved, Queued, InterruptWaiting}"
  shows "delivery_shape (claim_values t p o' r)" and "snapshot_ok (claim_values t p o' r)"
  using assms
  by (auto simp: row_ok_def delivery_shape_def no_attempt_def write_defs intro: snapshot_ok_same)

lemma accept_values_shape:
  "delivery_shape (join_turn t ''steer'' p (accept_values m now r))" 
  "snapshot_ok (join_turn t ''steer'' p (accept_values m now r))"
  by (simp_all add: delivery_shape_def no_attempt_def write_defs snapshot_ok_def)

lemma accept_claimed_shape:
  assumes "row_ok r" and "d_state r = Claimed"
  shows "delivery_shape (accept_values m now r)" and "snapshot_ok (accept_values m now r)"
  using assms by (simp_all add: row_ok_def delivery_shape_def no_attempt_def write_defs snapshot_ok_def)

lemma withdraw_values_shape:
  assumes "row_ok r" and "d_state r \<noteq> Accepted"
  shows "delivery_shape (withdraw_values env r)" and "snapshot_ok (withdraw_values env r)"
  using assms
  by (auto simp: row_ok_def delivery_shape_def no_attempt_def write_defs intro: snapshot_ok_same split: if_splits)

lemma retire_values_shape:
  assumes "row_ok r" and "d_state r \<in> {Reserved, Queued}"
  shows "delivery_shape (retire_values env r)" and "snapshot_ok (retire_values env r)"
  using assms
  by (auto simp: row_ok_def delivery_shape_def no_attempt_def write_defs intro: snapshot_ok_same)

section \<open>Inserts\<close>

lemma get_delivery_append:
  assumes "get_delivery d i = Some r"
  shows "get_delivery (d\<lparr>deliveries := deliveries d @ [new]\<rparr>) i = Some r"
proof -
  have "row_of d_id (xs @ [new]) i = Some r" if "row_of d_id xs i = Some r" for xs
    using that by (induction xs) (auto split: if_splits)
  then show ?thesis using assms by (simp add: get_delivery_def)
qed

lemma get_turn_append:
  assumes "get_turn d i = Some t"
  shows "get_turn (d\<lparr>turns := turns d @ [new]\<rparr>) i = Some t"
proof -
  have "row_of t_id (xs @ [new]) i = Some t" if "row_of t_id xs i = Some t" for xs
    using that by (induction xs) (auto split: if_splits)
  then show ?thesis using assms by (simp add: get_turn_def)
qed

lemma keeps_insert_deliveries:
  assumes "store_ok d" and "row_ok r" and "insert_deliveries r d = Inr d'"
  shows "keeps_store d d'"
proof -
  have d': "d' = d\<lparr>deliveries := deliveries d @ [r]\<rparr>" and ok: "delivery_table_ok (deliveries d @ [r])"
    using assms(3) by (auto simp: insert_deliveries_def Let_def split: if_splits)
  have "deliveries_evolve d d'"
    using get_delivery_append [of d] d' by (auto simp: deliveries_evolve_def)
  moreover have "turns_evolve d d'" by (simp add: turns_evolve_def d' get_turn_def)
  ultimately show ?thesis
    using assms(1,2) ok d' by (simp add: keeps_store_def store_ok_def store_evolves_def schema_ok_def)
qed

lemma keeps_insert_turns:
  assumes "store_ok d" and "turn_shape t" and "insert_turns t d = Inr d'"
  shows "keeps_store d d'"
proof -
  have d': "d' = d\<lparr>turns := turns d @ [t]\<rparr>" and ok: "turn_table_ok (turns d @ [t])"
    using assms(3) by (auto simp: insert_turns_def Let_def split: if_splits)
  have "turns_evolve d d'"
    using get_turn_append [of d] d' by (auto simp: turns_evolve_def)
  moreover have "deliveries_evolve d d'" by (simp add: deliveries_evolve_def d' get_delivery_def)
  ultimately show ?thesis
    using assms(1,2) ok d' by (simp add: keeps_store_def store_ok_def store_evolves_def schema_ok_def)
qed

text \<open>A change of a table the two invariants do not speak of.\<close>

lemma keeps_other_tables:
  assumes "store_ok d" and "deliveries d' = deliveries d" and "turns d' = turns d"
    and "message_table_ok (messages d')"
  shows "keeps_store d d'"
  using assms by (simp add: keeps_store_def store_ok_def schema_ok_def store_evolves_def
      deliveries_evolve_def turns_evolve_def get_delivery_def get_turn_def)

lemma turn_row_shape:
  "state \<noteq> Terminal \<Longrightarrow> turn_shape (turn_row env i s del state b a txt now d)"
  by (cases state) (simp_all add: turn_row_def Let_def turn_shape_def turn_start_ok_def start_written_def
      start_unwritten_def ck_session_turns_control_def split: option.splits)

lemma insert_turn_eq_Inr:
  "insert_turn env i s del state b a txt now d = Inr (t, d') \<longleftrightarrow>
     t = turn_row env i s del state b a txt now d \<and> insert_turns t d = Inr d'"
  by (auto simp: insert_turn_def Let_def bind_result_eq_Inr)

lemma insert_delivery_eq_Inr:
  "insert_delivery env i d = Inr (r, d') \<longleftrightarrow> r = delivery_row env i \<and> insert_deliveries r d = Inr d'"
  by (auto simp: insert_delivery_def Let_def bind_result_eq_Inr)

lemma insert_turn_keeps:
  assumes "store_ok d" and "state \<noteq> Terminal"
    and "insert_turn env i s del state b a txt now d = Inr (t, d')"
  shows "keeps_store d d'"
  using assms keeps_insert_turns turn_row_shape by (simp add: insert_turn_eq_Inr) blast

lemma plain_row_ok:
  assumes "st \<in> {Reserved, Queued}"
  shows "row_ok (delivery_row env (plain_input i s p st (message_snapshot m) txt key ev now))" (is "row_ok ?r")
proof -
  have "delivery_shape ?r"
    using assms by (auto simp: delivery_shape_def no_attempt_def delivery_row_def Let_def plain_input_def)
  moreover have "history_ok ?r"
    by (simp add: delivery_row_def Let_def plain_input_def history_ok_def
        events_of_def stamped_event_def is_dict_def split: option.splits)
  moreover have "snapshot_ok ?r"
    by (simp add: snapshot_ok_def verified_snapshot_def delivery_row_def Let_def plain_input_def canonical_json_def
       json_object_def message_snapshot_def)
  ultimately show ?thesis by (simp add: row_ok_def)
qed

lemma submit_keeps:
  assumes "store_ok d" and "st \<in> {Reserved, Queued}"
    and "insert_delivery env (plain_input i s p st (message_snapshot m) txt key ev now) d = Inr (r, d')"
  shows "keeps_store d d'"
  using keeps_insert_deliveries [OF assms(1) plain_row_ok [OF assms(2)]] assms(3) by (simp add: insert_delivery_eq_Inr) blast

lemma enqueue_queued_keeps:
  assumes "store_ok d" and "enqueue_queued env m txt now d = Inr (p, d')"
  shows "keeps_store d d'"
  using assms submit_keeps [OF assms(1), of Queued]
  by (auto simp: enqueue_queued_def bind_result_eq_Inr)

section \<open>Turns\<close>

lemmas turn_shape_defs = turn_shape_def turn_start_ok_def start_written_def start_unwritten_def

text \<open>Writes that set neither the state nor a column of the start, the terminal or the control shape.\<close>

lemma turn_shape_same:
  assumes "t_state t' = t_state t" "t_terminal_outcome t' = t_terminal_outcome t" "t_terminal_at t' = t_terminal_at t"
   "t_start_attempt_id t' = t_start_attempt_id t" "t_start_receipt_outcome t' = t_start_receipt_outcome t"
   "t_dispatch_text t' = t_dispatch_text t" "t_dispatch_sha256 t' = t_dispatch_sha256 t"
   "t_control_state t' = t_control_state t" "t_control_mode t' = t_control_mode t"
   "t_control_successor_delivery_id t' = t_control_successor_delivery_id t"
   "t_control_successor_turn_id t' = t_control_successor_turn_id t"
  shows "turn_shape t' = turn_shape t"
  using assms by (simp add: turn_shape_defs
    ck_session_turns_control_def ck_session_turns_start_shape_def start_columns_def ck_session_turns_outcomes_def
    split: turn_state.splits)

definition control_same :: "turn \<Rightarrow> turn \<Rightarrow> bool" where
  "control_same t' t \<longleftrightarrow> t_control_state t' = t_control_state t \<and> t_control_mode t' = t_control_mode t
     \<and> t_control_successor_delivery_id t' = t_control_successor_delivery_id t
     \<and> t_control_successor_turn_id t' = t_control_successor_turn_id t"

text \<open>The columns a write outside the control slot leaves alone.\<close>

definition turn_frame :: "(turn \<Rightarrow> turn) \<Rightarrow> bool" where
  "turn_frame f \<longleftrightarrow> (\<forall>t. t_id (f t) = t_id t \<and> t_session_id (f t) = t_session_id t \<and> t_backend (f t) = t_backend t
     \<and> t_initial_delivery_id (f t) = t_initial_delivery_id t \<and> t_created_at (f t) = t_created_at t
     \<and> control_same (f t) t)"

lemma turn_frame_id: "turn_frame f \<Longrightarrow> t_id (f t) = t_id t"
  by (simp add: turn_frame_def)

lemma turn_evolves_frame:
  assumes "turn_frame (tv_rest v)" and "t_state t \<noteq> Terminal"
    and "turn_rank (t_state t) \<le> turn_rank (t_state (updated_turn env v t))"
  shows "turn_evolves t (updated_turn env v t)"
  using assms by (simp add: turn_evolves_def turn_frame_def)

text \<open>A write of a Turn that is not yet terminal and does not settle it.\<close>

lemma live_turn_keeps:
  assumes "store_ok d" and frame: "turn_frame (tv_rest v)"
    and live: "Terminal \<notin> set states" "tv_state v \<noteq> Some Terminal"
    and same: "\<And>t. t_terminal_outcome (tv_rest v t) = t_terminal_outcome t \<and> t_terminal_at (tv_rest v t) = t_terminal_at t"
    and good: "\<And>t. turn_start_ok t \<Longrightarrow> t_state t \<in> set states \<Longrightarrow>
      turn_start_ok (updated_turn env v t) \<and> turn_rank (t_state t) \<le> turn_rank (t_state (updated_turn env v t))"
    and run: "cas_turn env i n states v d = Inr (y, d')"
  shows "keeps_store d d'"
proof (rule cas_turn_keeps [OF assms(1) turn_frame_id [OF frame] _ run])
  fix t assume t: "turn_shape t" "t_state t \<in> set states"
  let ?new = "updated_turn env v t"
  have live': "t_state t \<noteq> Terminal" "t_state ?new \<noteq> Terminal"
    using t(2) live by (auto split: option.splits)
  have start: "turn_start_ok ?new" "turn_rank (t_state t) \<le> turn_rank (t_state ?new)"
    using good [of t] t by (auto simp: turn_shape_def)
  have "turn_shape ?new"
    using t(1) live' start(1) same [of t] frame
    by (simp add: turn_shape_def turn_frame_def control_same_def ck_session_turns_control_def)
  then show "turn_shape ?new \<and> turn_evolves t ?new"
    using turn_evolves_frame [OF frame live'(1) start(2)] by simp
qed

lemmas turn_frame_defs = turn_frame_def control_same_def

lemma open_start_turn_keeps:
  assumes "store_ok d" and "cas_turn env i n [Starting]
     \<lparr>tv_state = None, tv_started_at = None,
      tv_rest = (\<lambda>t. t\<lparr>t_start_attempt_id := Some a, t_dispatch_text := Some x, t_dispatch_sha256 := Some h\<rparr>)\<rparr> d
     = Inr (y, d')"
  shows "keeps_store d d'"
  by (rule live_turn_keeps [OF assms(1) _ _ _ _ _ assms(2)])
    (auto simp: turn_frame_defs turn_start_ok_def start_written_def)

lemma activate_turn_keeps:
  assumes "store_ok d" and "cas_turn env i n [Waiting]
     \<lparr>tv_state = Some Starting, tv_started_at = None,
      tv_rest = (\<lambda>t. t\<lparr>t_start_attempt_id := Some a, t_start_receipt_outcome := None,
        t_start_receipt_json := j, t_dispatch_text := Some x, t_dispatch_sha256 := Some h\<rparr>)\<rparr> d
     = Inr (y, d')"
  shows "keeps_store d d'"
  by (rule live_turn_keeps [OF assms(1) _ _ _ _ _ assms(2)])
    (auto simp: turn_frame_defs turn_start_ok_def start_written_def)

lemma bind_native_start_keeps:
  assumes "store_ok d" and "bind_native_start env i n rk rt nt ex d = Inr (y, d')"
  shows "keeps_store d d'"
proof (cases "d' = d")
  case True
  then show ?thesis using assms(1) by (simp add: keeps_store_refl)
next
  case False
  then obtain v where run: "cas_turn env i n [Starting, Active] v d = Inr (y, d')"
    and v: "tv_state v = Some Active" "turn_frame (tv_rest v)"
    and cols: "\<And>t. t_start_receipt_outcome (tv_rest v t) = Some ''accepted''"
      "\<And>t. start_written (tv_rest v t) = start_written t"
      "\<And>t. t_terminal_outcome (tv_rest v t) = t_terminal_outcome t \<and> t_terminal_at (tv_rest v t) = t_terminal_at t"
    using assms(2)
    by (auto simp: bind_native_start_def Let_def turn_frame_defs start_written_def intro: that
        split: option.splits if_splits)
  show ?thesis
    by (rule live_turn_keeps [OF assms(1) v(2) _ _ cols(3) _ run])
      (use v cols(1,2) in \<open>auto simp: turn_start_ok_def start_written_def\<close>)
qed

lemma rotate_restart_generation_keeps:
  assumes "store_ok d" and "rotate_restart_generation env i n k q p d = Inr (y, d')"
  shows "keeps_store d d'"
proof (cases "d' = d")
  case True
  then show ?thesis using assms(1) by (simp add: keeps_store_refl)
next
  case False
  then obtain j where run: "cas_turn env i n [Active]
      \<lparr>tv_state = None, tv_started_at = None,
       tv_rest = (\<lambda>t. t\<lparr>t_runtime_key := None, t_runtime_turn_id := None, t_native_turn_id := None,
         t_start_receipt_json := j\<rparr>)\<rparr> d = Inr (y, d')"
    using assms(2) by (auto simp: rotate_restart_generation_def Let_def split: option.splits if_splits)
  show ?thesis
    by (rule live_turn_keeps [OF assms(1) _ _ _ _ _ run])
      (auto simp: turn_frame_defs turn_start_ok_def start_written_def)
qed

lemma rebind_turn_keeps:
  assumes "store_ok d" and "cas_turn env i n [Active] (rebind_values t x x') d = Inr (y, d')"
  shows "keeps_store d d'"
  by (rule live_turn_keeps [OF assms(1) _ _ _ _ _ assms(2)])
    (auto simp: rebind_values_def turn_frame_defs turn_start_ok_def start_written_def)

lemma mark_start_unknown_keeps:
  assumes "store_ok d" and "mark_start_unknown env i n rc d = Inr (y, d')"
  shows "keeps_store d d'"
  by (rule live_turn_keeps [OF assms(1) _ _ _ _ _ assms(2) [unfolded mark_start_unknown_def]])
    (auto simp: turn_frame_defs turn_start_ok_def start_written_def)

lemma turn_rank_le: "turn_rank s \<le> 3"
  by (cases s) simp_all

lemma terminal_shape_of_check:
  assumes "turn_check t" and "t_state t = Terminal"
    and "t_control_mode t = None \<longrightarrow> t_control_successor_delivery_id t = None"
  shows "turn_shape t"
  using assms by (auto simp: turn_shape_def turn_check_def turn_start_ok_def ck_session_turns_terminal_shape_def
     ck_session_turns_outcomes_def)

lemma terminalize_turn_keeps:
  assumes "store_ok d" and "terminalize_turn env i oc sb ek ev d = Inr (y, d')"
  shows "keeps_store d d'"
proof (cases "d' = d")
  case True
  then show ?thesis using assms(1) by (simp add: keeps_store_refl)
next
  case False
  then obtain t settled e where t: "get_turn d i = Some t" "t_state t \<noteq> Terminal"
    and run: "cas_turn env i (t_version t) [t_state t] (terminal_values env t oc sb ek e) d = Inr (settled, d')"
    using assms(2) by (auto simp: terminalize_turn_def bind_result_eq_Inr split: if_splits option.splits)
  let ?v = "terminal_values env t oc sb ek e"
  have v: "tv_state ?v = Some Terminal" and frame: "turn_frame (tv_rest ?v)"
    by (simp_all add: terminal_values_def turn_frame_defs)
  show ?thesis
  proof (rule cas_turn_keeps [OF assms(1) turn_frame_id [OF frame] _ run])
    fix u assume u: "get_turn d i = Some u" "turn_shape u" "turn_check (updated_turn env ?v u)"
    then have "t_state u \<noteq> Terminal" using t by simp
    then have "turn_evolves u (updated_turn env ?v u)"
      using v by (intro turn_evolves_frame [OF frame]) (simp_all add: turn_rank_le)
    moreover have "turn_shape (updated_turn env ?v u)"
      using u v frame by (intro terminal_shape_of_check) (auto simp: turn_shape_def turn_frame_defs)
    ultimately show "turn_shape (updated_turn env ?v u) \<and> turn_evolves u (updated_turn env ?v u)" by simp
  qed
qed

text \<open>The unlinking of a cancelled replacement is the one write of the control slot.\<close>

lemma cancel_control_keeps:
  assumes "store_ok d" and p: "get_turn d (t_id p) = Some p"
    and run: "cas_turn env (t_id p) (t_version p) [t_state p]
      \<lparr>tv_state = None, tv_started_at = None, tv_rest = cancel_control_values p\<rparr> d = Inr (y, d')"
  shows "keeps_store d d'"
proof (rule cas_turn_keeps [OF assms(1) _ _ run])
  show "t_id (tv_rest \<lparr>tv_state = None, tv_started_at = None, tv_rest = cancel_control_values p\<rparr> t) = t_id t" for t
    by (simp add: cancel_control_values_def Let_def)
next
  let ?v = "\<lparr>tv_state = None, tv_started_at = None, tv_rest = cancel_control_values p\<rparr>"
  fix u assume "get_turn d (t_id p) = Some u" and u: "turn_shape u"
  then have "u = p" using p by simp
  have "turn_evolves u (updated_turn env ?v u)"
    by (simp add: turn_evolves_def cancel_control_values_def Let_def)
  moreover have "turn_start_ok (updated_turn env ?v u) = turn_start_ok u"
    by (simp add: turn_start_ok_def start_written_def start_unwritten_def cancel_control_values_def Let_def
      ck_session_turns_start_shape_def start_columns_def ck_session_turns_outcomes_def split: turn_state.splits)
  moreover have "ck_session_turns_control (updated_turn env ?v u)"
    using u \<open>u = p\<close> by (auto simp: turn_shape_def cancel_control_values_def Let_def ck_session_turns_control_def)
  ultimately show "turn_shape (updated_turn env ?v u) \<and> turn_evolves u (updated_turn env ?v u)"
    using u by (auto simp: turn_shape_def cancel_control_values_def Let_def)
qed

section \<open>Claiming and steering\<close>

lemma keeps_chain:
  assumes "keeps_store d e" and "store_ok e \<Longrightarrow> keeps_store e f"
  shows "keeps_store d f"
  using assms keeps_store_trans keeps_store_ok by blast

lemma claim_keeps:
  assumes "store_ok d" and "cas_delivery env i v [Reserved, Queued, InterruptWaiting] (claim_values t p o') ev d = Inr (y, d')"
  shows "keeps_store d d'"
  by (rule cas_delivery_keeps [OF assms(1) frame_ok_writes(1) _ _ _ assms(2)])
    (auto intro!: claim_values_shape)

lemma open_start_attempt_keeps:
  assumes "store_ok d" and "open_start_attempt env i v t a d = Inr (y, d')"
  shows "keeps_store d d'"
proof (cases "d' = d")
  case True
  then show ?thesis using assms(1) by (simp add: keeps_store_refl)
next
  case False
  then show ?thesis
    using assms
    by (auto simp: open_start_attempt_def Let_def bind_result_eq_Inr keeps_store_refl
        split: option.splits if_splits dest!: open_start_turn_keeps [OF assms(1)]
        intro: keeps_chain claim_keeps)
qed

lemma claim_start_batch_keeps:
  assumes "store_ok d" and "claim_start_batch env t s b rows txt a d = Inr (y, d')"
  shows "keeps_store d d'"
proof -
  obtain tn aid d1 claimed where i: "insert_turn env t s (d_id (hd rows)) Starting b (Some aid) (Some txt) None d = Inr (tn, d1)"
    and b: "batch ''Delivery batch claim lost after writer reservation'' (claim_one env t aid) (enumerate 0 rows) d1
      = Inr (claimed, d')"
    using assms(2) by (auto simp: claim_start_batch_def Let_def bind_result_eq_Inr split: list.splits)
  show ?thesis
  proof (rule keeps_chain)
    show "keeps_store d d1" by (rule insert_turn_keeps [OF assms(1) _ i]) simp
    show "keeps_store d1 d'" if "store_ok d1"
      by (rule batch_keeps [OF b that]) (auto simp: claim_one_def intro: claim_keeps)
  qed
qed

lemma activate_waiting_successor_keeps:
  assumes "store_ok d" and "activate_waiting_successor env t r d = Inr (y, d')"
  shows "keeps_store d d'"
proof (cases "d' = d")
  case True
  then show ?thesis using assms(1) by (simp add: keeps_store_refl)
next
  case False
  have claim: "keeps_store e e'"
    if "store_ok e" "cas_delivery env i v [InterruptWaiting] (\<lambda>r. r\<lparr>d_state := Claimed\<rparr>) ev e = Inr (z, e')" for e e' i v ev z
    by (rule cas_delivery_keeps [OF that(1) _ _ _ _ that(2)])
      (auto simp: row_ok_def delivery_shape_def no_attempt_def intro: snapshot_ok_same)
  show ?thesis
    using assms False
    by (auto simp: activate_waiting_successor_def Let_def bind_result_eq_Inr keeps_store_refl
        split: option.splits if_splits dest!: activate_turn_keeps [OF assms(1)]
        intro: keeps_chain claim)
qed

lemma open_steer_attempt_keeps:
  assumes "store_ok d" and "open_steer_attempt env i v t a n d = Inr (y, d')"
  shows "keeps_store d d'"
proof (cases "d' = d")
  case True
  then show ?thesis using assms(1) by (simp add: keeps_store_refl)
next
  case False
  then have run: "cas_delivery env i v [Reserved, Queued, PendingSteer]
        (\<lambda>r. r\<lparr>d_state := Steering, d_current_attempt_id := Some a,
               d_current_attempt_kind := Some ''steer'', d_current_target_turn_id := Some t,
               d_current_expected_native_turn_id := Some n,
               d_current_receipt_outcome := None, d_current_receipt_json := JDoc (JObj fmempty),
               d_current_attempt_opened_at := Some (utc_now_iso env)\<rparr>)
        (Some (jdict [(''kind'', JStr ''steer''), (''attempt_id'', JStr a), (''turn_id'', JStr t),
                     (''expected_native_turn_id'', JStr n), (''outcome'', JStr ''opened'')])) d = Inr (y, d')"
    using assms(2) by (simp add: open_steer_attempt_def split: if_splits)
  show ?thesis
    by (rule cas_delivery_keeps [OF assms(1) _ _ _ _ run])
      (auto simp: frame_ok_def row_ok_def delivery_shape_def attempt_open_def intro: snapshot_ok_same)
qed

lemma open_steer_attempt_batch_keeps:
  assumes "store_ok d" and "open_steer_attempt_batch env rows t a n d = Inr (y, d')"
  shows "keeps_store d d'"
  using assms unfolding open_steer_attempt_batch_def
  by (auto elim!: batch_keeps intro: open_steer_attempt_keeps)

lemma open_pending_steer_batch_keeps:
  assumes "store_ok d" and "open_pending_steer_batch env rows t a d = Inr (y, d')"
  shows "keeps_store d d'"
proof (rule batch_keeps [OF assms(2) [unfolded open_pending_steer_batch_def] assms(1)])
  fix x e z e'
  assume e: "store_ok e" and run: "cas_delivery env (d_id x) (d_version x) [Reserved, Queued]
        (\<lambda>r. r\<lparr>d_state := PendingSteer, d_current_attempt_id := Some a, d_current_attempt_kind := Some ''steer'',
           d_current_target_turn_id := Some t, d_current_expected_native_turn_id := None,
           d_current_receipt_outcome := None, d_current_receipt_json := JDoc (JObj fmempty),
           d_current_attempt_opened_at := Some (utc_now_iso env)\<rparr>)
        (Some (jdict [(''kind'', JStr ''steer''), (''attempt_id'', JStr a), (''turn_id'', JStr t),
           (''outcome'', JStr ''pending_native_identity'')])) e = Inr (z, e')"
  show "keeps_store e e'"
    by (rule cas_delivery_keeps [OF e _ _ _ _ run])
      (auto simp: frame_ok_def row_ok_def delivery_shape_def attempt_open_def intro: snapshot_ok_same)
qed

lemma rebind_restored_native_generation_keeps:
  assumes "store_ok d" and "rebind_restored_native_generation env i v x n d = Inr (y, d')"
  shows "keeps_store d d'"
proof (cases "d' = d")
  case True
  then show ?thesis using assms(1) by (simp add: keeps_store_refl)
next
  case False
  have step: "keeps_store e e'"
    if "d_state a \<in> {Steering, ReconcilingSteer}" "store_ok e" "rebind_delivery env i x n a e = Inr (z, e')" for a e e' z
    by (rule cas_delivery_keeps [OF that(2) _ _ _ _ that(3) [unfolded rebind_delivery_def]])
      (use that(1) in \<open>auto simp: frame_ok_def row_ok_def delivery_shape_def attempt_open_def intro: snapshot_ok_same\<close>)
  let ?rows = "\<lambda>e. rebind_attempts e i x"
  obtain t z d1 ys where turn: "cas_turn env i v [Active] (rebind_values t x n) d = Inr (z, d1)"
    and rest: "d' = d1 \<or> batch ''restored native generation lost a Delivery attempt CAS''
        (rebind_delivery env i x n) (?rows d1) d1 = Inr (ys, d')"
    using assms(2) False
    by (auto simp: rebind_restored_native_generation_def bind_result_eq_Inr split: option.splits if_splits)
  show ?thesis
  proof (rule keeps_chain [OF rebind_turn_keeps [OF assms(1) turn]])
    show "keeps_store d1 d'" if "store_ok d1"
      using rest
    proof
      assume "d' = d1"
      then show ?thesis using that by (simp add: keeps_store_refl)
    next
      assume "batch ''restored native generation lost a Delivery attempt CAS''
        (rebind_delivery env i x n) (?rows d1) d1 = Inr (ys, d')"
      then show ?thesis by (rule batch_keeps [OF _ that]) (auto simp: rebind_attempts_def intro: step)
    qed
  qed
qed

section \<open>Acceptance\<close>

lemma insert_message_keeps:
  assumes "store_ok d" and "insert_message env m sn now d = Inr d'"
  shows "keeps_store d d'"
proof (rule keeps_other_tables [OF assms(1)])
  show "message_table_ok (messages d')"
    using assms by (auto simp: insert_message_def insert_messages_def Let_def store_ok_def schema_ok_def split: option.splits if_splits)
qed (use assms(2) in \<open>auto simp: insert_message_def insert_messages_def Let_def split: option.splits if_splits\<close>)

lemma link_show_event_keeps: "store_ok d \<Longrightarrow> keeps_store d (link_show_event i m d)"
  by (rule keeps_other_tables) (simp_all add: link_show_event_def store_ok_def schema_ok_def)

lemma accept_row_keeps:
  assumes "store_ok d" and "accept_row env m r states f ev d = Inr (y, d')"
    and "\<And>e z. cas_delivery env (d_id r) (d_version r) states f (Some ev) d = Inr (z, e) \<Longrightarrow> keeps_store d e"
  shows "keeps_store d d'"
  using assms(2,3) by (auto simp: accept_row_def bind_result_eq_Inr intro: keeps_chain [OF _ link_show_event_keeps])

lemma accept_claimed_keeps:
  assumes "store_ok d" and "accept_row env m r [Claimed] (accept_values m now) ev d = Inr (y, d')"
  shows "keeps_store d d'"
proof (rule accept_row_keeps [OF assms])
  fix e z assume run: "cas_delivery env (d_id r) (d_version r) [Claimed] (accept_values m now) (Some ev) d = Inr (z, e)"
  show "keeps_store d e"
    by (rule cas_delivery_keeps [OF assms(1) _ _ _ _ run]) (auto intro: accept_claimed_shape)
qed

lemma accept_steer_cas_keeps:
  assumes "store_ok d" and "st \<notin> {Accepted, Retired}"
    and "cas_delivery env i v [st] (\<lambda>r. join_turn t ''steer'' p (accept_values m now r)) ev d = Inr (y, d')"
  shows "keeps_store d d'"
  by (rule cas_delivery_keeps [OF assms(1) _ _ _ _ assms(3)]) (use assms(2) in \<open>auto intro: accept_values_shape\<close>)

lemma materialize_start_acceptance_keeps:
  assumes "store_ok d" and "materialize_start_acceptance env t ev d = Inr (y, d')"
  shows "keeps_store d d'"
proof (cases "d' = d")
  case True
  then show ?thesis using assms(1) by (simp add: keeps_store_refl)
next
  case False
  then obtain tn sn d1 where i: "insert_message env (t_initial_delivery_id tn) sn (turn_now_iso env) d = Inr d1"
    and b: "batch ''initial Delivery materialization CAS lost'' (accept_initial env tn t ev (turn_now_iso env))
       (initial_deliveries_for_turn d t) d1 = Inr (y, d')"
    using assms(2)
    by (auto simp: materialize_start_acceptance_def Let_def bind_result_eq_Inr split: option.splits if_splits)
  show ?thesis
    by (rule keeps_chain [OF insert_message_keeps [OF assms(1) i] batch_keeps [OF b]])
      (auto simp: accept_initial_def intro: accept_claimed_keeps)
qed

text \<open>A Delivery that has a target Turn is neither accepted nor retired.\<close>

lemma targeted_state:
  assumes "row_ok r" and "d_current_target_turn_id r \<noteq> None"
  shows "d_state r \<in> {PendingSteer, Steering, ReconcilingSteer}"
  using assms by (auto simp: row_ok_def delivery_shape_def no_attempt_def split: if_splits)

lemma materialize_acceptance_keeps:
  assumes "store_ok d" and "t \<noteq> []" and "materialize_acceptance env i a t ev d = Inr (y, d')"
  shows "keeps_store d d'"
proof (cases "d' = d")
  case True
  then show ?thesis using assms(1) by (simp add: keeps_store_refl)
next
  case False
  then obtain r where r: "get_delivery d i = Some r" "d_state r \<noteq> Accepted" "opt_str (d_current_target_turn_id r) = t"
    using assms(3) by (auto simp: materialize_acceptance_def split: option.splits if_splits)
  then have st: "d_state r \<notin> {Accepted, Retired}"
    using targeted_state [OF store_ok_row [OF assms(1) r(1)]] assms(2)
    by (cases "d_current_target_turn_id r") auto
  obtain acc d1 sn where cas: "cas_delivery env i (d_version r) [d_state r]
      (\<lambda>x. join_turn t ''steer'' (next_turn_position d t) (accept_values i (turn_now_iso env) x))
      (Some (acceptance_event r t ev)) d = Inr (acc, d1)"
    and rest: "d' = d1 \<or> (\<exists>d2. insert_message env i sn (turn_now_iso env) d1 = Inr d2 \<and> d' = link_show_event i i d2)"
    using assms(3) False r
    by (simp add: materialize_acceptance_def Let_def bind_result_eq_Inr split: option.splits if_splits) blast+
  show ?thesis
  proof (rule keeps_chain [OF accept_steer_cas_keeps [OF assms(1) st cas]])
    assume ok: "store_ok d1"
    show "keeps_store d1 d'"
      using rest ok
      by (auto simp: keeps_store_refl intro: keeps_chain [OF insert_message_keeps [OF ok]] link_show_event_keeps)
  qed
qed

lemma materialize_steer_acceptance_keeps:
  assumes "store_ok d" and "materialize_steer_acceptance env i a t ev d = Inr (y, d')"
  shows "keeps_store d d'"
proof (cases "d' = d")
  case True
  then show ?thesis using assms(1) by (simp add: keeps_store_refl)
next
  case False
  let ?rows = "attempt_deliveries d a"
  obtain m sn d1 p where i: "insert_message env m sn (turn_now_iso env) d = Inr d1"
    and st: "\<forall>r\<in>set ?rows. d_state r \<in> {Steering, ReconcilingSteer}"
    and b: "batch ''steer Delivery batch materialization CAS lost''
      (accept_steered env m a t ev (turn_now_iso env) p) (enumerate 0 ?rows) d1 = Inr (y, d')"
    using assms(2) False
    by (auto simp: materialize_steer_acceptance_def Let_def bind_result_eq_Inr list_ex_iff split: option.splits if_splits)
  have step: "keeps_store e0 e'"
    if "(k, r) \<in> set (enumerate 0 ?rows)" and ok: "store_ok e0"
      and run: "accept_steered env m a t ev (turn_now_iso env) p (k, r) e0 = Inr (z, e')" for k r e0 z e'
  proof -
    have "r \<in> set ?rows" using that(1) by (auto simp: enumerate_eq_zip dest: set_zip_rightD)
    then have "d_state r \<notin> {Accepted, Retired}" using st by auto
    then show ?thesis
      using run accept_row_keeps [OF ok] accept_steer_cas_keeps [OF ok] by (auto simp: accept_steered_def)
  qed
  show ?thesis
    by (rule keeps_chain [OF insert_message_keeps [OF assms(1) i] batch_keeps [OF b]]) (auto intro: step)
qed

section \<open>Receipts\<close>

lemma receipt_values_shape:
  assumes "row_ok r" and "d_state r \<in> {Steering, ReconcilingSteer}" and "oc \<in> {''accepted'', ''unknown''}"
  shows "delivery_shape (receipt_values oc rc r)" and "snapshot_ok (receipt_values oc rc r)"
proof -
  show "delivery_shape (receipt_values oc rc r)"
    using assms by (auto simp: receipt_values_def row_ok_def delivery_shape_def attempt_open_def)
  show "snapshot_ok (receipt_values oc rc r)"
    using assms(1,2) by (auto simp: receipt_values_def row_ok_def intro: snapshot_ok_same)
qed

lemma mark_attempt_receipt_keeps:
  assumes "store_ok d" and "mark_attempt_receipt env i v oc rc d = Inr (y, d')"
  shows "keeps_store d d'"
proof (cases "d' = d")
  case True
  then show ?thesis using assms(1) by (simp add: keeps_store_refl)
next
  case False
  then obtain r e where oc: "oc \<in> {''accepted'', ''unknown''}"
    and run: "cas_delivery env i v (receipt_states r oc) (receipt_values oc rc) e d = Inr (y, d')"
    using assms(2) by (auto simp: mark_attempt_receipt_def split: option.splits if_splits)
  have st: "set (receipt_states r oc) \<subseteq> {Steering, ReconcilingSteer}" by (auto simp: receipt_states_def)
  show ?thesis
    by (rule cas_delivery_keeps [OF assms(1) _ _ _ _ run])
      (use oc st receipt_values_shape in \<open>auto simp: receipt_values_def frame_ok_def\<close>)
qed

lemma mark_attempt_receipt_batch_keeps:
  assumes "store_ok d" and "mark_attempt_receipt_batch env i oc rc d = Inr (y, d')"
  shows "keeps_store d d'"
proof (cases "d' = d")
  case True
  then show ?thesis using assms(1) by (simp add: keeps_store_refl)
next
  case False
  then obtain rows where b: "batch ''steer Delivery batch receipt persistence CAS lost'' (mark_one_receipt env oc rc) rows d
      = Inr (y, d')"
    using assms(2) by (auto simp: mark_attempt_receipt_batch_def Let_def split: option.splits if_splits)
  show ?thesis
    by (rule batch_keeps [OF b assms(1)])
      (auto simp: mark_one_receipt_def keeps_store_refl intro: mark_attempt_receipt_keeps split: if_splits)
qed

lemma definitive_values_shape:
  assumes "row_ok r" and "d_state r \<noteq> Accepted" and "next \<in> {Queued, Reserved, Retired}"
  shows "delivery_shape (definitive_values env next p None r)" and "snapshot_ok (definitive_values env next p None r)"
proof -
  have cols: "d_message_id r = None" "d_materialized_at r = None" "snapshot_ok r"
    using assms(1,2) by (simp_all add: row_ok_def delivery_shape_def)
  show "delivery_shape (definitive_values env next p None r)"
    using cols assms(3)
    by (cases p) (auto simp: definitive_values_def delivery_shape_def no_attempt_def write_defs Let_def)
  show "snapshot_ok (definitive_values env next p None r)"
    by (rule snapshot_ok_same [OF cols(3) _ _ assms(2)])
      (cases p; simp add: definitive_values_def write_defs Let_def)+
qed

lemma frame_ok_definitive: "frame_ok (definitive_values env next p t)"
  by (cases p) (simp_all add: frame_ok_def definitive_values_def write_defs Let_def)

lemma record_definitive_attempt_keeps:
  assumes "store_ok d" and "next \<in> {Queued, Reserved, Retired}" and "Accepted \<notin> set states" "Retired \<notin> set states"
    and "record_definitive_attempt env i v states oc next p None rc d = Inr (y, d')"
  shows "keeps_store d d'"
proof (cases "d' = d")
  case True
  then show ?thesis using assms(1) by (simp add: keeps_store_refl)
next
  case False
  then obtain e where run: "cas_delivery env i v states (definitive_values env next p None) e d = Inr (y, d')"
    using assms(5) by (auto simp: record_definitive_attempt_def Let_def split: option.splits)
  show ?thesis
    by (rule cas_delivery_keeps [OF assms(1) frame_ok_definitive assms(3,4) _ run])
      (use assms(2,3) in \<open>metis definitive_values_shape\<close>)
qed

section \<open>Retirement\<close>

lemma saved_eq_Inr: "saved m = Inr (b, d') \<longleftrightarrow> (\<exists>x. m = Inr (x, d') \<and> b = (x \<noteq> None))"
  by (auto simp: saved_def bind_result_eq_Inr)

lemma retire_cas_keeps:
  assumes "store_ok d" and "st \<in> {Reserved, Queued}"
    and "cas_delivery env i v [st] (retire_values env) ev d = Inr (y, d')"
  shows "keeps_store d d'"
  by (rule cas_delivery_keeps [OF assms(1) frame_ok_writes(3) _ _ _ assms(3)])
    (use assms(2) retire_values_shape in auto)

lemma withdraw_cas_keeps:
  assumes "store_ok d" and "st \<notin> {Accepted, Retired}"
    and "cas_delivery env i v [st] (withdraw_values env) ev d = Inr (y, d')"
  shows "keeps_store d d'"
  by (rule cas_delivery_keeps [OF assms(1) frame_ok_writes(4) _ _ _ assms(3)])
    (use assms(2) withdraw_values_shape in auto)

lemma retire_queued_keeps:
  assumes "store_ok d" and "retire_queued env s i d = Inr (y, d')"
  shows "keeps_store d d'"
  using assms by (auto simp: retire_queued_def saved_eq_Inr keeps_store_refl intro: retire_cas_keeps
      split: option.splits if_splits)

lemma retire_queued_for_resubmission_keeps:
  assumes "store_ok d" and "retire_queued_for_resubmission env s i k d = Inr (y, d')"
  shows "keeps_store d d'"
proof -
  have "keeps_store d d'"
    if "cas_delivery env i v [Queued] (\<lambda>r. (retire_values env r)\<lparr>d_dedupe_key := None\<rparr>) ev d = Inr (x, d')" for v ev x
    by (rule cas_delivery_keeps [OF assms(1) frame_ok_writes(8) _ _ _ that])
      (auto simp: row_ok_def delivery_shape_def no_attempt_def write_defs intro: snapshot_ok_same)
  then show ?thesis
    using assms by (auto simp: retire_queued_for_resubmission_def saved_eq_Inr keeps_store_refl
        split: option.splits if_splits)
qed

lemma retire_reserved_keeps:
  assumes "store_ok d" and "retire_reserved env s i why d = Inr (y, d')"
  shows "keeps_store d d'"
  using assms by (auto simp: retire_reserved_def saved_eq_Inr keeps_store_refl intro: retire_cas_keeps
      split: option.splits if_splits)

lemma cancel_retire_live: "run_cancel (policy_of st) = CancelRetire \<Longrightarrow> st \<notin> {Accepted, Retired}"
  by (cases st) (simp_all add: delivery_policy_def)

lemma retire_not_written_keeps:
  assumes "store_ok d" and "retire_not_written env s i why d = Inr (y, d')"
  shows "keeps_store d d'"
  using assms cancel_retire_live
  by (auto simp: retire_not_written_def saved_eq_Inr bind_result_eq_Inr keeps_store_refl
      intro: withdraw_cas_keeps split: option.splits if_splits)

lemma replacement_cas_keeps:
  assumes "store_ok d" and
    "cas_delivery env i v [InterruptWaiting] (\<lambda>r. clear_membership (retire_values env r)) ev d = Inr (y, d')"
  shows "keeps_store d d'"
  by (rule cas_delivery_keeps [OF assms(1) frame_ok_writes(6) _ _ _ assms(2)])
    (auto simp: row_ok_def delivery_shape_def no_attempt_def write_defs intro: snapshot_ok_same)

lemma one_SomeD: "one xs = Some x \<Longrightarrow> x \<in> set xs"
  by (cases xs) (auto simp: one_def)

lemma replacement_predecessor_row:
  assumes "schema_ok d" and "replacement_predecessor d s i t = Some p"
  shows "get_turn d (t_id p) = Some p"
  using one_SomeD [OF assms(2) [unfolded replacement_predecessor_def]]
  by (simp add: select_turns_def get_turn_iff [OF assms(1)])

lemma unlink_predecessor_keeps:
  assumes "store_ok d" and "\<And>p. q = Some p \<Longrightarrow> get_turn d (t_id p) = Some p" and "unlink_predecessor env q d = Inr (b, d')"
  shows "keeps_store d d'"
  using assms cancel_control_keeps [OF assms(1)]
  by (auto simp: unlink_predecessor_def bind_result_eq_Inr keeps_store_refl split: option.splits if_splits)

lemma cas_delivery_turns:
  assumes "schema_ok d" and "\<And>r. d_id (f r) = d_id r" and "cas_delivery env i v states f ev d = Inr (y, d')"
  shows "get_turn d' k = get_turn d k"
  using assms(1,2,3) by (rule cas_delivery_cases) auto

lemma retire_replacement_keeps:
  assumes "store_ok d" and "retire_replacement env s i d = Inr (y, d')"
  shows "keeps_store d d'"
proof (cases "d' = d")
  case True
  then show ?thesis using assms(1) by (simp add: keeps_store_refl)
next
  case False
  obtain v ev x d1 t where cas: "cas_delivery env i v [InterruptWaiting]
       (\<lambda>r. clear_membership (retire_values env r)) ev d = Inr (x, d1)"
    and rest: "unlink_predecessor env (replacement_predecessor d s i t) d1 = Inr (y, d')"
    using assms(2) False
    by (auto simp: retire_replacement_def Let_def bind_result_eq_Inr split: option.splits if_splits)
  have turns: "get_turn d1 k = get_turn d k" for k
    by (rule cas_delivery_turns [OF store_ok_schema [OF assms(1)] _ cas]) (simp add: write_defs)
  show ?thesis
    by (rule keeps_chain [OF replacement_cas_keeps [OF assms(1) cas] unlink_predecessor_keeps [OF _ _ rest]])
      (use turns replacement_predecessor_row [OF store_ok_schema [OF assms(1)]] in auto)
qed

lemma retire_for_run_cancellation_keeps:
  assumes "store_ok d" and "retire_for_run_cancellation env s i d = Inr (y, d')"
  shows "keeps_store d d'"
proof -
  obtain b d1 where first: "retire_not_written env s i ''agent_run_canceled_before_native_write'' d = Inr (b, d1)"
    and rest: "d' = d1 \<or> retire_replacement env s i d1 = Inr (y, d')"
    using assms(2) by (auto simp: retire_for_run_cancellation_def bind_result_eq_Inr split: if_splits)
  show ?thesis
    by (rule keeps_chain [OF retire_not_written_keeps [OF assms(1) first]])
      (use rest in \<open>auto simp: keeps_store_refl intro: retire_replacement_keeps\<close>)
qed

lemma run_cancel_retire_states_live: "st \<in> set RUN_CANCEL_RETIRE_STATES \<Longrightarrow> st \<notin> {Accepted, Retired}"
  by (cases st) (auto simp: RUN_CANCEL_RETIRE_STATES_def matrix_defs)

lemma retire_for_archive_keeps:
  assumes "store_ok d" and "retire_for_archive env s d = Inr (ids, d')"
  shows "keeps_store d d'"
proof -
  have "(\<lambda>acc. keeps_store d (snd acc)) (ids, d')"
  proof (rule fold_result_invariant [OF assms(2) [unfolded retire_for_archive_def]])
    show "keeps_store d (snd ([], d))" using assms(1) by (simp add: keeps_store_refl)
  next
    fix row acc acc'
    assume row: "row \<in> set (filter (\<lambda>r. d_session_id r = s \<and> d_state r \<in> set RUN_CANCEL_RETIRE_STATES) (deliveries d))"
      and acc: "keeps_store d (snd acc)" and run: "archive_step env row acc = Inr acc'"
    have st: "d_state row \<notin> {Accepted, Retired}" using row run_cancel_retire_states_live by simp
    obtain x where "cas_delivery env (d_id row) (d_version row) [d_state row] (withdraw_values env)
         (Some (retire_event ''session_archive'')) (snd acc) = Inr (x, snd acc')"
      using run by (auto simp: archive_step_def bind_result_eq_Inr)
    then show "keeps_store d (snd acc')"
      using acc keeps_chain withdraw_cas_keeps [OF _ st] by blast
  qed
  then show ?thesis by simp
qed

section \<open>Deduplication keys, replies and drafts\<close>

lemma rekey_row_ok: "row_ok (r\<lparr>d_dedupe_key := k\<rparr>) = row_ok r"
  by (simp add: row_ok_def delivery_shape_def no_attempt_def attempt_open_def history_ok_def events_of_def
      snapshot_ok_def verified_snapshot_def)

lemma rekey_evolves: "delivery_evolves r (r\<lparr>d_dedupe_key := k\<rparr>)"
  by (simp add: delivery_evolves_def events_of_def)

lemma rekey_keeps:
  assumes "store_ok d" and upd: "update_deliveries p (\<lambda>x. x\<lparr>d_dedupe_key := k\<rparr>) d = Inr (n, d')"
  shows "keeps_store d d'"
proof -
  let ?f = "\<lambda>x. x\<lparr>d_dedupe_key := k\<rparr>"
  have d': "d' = d\<lparr>deliveries := update_where p ?f (deliveries d)\<rparr>"
    and ok: "delivery_table_ok (update_where p ?f (deliveries d))"
    using upd by (auto simp: update_deliveries_def Let_def split: if_splits)
  have row: "row_of d_id (update_where p ?f rs) i = map_option (\<lambda>r. if p r then ?f r else r) (row_of d_id rs i)" for rs i
    by (induction rs) (auto simp: update_where_def)
  have "deliveries_evolve d d'"
    by (auto simp: deliveries_evolve_def get_delivery_def d' row rekey_evolves)
  moreover have "turns_evolve d d'" by (simp add: turns_evolve_def d' get_turn_def)
  moreover have "list_all row_ok (deliveries d')"
    using assms(1) by (auto simp: d' update_where_def list_all_iff store_ok_def rekey_row_ok)
  ultimately show ?thesis
    using assms(1) ok by (simp add: keeps_store_def store_ok_def store_evolves_def schema_ok_def d')
qed

lemma get_delivery_by_native_identity_keeps:
  assumes "store_ok d" and "get_delivery_by_native_identity pl nid sc se norm d = Inr (y, d')"
  shows "keeps_store d d'"
proof (cases "d' = d")
  case True
  then show ?thesis using assms(1) by (simp add: keeps_store_refl)
next
  case False
  then obtain p k n where "update_deliveries p (\<lambda>x. x\<lparr>d_dedupe_key := k\<rparr>) d = Inr (n, d')"
    using assms(2) by (auto simp: get_delivery_by_native_identity_def Let_def bind_result_eq_Inr
        split: option.splits if_splits)
  then show ?thesis by (rule rekey_keeps [OF assms(1)])
qed

lemma record_turn_reply_keeps: "store_ok d \<Longrightarrow> keeps_store d (snd (record_turn_reply env t x d))"
  by (rule keeps_other_tables) (simp_all add: record_turn_reply_def Let_def store_ok_def schema_ok_def)

lemma set_draft_keeps: "store_ok d \<Longrightarrow> keeps_store d (snd (set_draft env s x d))"
  by (rule keeps_other_tables) (simp_all add: set_draft_def Let_def store_ok_def schema_ok_def)

end
