(* ===== verification/DeliverySteps.thy ===== *)
theory DeliverySteps
  imports DeliveryInvariant
begin

text \<open>
  The Delivery store as a transition system: one rule per operation that writes, each a
  committed transaction of the controller. The last two rules are the writes that
  \<open>src/core/session_turns.py\<close> makes through \<open>cas_delivery\<close> and \<open>cas_turn\<close> directly (queueing a
  reservation, claiming the control slot of a Turn); they carry the contract those writes
  keep: the identity columns and digests stay, a finished row is not touched, and the row
  has the shape its state asks for.
\<close>

definition delivery_write_ok :: "delivery_state list \<Rightarrow> (delivery \<Rightarrow> delivery) \<Rightarrow> bool" where
  "delivery_write_ok states f \<longleftrightarrow> frame_ok f \<and> Accepted \<notin> set states \<and> Retired \<notin> set states
     \<and> (\<forall>r. row_ok r \<and> d_state r \<in> set states \<longrightarrow> delivery_shape (f r) \<and> snapshot_ok (f r))"

definition control_write_ok :: "(turn \<Rightarrow> turn) \<Rightarrow> bool" where
  "control_write_ok f \<longleftrightarrow> (\<forall>t. \<exists>cs cm ca ce co cj cd ct.
     f t = t\<lparr>t_control_state := cs, t_control_mode := cm, t_control_attempt_id := ca,
             t_control_expected_native_turn_id := ce, t_control_receipt_outcome := co,
             t_control_receipt_json := cj, t_control_successor_delivery_id := cd,
             t_control_successor_turn_id := ct\<rparr> \<and> (cm = None \<longrightarrow> cd = None))"

inductive store_step :: "db \<Rightarrow> db \<Rightarrow> bool" where
  submit: "st \<in> {Reserved, Queued} \<Longrightarrow>
     insert_delivery env (plain_input i s p st (message_snapshot m) txt key ev now) d = Inr (r, d') \<Longrightarrow> store_step d d'"
| enqueue: "enqueue_queued env m txt now d = Inr (p, d') \<Longrightarrow> store_step d d'"
| new_turn: "state \<noteq> Terminal \<Longrightarrow> insert_turn env i s del state b a txt now d = Inr (t, d') \<Longrightarrow> store_step d d'"
| open_start: "open_start_attempt env i v t a d = Inr (y, d') \<Longrightarrow> store_step d d'"
| claim_batch: "claim_start_batch env t s b rows txt ao d = Inr (y, d') \<Longrightarrow> store_step d d'"
| activate: "activate_waiting_successor env t r d = Inr (y, d') \<Longrightarrow> store_step d d'"
| open_steer: "open_steer_attempt env i v t a n d = Inr (y, d') \<Longrightarrow> store_step d d'"
| open_steer_batch: "open_steer_attempt_batch env rows t a n d = Inr (y, d') \<Longrightarrow> store_step d d'"
| open_pending_batch: "open_pending_steer_batch env rows t a d = Inr (y, d') \<Longrightarrow> store_step d d'"
| bind_start: "bind_native_start env i v rk rt nt ex d = Inr (y, d') \<Longrightarrow> store_step d d'"
| rotate: "rotate_restart_generation env i v k q p d = Inr (y, d') \<Longrightarrow> store_step d d'"
| rebind: "rebind_restored_native_generation env i v x n d = Inr (y, d') \<Longrightarrow> store_step d d'"
| start_unknown: "mark_start_unknown env i v rc d = Inr (y, d') \<Longrightarrow> store_step d d'"
| terminalize: "terminalize_turn env i oc sb ek ev d = Inr (y, d') \<Longrightarrow> store_step d d'"
| accept_start: "materialize_start_acceptance env t ev d = Inr (y, d') \<Longrightarrow> store_step d d'"
| accept_one: "t \<noteq> [] \<Longrightarrow> materialize_acceptance env i a t ev d = Inr (y, d') \<Longrightarrow> store_step d d'"
| accept_steer: "materialize_steer_acceptance env i a t ev d = Inr (y, d') \<Longrightarrow> store_step d d'"
| receipt: "mark_attempt_receipt env i v oc rc d = Inr (y, d') \<Longrightarrow> store_step d d'"
| receipt_batch: "mark_attempt_receipt_batch env i oc rc d = Inr (y, d') \<Longrightarrow> store_step d d'"
| definitive: "next \<in> {Queued, Reserved, Retired} \<Longrightarrow> Accepted \<notin> set states \<Longrightarrow> Retired \<notin> set states \<Longrightarrow>
     record_definitive_attempt env i v states oc next p None rco d = Inr (y, d') \<Longrightarrow> store_step d d'"
| remove_queued: "retire_queued env s i d = Inr (y, d') \<Longrightarrow> store_step d d'"
| resubmit: "retire_queued_for_resubmission env s i k d = Inr (y, d') \<Longrightarrow> store_step d d'"
| drop_reserved: "retire_reserved env s i why d = Inr (y, d') \<Longrightarrow> store_step d d'"
| drop_not_written: "retire_not_written env s i why d = Inr (y, d') \<Longrightarrow> store_step d d'"
| cancel_run: "retire_for_run_cancellation env s i d = Inr (y, d') \<Longrightarrow> store_step d d'"
| archive: "retire_for_archive env s d = Inr (y, d') \<Longrightarrow> store_step d d'"
| rekey: "get_delivery_by_native_identity pl nid sc se norm d = Inr (y, d') \<Longrightarrow> store_step d d'"
| reply: "record_turn_reply env t x d = (b, d') \<Longrightarrow> store_step d d'"
| draft: "set_draft env s x d = (b, d') \<Longrightarrow> store_step d d'"
| client_delivery: "delivery_write_ok states f \<Longrightarrow> cas_delivery env i v states f ev d = Inr (y, d') \<Longrightarrow> store_step d d'"
| client_control: "control_write_ok f \<Longrightarrow>
     cas_turn env i v states \<lparr>tv_state = None, tv_started_at = None, tv_rest = f\<rparr> d = Inr (y, d') \<Longrightarrow> store_step d d'"

lemma client_delivery_keeps:
  assumes "store_ok d" and "delivery_write_ok states f" and "cas_delivery env i v states f ev d = Inr (y, d')"
  shows "keeps_store d d'"
  by (rule cas_delivery_keeps [OF assms(1) _ _ _ _ assms(3)]) (use assms(2) in \<open>auto simp: delivery_write_ok_def\<close>)

lemma client_control_keeps:
  assumes "store_ok d" and f: "control_write_ok f"
    and run: "cas_turn env i v states \<lparr>tv_state = None, tv_started_at = None, tv_rest = f\<rparr> d = Inr (y, d')"
  shows "keeps_store d d'"
proof (rule cas_turn_keeps [OF assms(1) _ _ run])
  show "t_id (tv_rest \<lparr>tv_state = None, tv_started_at = None, tv_rest = f\<rparr> t) = t_id t" for t
    using f by (fastforce simp: control_write_ok_def dest: spec [of _ t])
next
  fix t
  let ?new = "updated_turn env \<lparr>tv_state = None, tv_started_at = None, tv_rest = f\<rparr> t"
  assume t: "turn_shape t" and check: "turn_check ?new"
  obtain cs cm ca ce co cj cd ct where ft: "f t = t\<lparr>t_control_state := cs, t_control_mode := cm,
      t_control_attempt_id := ca, t_control_expected_native_turn_id := ce, t_control_receipt_outcome := co,
      t_control_receipt_json := cj, t_control_successor_delivery_id := cd, t_control_successor_turn_id := ct\<rparr>"
    and mode: "cm = None \<longrightarrow> cd = None"
    using f [unfolded control_write_ok_def, rule_format, of t] by blast
  have "turn_evolves t ?new" by (simp add: turn_evolves_def ft)
  moreover have "turn_start_ok ?new = turn_start_ok t"
    by (simp add: turn_start_ok_def start_written_def start_unwritten_def ft
        ck_session_turns_start_shape_def start_columns_def ck_session_turns_outcomes_def split: turn_state.splits)
  moreover have "ck_session_turns_control ?new" using check by (simp add: turn_check_def)
  ultimately show "turn_shape ?new \<and> turn_evolves t ?new"
    using t mode by (auto simp: turn_shape_def ft split: if_splits)
qed

lemmas operation_keeps = submit_keeps enqueue_queued_keeps insert_turn_keeps open_start_attempt_keeps
  claim_start_batch_keeps activate_waiting_successor_keeps open_steer_attempt_keeps
  open_steer_attempt_batch_keeps open_pending_steer_batch_keeps bind_native_start_keeps
  rotate_restart_generation_keeps rebind_restored_native_generation_keeps mark_start_unknown_keeps
  terminalize_turn_keeps materialize_start_acceptance_keeps materialize_acceptance_keeps
  materialize_steer_acceptance_keeps mark_attempt_receipt_keeps mark_attempt_receipt_batch_keeps
  record_definitive_attempt_keeps retire_queued_keeps retire_queued_for_resubmission_keeps
  retire_reserved_keeps retire_not_written_keeps retire_for_run_cancellation_keeps
  retire_for_archive_keeps get_delivery_by_native_identity_keeps client_delivery_keeps client_control_keeps

lemma store_step_keeps:
  assumes "store_step d d'" and "store_ok d"
  shows "keeps_store d d'"
  using assms
proof (induction rule: store_step.induct)
  case (reply env t x d b d')
  then show ?case using record_turn_reply_keeps [of d env t x] by simp
next
  case (draft env s x d b d')
  then show ?case using set_draft_keeps [of d env s x] by simp
qed (rule operation_keeps; assumption)+

interpretation store: evolving_system store_step store_ok store_evolves
  by unfold_locales (auto simp: keeps_store_def dest: store_step_keeps intro: store_evolves_trans)

definition empty_db :: db where
  "empty_db = \<lparr>deliveries = [], turns = [], messages = [], replies = [], show_events = [], runs = [], sessions = []\<rparr>"

lemma empty_db_ok: "store_ok empty_db"
  by (simp add: store_ok_def schema_ok_def empty_db_def delivery_table_ok_def delivery_uniques_def turn_table_ok_def
      turn_uniques_def message_table_ok_def message_uniques_def unique_where_def)

end
