(* ===== verification/DeliveryBehaviour.thy ===== *)
theory DeliveryBehaviour
  imports DeliverySteps
begin

text \<open>
  What the operations of the Delivery store return: when a write must succeed (no constraint
  of the schema can refuse it), what a batch claim leaves behind, that materializing an
  accepted start twice changes nothing, the order of the queue, and what an archive retires.
\<close>

section \<open>Writes the schema cannot refuse\<close>

lemma deliveries_put:
  "deliveries (put_delivery new d) = update_where (\<lambda>r. d_id r = d_id new) (\<lambda>_. new) (deliveries d)"
  by (simp add: put_delivery_def)

lemma delivery_uniques_put:
  assumes "schema_ok d" and "get_delivery d (d_id new) = Some r"
    and "d_dedupe_key new \<in> {d_dedupe_key r, None}"
    and "(d_turn_id new, d_turn_position new) = (d_turn_id r, d_turn_position r)
      \<or> d_turn_id new = None
      \<or> (\<forall>x\<in>set (deliveries d). (d_turn_id x, d_turn_position x) \<noteq> (d_turn_id new, d_turn_position new))"
  shows "delivery_uniques (deliveries (put_delivery new d))"
proof -
  have u: "distinct (map d_id (deliveries d))"
    "unique_where (\<lambda>r. d_dedupe_key r \<noteq> None) d_dedupe_key (deliveries d)"
    "unique_where (\<lambda>r. d_turn_id r \<noteq> None \<and> d_turn_position r \<noteq> None) (\<lambda>r. (d_turn_id r, d_turn_position r)) (deliveries d)"
    using assms(1) by (auto simp: schema_ok_def delivery_table_ok_def delivery_uniques_def)
  have r: "r \<in> set (deliveries d)" "d_id r = d_id new"
    using assms(2) get_delivery_iff [OF assms(1)] by auto
  have "unique_where (\<lambda>r. d_dedupe_key r \<noteq> None) d_dedupe_key (deliveries (put_delivery new d))"
    unfolding deliveries_put
    by (rule unique_where_replace [OF u(1,2)])
      (use assms(3) r unique_whereD [OF u(2) r(1)] in \<open>simp, metis option.distinct(1)\<close>)
  moreover have "unique_where (\<lambda>r. d_turn_id r \<noteq> None \<and> d_turn_position r \<noteq> None)
      (\<lambda>r. (d_turn_id r, d_turn_position r)) (deliveries (put_delivery new d))"
    unfolding deliveries_put
    by (rule unique_where_replace [OF u(1,3)])
      (use assms(4) r unique_whereD [OF u(3) r(1)] in \<open>simp, metis option.distinct(1)\<close>)
  ultimately show ?thesis using u(1) by (simp add: delivery_uniques_def map_d_id_put)
qed

lemma delivery_table_ok_put:
  assumes "store_ok d" and "get_delivery d (d_id new) = Some r" and "row_ok new"
    and "d_dedupe_key new \<in> {d_dedupe_key r, None}"
    and "(d_turn_id new, d_turn_position new) = (d_turn_id r, d_turn_position r)
      \<or> d_turn_id new = None
      \<or> (\<forall>x\<in>set (deliveries d). (d_turn_id x, d_turn_position x) \<noteq> (d_turn_id new, d_turn_position new))"
  shows "delivery_table_ok (deliveries (put_delivery new d))"
proof -
  have "list_all delivery_check (deliveries d)"
    using store_ok_schema [OF assms(1)] by (simp add: schema_ok_def delivery_table_ok_def)
  then have "list_all delivery_check (deliveries (put_delivery new d))"
    using row_ok_check [OF assms(3)] by (simp add: put_delivery_def list_all_replace)
  then show ?thesis
    using delivery_uniques_put [OF store_ok_schema [OF assms(1)] assms(2,4,5)] by (simp add: delivery_table_ok_def)
qed

lemma cas_delivery_succeeds:
  assumes ok: "store_ok d" and frame: "frame_ok f" and r: "get_delivery d i = Some r"
    and "d_version r = v" "d_state r \<in> set states"
    and shape: "delivery_shape (f r)" "snapshot_ok (f r)"
    and key: "d_dedupe_key (f r) \<in> {d_dedupe_key r, None}"
    and place: "(d_turn_id (f r), d_turn_position (f r)) = (d_turn_id r, d_turn_position r)
      \<or> d_turn_id (f r) = None
      \<or> (\<forall>x\<in>set (deliveries d). (d_turn_id x, d_turn_position x) \<noteq> (d_turn_id (f r), d_turn_position (f r)))"
  shows "cas_delivery env i v states f ev d =
    Inr (Some (updated_delivery env f ev r), put_delivery (updated_delivery env f ev r) d)"
proof -
  have id: "d_id (f x) = d_id x" for x using frame by (rule frame_ok_id)
  have "delivery_table_ok (deliveries (put_delivery (updated_delivery env f ev r) d))"
    by (rule delivery_table_ok_put [OF ok])
      (use r id get_delivery_d_id [OF r] key place row_ok_update [OF frame store_ok_row [OF ok r] shape] in auto)
  then show ?thesis using assms(4,5) r cas_delivery_eq [OF store_ok_schema [OF ok] id] by simp
qed

text \<open>A position handed out by \<open>next_turn_position\<close> is taken by no row of that Turn.\<close>

lemma fold_max_start: "q \<le> fold max ps (q::int)"
  by (induction ps arbitrary: q) (auto intro: order_trans [OF max.cobounded2])

lemma fold_max_ge: "p \<in> set (q # ps) \<Longrightarrow> p \<le> fold max ps (q::int)"
proof (induction ps arbitrary: q)
  case (Cons a ps)
  have "max a q \<le> fold max ps (max a q)" by (rule fold_max_start)
  then show ?case using Cons by fastforce
qed simp

lemma next_turn_position_fresh:
  assumes "x \<in> set (deliveries d)" and "d_turn_id x = Some t" and "d_turn_position x = Some p"
  shows "p < next_turn_position d t"
proof -
  let ?ps = "[p. r \<leftarrow> deliveries d, d_turn_id r = Some t, p \<leftarrow> (case d_turn_position r of None \<Rightarrow> [] | Some q \<Rightarrow> [q])]"
  have "p \<in> set ?ps" using assms by force
  then obtain q qs where "?ps = q # qs" "p \<in> set (q # qs)" by (cases ?ps) auto
  then show ?thesis using fold_max_ge [of p q qs] by (simp add: next_turn_position_def)
qed

lemma next_turn_position_free:
  "\<forall>x\<in>set (deliveries d). (d_turn_id x, d_turn_position x) \<noteq> (Some t, Some (next_turn_position d t))"
  using next_turn_position_fresh by fastforce

definition same_place :: "delivery \<Rightarrow> delivery \<Rightarrow> bool" where
  "same_place r r' \<longleftrightarrow> d_dedupe_key r' \<in> {d_dedupe_key r, None}
     \<and> (d_turn_id r' = None \<or> (d_turn_id r', d_turn_position r') = (d_turn_id r, d_turn_position r))"

lemma cas_delivery_total:
  assumes ok: "store_ok d" and frame: "frame_ok f"
    and good: "\<And>r. get_delivery d i = Some r \<Longrightarrow> row_ok r \<Longrightarrow> d_state r \<in> set states \<Longrightarrow>
      delivery_shape (f r) \<and> snapshot_ok (f r) \<and> same_place r (f r)"
  shows "\<exists>y d'. cas_delivery env i v states f ev d = Inr (y, d')"
proof (cases "\<exists>r. get_delivery d i = Some r \<and> d_version r = v \<and> d_state r \<in> set states")
  case True
  then obtain r where r: "get_delivery d i = Some r" "d_version r = v" "d_state r \<in> set states" by blast
  have "delivery_shape (f r) \<and> snapshot_ok (f r) \<and> same_place r (f r)"
    using good [OF r(1) store_ok_row [OF ok r(1)] r(3)] .
  then show ?thesis
    using cas_delivery_succeeds [OF ok frame r, of env ev] by (auto simp: same_place_def)
next
  case False
  then show ?thesis
    using cas_delivery_eq [OF store_ok_schema [OF ok] frame_ok_id [OF frame]] by (auto split: option.splits)
qed

lemma same_place_writes:
  "same_place r (retire_values env r)" "same_place r (withdraw_values env r)"
  "same_place r ((retire_values env r)\<lparr>d_dedupe_key := None\<rparr>)" "same_place r (receipt_values oc rc r)"
  by (simp_all add: same_place_def write_defs receipt_values_def)

lemma withdraw_cas_total:
  assumes "store_ok d" and "st \<noteq> Accepted"
  shows "\<exists>y d'. cas_delivery env i v [st] (withdraw_values env) ev d = Inr (y, d')"
  by (rule cas_delivery_total [OF assms(1) frame_ok_writes(4)])
    (use assms(2) withdraw_values_shape same_place_writes in auto)

lemma retire_cas_total:
  assumes "store_ok d" and "st \<in> {Reserved, Queued}"
  shows "\<exists>y d'. cas_delivery env i v [st] (retire_values env) ev d = Inr (y, d')"
  by (rule cas_delivery_total [OF assms(1) frame_ok_writes(3)])
    (use assms(2) retire_values_shape same_place_writes in auto)

lemma saved_total: "\<exists>y d'. m = Inr (y, d') \<Longrightarrow> \<exists>b d'. saved m = Inr (b, d')"
  by (auto simp: saved_eq_Inr)

lemma retire_queued_total:
  assumes "store_ok d"
  shows "\<exists>b d'. retire_queued env s i d = Inr (b, d')"
  using saved_total [OF retire_cas_total [OF assms]]
  by (auto simp: retire_queued_def split: option.split)

lemma retire_reserved_total:
  assumes "store_ok d"
  shows "\<exists>b d'. retire_reserved env s i why d = Inr (b, d')"
  using saved_total [OF retire_cas_total [OF assms]]
  by (auto simp: retire_reserved_def split: option.split)

lemma retire_queued_for_resubmission_total:
  assumes "store_ok d"
  shows "\<exists>b d'. retire_queued_for_resubmission env s i k d = Inr (b, d')"
proof -
  have "\<exists>y d'. cas_delivery env i v [Queued] (\<lambda>r. (retire_values env r)\<lparr>d_dedupe_key := None\<rparr>) ev d = Inr (y, d')" for v ev
    by (rule cas_delivery_total [OF assms frame_ok_writes(8)])
      (auto simp: row_ok_def delivery_shape_def no_attempt_def write_defs same_place_def intro: snapshot_ok_same)
  then show ?thesis
    using saved_total by (auto simp: retire_queued_for_resubmission_def split: option.split)
qed

lemma retire_not_written_total:
  assumes "store_ok d"
  shows "\<exists>b d'. retire_not_written env s i why d = Inr (b, d')"
  using saved_total [OF withdraw_cas_total [OF assms]] cancel_retire_live
  by (auto simp: retire_not_written_def split: option.split)

lemma open_steer_attempt_total:
  assumes "store_ok d"
  shows "\<exists>y d'. open_steer_attempt env i v t a n d = Inr (y, d')"
proof -
  have "\<exists>y d'. cas_delivery env i v [Reserved, Queued, PendingSteer]
        (\<lambda>r. r\<lparr>d_state := Steering, d_current_attempt_id := Some a,
               d_current_attempt_kind := Some ''steer'', d_current_target_turn_id := Some t,
               d_current_expected_native_turn_id := Some n,
               d_current_receipt_outcome := None, d_current_receipt_json := JDoc (JObj fmempty),
               d_current_attempt_opened_at := Some (utc_now_iso env)\<rparr>) ev d = Inr (y, d')" for ev
    by (rule cas_delivery_total [OF assms])
      (auto simp: frame_ok_def row_ok_def delivery_shape_def attempt_open_def same_place_def intro: snapshot_ok_same)
  then show ?thesis by (auto simp: open_steer_attempt_def)
qed

lemma mark_attempt_receipt_total:
  assumes "store_ok d" and "oc \<in> {''accepted'', ''unknown''}"
  shows "\<exists>y d'. mark_attempt_receipt env i v oc rc d = Inr (y, d')"
proof -
  have "\<exists>y d'. cas_delivery env i v (receipt_states r oc) (receipt_values oc rc) ev d = Inr (y, d')" for r ev
  proof (rule cas_delivery_total [OF assms(1)])
    show "frame_ok (receipt_values oc rc)" by (simp add: frame_ok_def receipt_values_def)
    fix x assume "row_ok x" "d_state x \<in> set (receipt_states r oc)"
    then show "delivery_shape (receipt_values oc rc x) \<and> snapshot_ok (receipt_values oc rc x)
        \<and> same_place x (receipt_values oc rc x)"
      using receipt_values_shape assms(2) same_place_writes by (auto simp: receipt_states_def split: if_splits)
  qed
  then show ?thesis using assms(2) by (auto simp: mark_attempt_receipt_def split: option.split)
qed

section \<open>Archiving\<close>

abbreviation archived :: "env \<Rightarrow> delivery \<Rightarrow> delivery" where
  "archived env r \<equiv> updated_delivery env (withdraw_values env) (Some (retire_event ''session_archive'')) r"

lemma withdraw_id [simp]: "d_id (withdraw_values env r) = d_id r"
  by (simp add: write_defs)

lemma archive_fold:
  assumes "store_ok d" and "distinct (map d_id rows)"
    and "\<forall>r\<in>set rows. get_delivery d (d_id r) = Some r \<and> d_state r \<notin> {Accepted, Retired}"
  shows "\<exists>d'. fold_result (archive_step env) rows (ids, d) = Inr (ids @ map d_id rows, d')
    \<and> (\<forall>i. get_delivery d' i =
        (case row_of d_id rows i of None \<Rightarrow> get_delivery d i | Some r \<Rightarrow> Some (archived env r)))"
  using assms
proof (induction rows arbitrary: d ids)
  case Nil
  then show ?case by simp
next
  case (Cons r rows)
  let ?new = "archived env r"
  have r: "get_delivery d (d_id r) = Some r" and st: "d_state r \<noteq> Accepted" "d_state r \<noteq> Retired"
    using Cons.prems(3) by auto
  have cas: "cas_delivery env (d_id r) (d_version r) [d_state r] (withdraw_values env)
      (Some (retire_event ''session_archive'')) d = Inr (Some ?new, put_delivery ?new d)"
    using withdraw_values_shape [OF store_ok_row [OF Cons.prems(1) r] st(1)]
    by (intro cas_delivery_succeeds [OF Cons.prems(1) frame_ok_writes(4) r]) (simp_all add: write_defs)
  have ok: "store_ok (put_delivery ?new d)"
    using withdraw_cas_keeps [OF Cons.prems(1) _ cas] st keeps_store_ok by blast
  have get: "get_delivery (put_delivery ?new d) i = (if i = d_id r then Some ?new else get_delivery d i)" for i
    using get_delivery_put [of d ?new i] r by simp
  have fresh: "d_id x \<noteq> d_id r" if "x \<in> set rows" for x using that Cons.prems(2) by (metis distinct.simps(2) image_eqI list.simps(9) set_map)
  obtain d' where d': "fold_result (archive_step env) rows (ids @ [d_id r], put_delivery ?new d)
        = Inr ((ids @ [d_id r]) @ map d_id rows, d')"
    and rest: "\<forall>i. get_delivery d' i = (case row_of d_id rows i of
        None \<Rightarrow> get_delivery (put_delivery ?new d) i | Some r \<Rightarrow> Some (archived env r))"
    using Cons.IH [OF ok, of "ids @ [d_id r]"] Cons.prems(2,3) fresh get by auto
  have "row_of d_id rows (d_id r) = None"
    using fresh by (fastforce simp: row_of_None_iff)
  then have "get_delivery d' i = (case row_of d_id (r # rows) i of
      None \<Rightarrow> get_delivery d i | Some r \<Rightarrow> Some (archived env r))" for i
    using rest get by (auto split: option.splits)
  moreover have "archive_step env r (ids, d) = Inr (ids @ [d_id r], put_delivery ?new d)"
    using cas by (simp add: archive_step_def)
  ultimately show ?case using d' by (intro exI [of _ d']) simp
qed

text \<open>The Deliveries of a Session that an archive may withdraw.\<close>

definition retirable :: "string \<Rightarrow> delivery \<Rightarrow> bool" where
  "retirable s r \<longleftrightarrow> d_session_id r = s \<and> d_state r \<in> set RUN_CANCEL_RETIRE_STATES"

lemma retire_for_archive_exact:
  assumes "store_ok d"
  shows "\<exists>d'. retire_for_archive env s d = Inr (map d_id (filter (retirable s) (deliveries d)), d')
    \<and> (\<forall>i r. get_delivery d i = Some r \<longrightarrow> get_delivery d' i = Some (if retirable s r then archived env r else r))"
proof -
  let ?rows = "filter (retirable s) (deliveries d)"
  have dist: "distinct (map d_id (deliveries d))" by (rule schema_ok_distinct [OF store_ok_schema [OF assms(1)]])
  then have dist': "distinct (map d_id ?rows)" by (rule distinct_map_filter)
  have get: "get_delivery d i = Some r \<longleftrightarrow> r \<in> set (deliveries d) \<and> d_id r = i" for i r
    by (rule get_delivery_iff [OF store_ok_schema [OF assms(1)]])
  have live: "\<forall>r\<in>set ?rows. get_delivery d (d_id r) = Some r \<and> d_state r \<notin> {Accepted, Retired}"
    using run_cancel_retire_states_live get by (auto simp: retirable_def)
  obtain d' where d': "fold_result (archive_step env) ?rows ([], d) = Inr ([] @ map d_id ?rows, d')"
    and rest: "\<forall>i. get_delivery d' i = (case row_of d_id ?rows i of
        None \<Rightarrow> get_delivery d i | Some r \<Rightarrow> Some (archived env r))"
    using archive_fold [OF assms(1) dist' live, of env "[]"] by blast
  have "get_delivery d' i = Some (if retirable s r then archived env r else r)" if "get_delivery d i = Some r" for i r
  proof -
    have "row_of d_id ?rows i = (if retirable s r then Some r else None)"
    proof (cases "retirable s r")
      case False
      then have "x = r" if "x \<in> set ?rows" "d_id x = i" for x
        using that \<open>get_delivery d i = Some r\<close> get by (metis filter_is_subset option.inject subsetD)
      then show ?thesis using False by (fastforce simp: row_of_None_iff)
    qed (use that get row_of_eq_Some_iff [OF dist'] in simp)
    then show ?thesis using rest that by simp
  qed
  then show ?thesis using d' unfolding retire_for_archive_def retirable_def by auto
qed

section \<open>Claiming a batch\<close>

definition claimed_at :: "string \<Rightarrow> nat \<Rightarrow> delivery \<Rightarrow> bool" where
  "claimed_at t k r \<longleftrightarrow> d_state r = Claimed \<and> d_turn_id r = Some t \<and> d_turn_role r = Some ''initial''
     \<and> d_turn_position r = Some (int k)"

lemma batch_step_eq_Inr:
  "batch_step lost f x acc = Inr res \<longleftrightarrow> (\<exists>y d'. f x (snd acc) = Inr (Some y, d') \<and> res = (fst acc @ [y], d'))"
  by (auto simp: batch_step_def bind_result_eq_Inr split: option.splits)

lemma claim_one_saved:
  assumes "schema_ok d" and "claim_one env t a (k, row) d = Inr (Some y, d')"
  shows "schema_ok d'" and "get_delivery d' (d_id row) = Some y" and "claimed_at t k y"
    and "\<And>i x. get_delivery d i = Some x \<Longrightarrow> d_state x = Claimed \<Longrightarrow> get_delivery d' i = Some x"
    and "\<And>i. i \<noteq> d_id row \<Longrightarrow> get_delivery d' i = get_delivery d i"
    and "turns d' = turns d"
proof -
  let ?f = "claim_values t (int k) None"
  have id: "d_id (?f r) = d_id r" for r by (simp add: write_defs)
  obtain ev where cas: "cas_delivery env (d_id row) (d_version row) [Reserved, Queued, InterruptWaiting] ?f ev d = Inr (Some y, d')"
    using assms(2) by (auto simp: claim_one_def)
  then obtain r where r: "get_delivery d (d_id row) = Some r" "d_state r \<in> {Reserved, Queued, InterruptWaiting}"
    and y: "y = updated_delivery env ?f ev r" and d': "d' = put_delivery y d" "schema_ok d'"
    by (rule cas_delivery_cases [OF assms(1) id]) auto
  have get: "get_delivery d' i = (if i = d_id row then Some y else get_delivery d i)" for i
    using get_delivery_put_updated [OF r(1), of ?f env _ _ ev i] id d'(1) y by simp
  show "schema_ok d'" by (rule d'(2))
  show "get_delivery d' (d_id row) = Some y" by (simp add: get)
  show "claimed_at t k y" by (simp add: claimed_at_def y write_defs)
  show "get_delivery d' i = get_delivery d i" if "i \<noteq> d_id row" for i using that by (simp add: get)
  show "get_delivery d' i = Some x" if "get_delivery d i = Some x" "d_state x = Claimed" for i x
    using that r get by auto
  show "turns d' = turns d" using d'(1) by simp
qed

lemma claim_loop:
  assumes "schema_ok d"
    and "fold_result (batch_step lost (claim_one env t a)) xs (acc, d) = Inr (rows, d')"
  shows "\<exists>ys. rows = acc @ ys \<and> length ys = length xs
    \<and> (\<forall>j<length xs. get_delivery d' (d_id (snd (xs ! j))) = Some (ys ! j) \<and> claimed_at t (fst (xs ! j)) (ys ! j))
    \<and> (\<forall>i x. get_delivery d i = Some x \<and> d_state x = Claimed \<longrightarrow> get_delivery d' i = Some x)
    \<and> turns d' = turns d"
  using assms
proof (induction xs arbitrary: acc d)
  case Nil
  then show ?case by simp
next
  case (Cons x xs)
  obtain k row where x: "x = (k, row)" by (cases x)
  obtain y d1 where one: "claim_one env t a (k, row) d = Inr (Some y, d1)"
    and rest: "fold_result (batch_step lost (claim_one env t a)) xs (acc @ [y], d1) = Inr (rows, d')"
    using Cons.prems(2) x by (auto simp: batch_step_eq_Inr bind_result_eq_Inr)
  note saved = claim_one_saved [OF Cons.prems(1) one]
  obtain ys where ys: "rows = (acc @ [y]) @ ys" "length ys = length xs"
    and each: "\<forall>j<length xs. get_delivery d' (d_id (snd (xs ! j))) = Some (ys ! j) \<and> claimed_at t (fst (xs ! j)) (ys ! j)"
    and kept: "\<forall>i x. get_delivery d1 i = Some x \<and> d_state x = Claimed \<longrightarrow> get_delivery d' i = Some x"
    and turns: "turns d' = turns d1"
    using Cons.IH [OF saved(1) rest] by blast
  have "d_state y = Claimed" using saved(3) by (simp add: claimed_at_def)
  then have "get_delivery d' (d_id row) = Some y" using kept saved(2) by blast
  then have "\<forall>j<length (x # xs). get_delivery d' (d_id (snd ((x # xs) ! j))) = Some ((y # ys) ! j)
      \<and> claimed_at t (fst ((x # xs) ! j)) ((y # ys) ! j)"
    using each saved(3) x by (auto simp: nth_Cons split: nat.splits)
  moreover have "\<forall>i x. get_delivery d i = Some x \<and> d_state x = Claimed \<longrightarrow> get_delivery d' i = Some x"
    using kept saved(4) by blast
  ultimately show ?case using ys turns saved(6) by (intro exI [of _ "y # ys"]) simp
qed

lemma insert_turns_Inr:
  assumes "insert_turns t d = Inr d'" and "schema_ok d"
  shows "schema_ok d'" and "deliveries d' = deliveries d" and "get_turn d' (t_id t) = Some t"
proof -
  have d': "d' = d\<lparr>turns := turns d @ [t]\<rparr>" and ok: "turn_table_ok (turns d @ [t])"
    using assms(1) by (auto simp: insert_turns_def Let_def split: if_splits)
  show "schema_ok d'" using assms(2) ok d' by (simp add: schema_ok_def)
  then show "get_turn d' (t_id t) = Some t" by (simp add: get_turn_iff d')
  show "deliveries d' = deliveries d" by (simp add: d')
qed

lemma turn_row_selectors [simp]:
  "t_id (turn_row env i s del state b a txt now d) = i"
  "t_session_id (turn_row env i s del state b a txt now d) = s"
  "t_initial_delivery_id (turn_row env i s del state b a txt now d) = del"
  "t_state (turn_row env i s del state b a txt now d) = state"
  by (simp_all add: turn_row_def Let_def)

lemma claim_start_batch_claims:
  assumes "schema_ok d" and "claim_start_batch env t s b rows txt a d = Inr ((tn, claimed), d')"
  shows "get_turn d' t = Some tn" and "t_state tn = Starting" and "t_session_id tn = s"
    and "t_initial_delivery_id tn = d_id (hd rows)" and "rows \<noteq> []" and "length claimed = length rows"
    and "\<forall>k<length rows. get_delivery d' (d_id (rows ! k)) = Some (claimed ! k) \<and> claimed_at t k (claimed ! k)"
proof -
  obtain aid d1 where rows: "rows \<noteq> []"
    and i: "insert_turn env t s (d_id (hd rows)) Starting b (Some aid) (Some txt) None d = Inr (tn, d1)"
    and b: "batch ''Delivery batch claim lost after writer reservation'' (claim_one env t aid) (enumerate 0 rows) d1
      = Inr (claimed, d')"
    using assms(2) by (auto simp: claim_start_batch_def Let_def bind_result_eq_Inr split: list.splits)
  show "rows \<noteq> []" by (rule rows)
  have tn: "t_id tn = t" "t_state tn = Starting" "t_session_id tn = s" "t_initial_delivery_id tn = d_id (hd rows)"
    and ins: "insert_turns tn d = Inr d1"
    using i by (auto simp: insert_turn_eq_Inr)
  note inserted = insert_turns_Inr [OF ins assms(1)]
  obtain ys where ys: "claimed = [] @ ys" "length ys = length (enumerate 0 rows)"
    and each: "\<forall>j<length (enumerate 0 rows). get_delivery d' (d_id (snd (enumerate 0 rows ! j))) = Some (ys ! j)
        \<and> claimed_at t (fst (enumerate 0 rows ! j)) (ys ! j)" and turns: "turns d' = turns d1"
    using claim_loop [OF inserted(1) b [unfolded batch_def]] by blast
  show "t_state tn = Starting" "t_session_id tn = s" "t_initial_delivery_id tn = d_id (hd rows)" using tn by auto
  show "get_turn d' t = Some tn" using inserted(3) turns tn(1) by (simp add: get_turn_def)
  show "length claimed = length rows" using ys by simp
  show "\<forall>k<length rows. get_delivery d' (d_id (rows ! k)) = Some (claimed ! k) \<and> claimed_at t k (claimed ! k)"
    using each ys by (simp add: nth_enumerate_eq)
qed

section \<open>The queue\<close>

lemma takeWhile_before_stop:
  assumes "sorted (map k xs)" and "x \<in> set (takeWhile P xs)" and "y \<in> set xs" and "\<not> P y"
  shows "k x \<le> k y"
  using assms by (induction xs) (auto split: if_splits dest: set_takeWhileD)

lemma stop_before_dropped:
  assumes "sorted (map k xs)" and "x \<in> set xs" and "P x" and "x \<notin> set (takeWhile P xs)"
  shows "\<exists>y\<in>set xs. \<not> P y \<and> k y \<le> k x"
  using assms by (induction xs) (auto split: if_splits)

lemma one_takeWhile:
  "one (takeWhile P xs) = (case one xs of None \<Rightarrow> None | Some x \<Rightarrow> if P x then Some x else None)"
  by (cases xs) (simp_all add: one_def)

definition in_queue_order :: "string \<Rightarrow> delivery \<Rightarrow> bool" where
  "in_queue_order s r \<longleftrightarrow> d_session_id r = s \<and> ((d_priority r = P3 \<and> d_state r = Queued) \<or> d_state r \<in> set FENCE_STATES)"

lemma queued_no_fence: "Queued \<notin> set FENCE_STATES"
  by (simp add: FENCE_STATES_def matrix_defs)

lemma claimable_states: "set CLAIMABLE_QUEUE_STATES = {Queued}"
  by (simp add: CLAIMABLE_QUEUE_STATES_def matrix_defs)

lemma claimable_fifo_rows_eq:
  "claimable_fifo_rows d s = takeWhile (\<lambda>r. d_state r = Queued) (select_deliveries (in_queue_order s) d)"
  by (simp add: claimable_fifo_rows_def in_queue_order_def [abs_def])

lemma select_deliveries_sorted: "sorted (map submitted_order (select_deliveries p d))"
  by (simp add: select_deliveries_def)

lemma set_select_deliveries: "set (select_deliveries p d) = {r \<in> set (deliveries d). p r}"
  by (simp add: select_deliveries_def)

lemma claimable_fifo_rows_sorted: "sorted (map submitted_order (claimable_fifo_rows d s))"
  unfolding claimable_fifo_rows_eq
  by (metis select_deliveries_sorted map_append sorted_append takeWhile_dropWhile_id)

lemma claimable_fifo_rows_queued:
  assumes "r \<in> set (claimable_fifo_rows d s)"
  shows "r \<in> set (deliveries d) \<and> d_session_id r = s \<and> d_state r = Queued \<and> d_priority r = P3"
  using assms set_takeWhileD [of r "\<lambda>r. d_state r = Queued" "select_deliveries (in_queue_order s) d"] queued_no_fence
  by (auto simp: claimable_fifo_rows_eq set_select_deliveries in_queue_order_def)

lemma claimable_fifo_rows_fenced:
  assumes "r \<in> set (claimable_fifo_rows d s)" and "f \<in> set (deliveries d)" and "d_session_id f = s"
    and "d_state f \<in> set FENCE_STATES"
  shows "submitted_order r \<le> submitted_order f"
  by (rule takeWhile_before_stop [OF select_deliveries_sorted assms(1) [unfolded claimable_fifo_rows_eq]])
    (use assms(2-4) queued_no_fence in \<open>auto simp: set_select_deliveries in_queue_order_def\<close>)

lemma claimable_fifo_rows_complete:
  assumes "r \<in> set (deliveries d)" and "d_session_id r = s" and "d_state r = Queued" and "d_priority r = P3"
    and "r \<notin> set (claimable_fifo_rows d s)"
  shows "\<exists>f\<in>set (deliveries d). d_session_id f = s \<and> d_state f \<in> set FENCE_STATES \<and> submitted_order f \<le> submitted_order r"
proof -
  have "r \<in> set (select_deliveries (in_queue_order s) d)"
    using assms(1-4) by (simp add: set_select_deliveries in_queue_order_def)
  then obtain f where "f \<in> set (select_deliveries (in_queue_order s) d)" "d_state f \<noteq> Queued" "submitted_order f \<le> submitted_order r"
    using stop_before_dropped [OF select_deliveries_sorted, of r "in_queue_order s" d "\<lambda>r. d_state r = Queued"] assms(3,5)
    unfolding claimable_fifo_rows_eq by blast
  then show ?thesis by (auto simp: set_select_deliveries in_queue_order_def)
qed

lemma claimable_fifo_head_eq: "claimable_fifo_head d s = one (claimable_fifo_rows d s)"
proof -
  have "select_deliveries (\<lambda>r. d_session_id r = s \<and> (d_state r \<in> set FENCE_STATES \<or>
         (True \<and> d_priority r = P3 \<and> d_state r \<in> set CLAIMABLE_QUEUE_STATES))) d =
       select_deliveries (in_queue_order s) d"
    by (rule arg_cong [of _ _ "\<lambda>p. select_deliveries p d"]) (auto simp: in_queue_order_def claimable_states)
  then show ?thesis
    by (simp add: claimable_fifo_head_def ordering_head_def claimable_fifo_rows_eq one_takeWhile)
qed

section \<open>Acceptance\<close>

text \<open>What an accepted row looks like, and that materializing a start a second time changes nothing.\<close>

lemma accept_row_saved:
  assumes "schema_ok d" and id: "\<And>r. d_id (f r) = d_id r" and "accept_row env m row states f ev d = Inr (Some y, d')"
  shows "\<exists>r. get_delivery d (d_id row) = Some r \<and> y = updated_delivery env f (Some ev) r" and "schema_ok d'"
    and "get_delivery d' i = (if i = d_id row then Some y else get_delivery d i)"
    and "turns d' = turns d" and "messages d' = messages d"
proof -
  obtain d1 where cas: "cas_delivery env (d_id row) (d_version row) states f (Some ev) d = Inr (Some y, d1)"
    and d': "d' = link_show_event (d_id row) m d1"
    using assms(3) by (auto simp: accept_row_def bind_result_eq_Inr split: if_splits)
  obtain r where r: "get_delivery d (d_id row) = Some r" and y: "y = updated_delivery env f (Some ev) r"
    and d1: "d1 = put_delivery y d" "schema_ok d1"
    using cas by (rule cas_delivery_cases [OF assms(1) id]) auto
  show "\<exists>r. get_delivery d (d_id row) = Some r \<and> y = updated_delivery env f (Some ev) r" using r y by blast
  show "schema_ok d'" using d1(2) by (simp add: d' link_show_event_def schema_ok_def)
  show "turns d' = turns d" "messages d' = messages d" using d1(1) by (simp_all add: d' link_show_event_def)
  show "get_delivery d' i = (if i = d_id row then Some y else get_delivery d i)"
    using get_delivery_put_updated [OF r, of f env _ _ "Some ev" i] id d1(1) y
    by (simp add: d' link_show_event_def get_delivery_def)
qed

definition same_membership :: "db \<Rightarrow> db \<Rightarrow> bool" where
  "same_membership d d' \<longleftrightarrow> (\<forall>i. map_option (\<lambda>r. (d_turn_id r, d_turn_role r)) (get_delivery d' i) =
     map_option (\<lambda>r. (d_turn_id r, d_turn_role r)) (get_delivery d i))"

lemma accept_initial_saved:
  assumes "schema_ok d" and "accept_initial env tn t ev now row d = Inr (Some y, d')"
  shows "schema_ok d'" and "get_delivery d' i = (if i = d_id row then Some y else get_delivery d i)"
    and "d_state y = Accepted" and "same_membership d d'" and "turns d' = turns d"
proof -
  note saved = accept_row_saved [OF assms(1) _ assms(2) [unfolded accept_initial_def]]
  have get: "get_delivery d' i = (if i = d_id row then Some y else get_delivery d i)" for i
    by (rule saved(3)) (simp add: write_defs)
  obtain r f e where r: "get_delivery d (d_id row) = Some r" and y: "y = updated_delivery env f e r"
    and f: "d_state (f r) = Accepted" "d_turn_id (f r) = d_turn_id r" "d_turn_role (f r) = d_turn_role r"
    using saved(1) by (fastforce simp: write_defs)
  show "schema_ok d'" "turns d' = turns d" by (rule saved, simp add: write_defs)+
  show "get_delivery d' i = (if i = d_id row then Some y else get_delivery d i)" by (rule get)
  show "d_state y = Accepted" using y f by simp
  show "same_membership d d'" using get r y f by (simp add: same_membership_def)
qed

lemma accept_loop:
  assumes "schema_ok d"
    and "fold_result (batch_step lost (accept_initial env tn t ev now)) xs (acc, d) = Inr (rows, d')"
  shows "schema_ok d' \<and> turns d' = turns d \<and> same_membership d d'
    \<and> (\<forall>i. i \<notin> d_id ` set xs \<longrightarrow> get_delivery d' i = get_delivery d i)
    \<and> (\<forall>i\<in>d_id ` set xs. \<exists>y. get_delivery d' i = Some y \<and> d_state y = Accepted)"
  using assms
proof (induction xs arbitrary: acc d)
  case Nil
  then show ?case by (simp add: same_membership_def)
next
  case (Cons x xs)
  obtain y d1 where one: "accept_initial env tn t ev now x d = Inr (Some y, d1)"
    and rest: "fold_result (batch_step lost (accept_initial env tn t ev now)) xs (acc @ [y], d1) = Inr (rows, d')"
    using Cons.prems(2) by (auto simp: batch_step_eq_Inr bind_result_eq_Inr)
  note saved = accept_initial_saved [OF Cons.prems(1) one]
  have IH: "schema_ok d'" "turns d' = turns d1" "same_membership d1 d'"
    "\<forall>i. i \<notin> d_id ` set xs \<longrightarrow> get_delivery d' i = get_delivery d1 i"
    "\<forall>i\<in>d_id ` set xs. \<exists>y. get_delivery d' i = Some y \<and> d_state y = Accepted"
    using Cons.IH [OF saved(1) rest] by auto
  have "get_delivery d1 (d_id x) = Some y" using saved(2) by simp
  then have "\<exists>y. get_delivery d' (d_id x) = Some y \<and> d_state y = Accepted"
    using IH(4,5) saved(3) by (cases "d_id x \<in> d_id ` set xs") auto
  then show ?case using IH saved(2,4,5) by (auto simp: same_membership_def)
qed

lemma initial_deliveries_iff:
  assumes "schema_ok d"
  shows "r \<in> set (initial_deliveries_for_turn d t) \<longleftrightarrow>
    get_delivery d (d_id r) = Some r \<and> d_turn_id r = Some t \<and> d_turn_role r = Some ''initial''"
  by (auto simp: initial_deliveries_for_turn_def get_delivery_iff [OF assms])

lemma accepted_batch:
  assumes "schema_ok d" and "initial_deliveries_for_turn d t \<noteq> []"
    and "batch lost (accept_initial env tn t ev now) (initial_deliveries_for_turn d t) d = Inr (rows, d')"
  shows "initial_deliveries_for_turn d' t \<noteq> [] \<and> list_all (\<lambda>r. d_state r = Accepted) (initial_deliveries_for_turn d' t)
    \<and> turns d' = turns d \<and> schema_ok d'"
proof -
  let ?rows = "initial_deliveries_for_turn d t"
  note fin = accept_loop [OF assms(1) assms(3) [unfolded batch_def]]
  from fin have ok: "schema_ok d'" by blast
  have member: "map_option (\<lambda>r. (d_turn_id r, d_turn_role r)) (get_delivery d' i) =
      map_option (\<lambda>r. (d_turn_id r, d_turn_role r)) (get_delivery d i)" for i
    using fin by (simp add: same_membership_def)
  have "d_state r = Accepted" if "r \<in> set (initial_deliveries_for_turn d' t)" for r
  proof -
    have r: "get_delivery d' (d_id r) = Some r" "d_turn_id r = Some t" "d_turn_role r = Some ''initial''"
      using that initial_deliveries_iff [OF ok] by auto
    then obtain r0 where "get_delivery d (d_id r) = Some r0" "d_turn_id r0 = Some t" "d_turn_role r0 = Some ''initial''"
      using member [of "d_id r"] by (cases "get_delivery d (d_id r)") auto
    then have "r0 \<in> set ?rows" "d_id r0 = d_id r"
      using initial_deliveries_iff [OF assms(1), of r0 t] get_delivery_d_id by auto
    then have "d_id r \<in> d_id ` set ?rows" by (metis image_eqI)
    then show ?thesis using fin r(1) by force
  qed
  moreover have "initial_deliveries_for_turn d' t \<noteq> []"
  proof -
    obtain x where "x \<in> set ?rows" using assms(2) by (meson last_in_set)
    then have "get_delivery d (d_id x) = Some x" "d_turn_id x = Some t" "d_turn_role x = Some ''initial''"
      using initial_deliveries_iff [OF assms(1)] by auto
    then obtain y where y: "get_delivery d' (d_id x) = Some y" "d_turn_id y = Some t" "d_turn_role y = Some ''initial''"
      using member [of "d_id x"] by (cases "get_delivery d' (d_id x)") simp_all
    then have "y \<in> set (initial_deliveries_for_turn d' t)"
      using initial_deliveries_iff [OF ok, of y] get_delivery_d_id [OF y(1)] by simp
    then show ?thesis by auto
  qed
  ultimately show ?thesis using fin by (auto simp: list_all_iff)
qed

lemma insert_message_tables:
  assumes "insert_message env m sn now d = Inr d'" and "schema_ok d"
  shows "deliveries d' = deliveries d" and "turns d' = turns d" and "schema_ok d'"
  using assms by (auto simp: insert_message_def insert_messages_def schema_ok_def Let_def split: option.splits if_splits)

definition start_accepted :: "db \<Rightarrow> string \<Rightarrow> bool" where
  "start_accepted d t \<longleftrightarrow> (case get_turn d t of
     None \<Rightarrow> False
   | Some tn \<Rightarrow> t_state tn \<in> {Starting, Active, Terminal} \<and> t_start_receipt_outcome tn = Some ''accepted'')"

lemma materialize_start_skip:
  "\<not> start_accepted d t \<Longrightarrow> materialize_start_acceptance env t ev d = Inr ([], d)"
  by (simp add: start_accepted_def materialize_start_acceptance_def split: option.splits) blast

lemma materialize_start_done:
  assumes "start_accepted d t" and "initial_deliveries_for_turn d t \<noteq> []"
    and "list_all (\<lambda>r. d_state r = Accepted) (initial_deliveries_for_turn d t)"
  shows "materialize_start_acceptance env t ev d = Inr (initial_deliveries_for_turn d t, d)"
  using assms by (auto simp: start_accepted_def materialize_start_acceptance_def split: option.splits)

lemma materialize_start_twice:
  assumes "schema_ok d" and run: "materialize_start_acceptance env t ev d = Inr (rows, d')"
  shows "\<exists>rows'. materialize_start_acceptance env' t ev' d' = Inr (rows', d')"
proof (cases "start_accepted d t")
  case False
  then show ?thesis using run by (simp add: materialize_start_skip)
next
  case True
  then obtain tn where tn: "get_turn d t = Some tn" "t_state tn \<in> {Starting, Active, Terminal}"
    "t_start_receipt_outcome tn = Some ''accepted''" by (auto simp: start_accepted_def split: option.splits)
  let ?rows = "initial_deliveries_for_turn d t"
  have ne: "?rows \<noteq> []" using run tn by (auto simp: materialize_start_acceptance_def)
  show ?thesis
  proof (cases "list_all (\<lambda>r. d_state r = Accepted) ?rows")
    case True
    then show ?thesis using run materialize_start_done [OF \<open>start_accepted d t\<close> ne] by auto
  next
    case False
    then obtain m sn d1 where i: "insert_message env m sn (turn_now_iso env) d = Inr d1"
      and b: "batch ''initial Delivery materialization CAS lost'' (accept_initial env tn t ev (turn_now_iso env)) ?rows d1
        = Inr (rows, d')"
      using run tn ne by (auto simp: materialize_start_acceptance_def Let_def bind_result_eq_Inr split: if_splits)
    note tables = insert_message_tables [OF i assms(1)]
    have same: "initial_deliveries_for_turn d1 t = ?rows"
      using tables(1) by (simp add: initial_deliveries_for_turn_def)
    have fin: "initial_deliveries_for_turn d' t \<noteq> []" "turns d' = turns d1"
      "list_all (\<lambda>r. d_state r = Accepted) (initial_deliveries_for_turn d' t)"
      using accepted_batch [OF tables(3) _ b [folded same]] ne same by auto
    then have "start_accepted d' t" using True tables(2) by (simp add: start_accepted_def get_turn_def)
    then show ?thesis using materialize_start_done [OF _ fin(1,3)] by blast
  qed
qed

text \<open>The acceptance of one Delivery: what the row is afterwards, and that no index refuses it.\<close>

lemma accept_one_cas:
  assumes "store_ok d" and r: "get_delivery d i = Some r" and "d_state r \<noteq> Accepted"
  shows "cas_delivery env i (d_version r) [d_state r]
      (\<lambda>x. join_turn t ''steer'' (next_turn_position d t) (accept_values m now x)) ev d =
    Inr (Some (updated_delivery env (\<lambda>x. join_turn t ''steer'' (next_turn_position d t) (accept_values m now x)) ev r),
      put_delivery (updated_delivery env (\<lambda>x. join_turn t ''steer'' (next_turn_position d t) (accept_values m now x)) ev r) d)"
  using next_turn_position_free [of d t]
  by (intro cas_delivery_succeeds [OF assms(1) frame_ok_writes(5) r]) (auto simp: accept_values_shape, simp_all add: write_defs)

text \<open>
  When the table of Messages refuses a new Message: a column that may not be null is, or another Message of the
  platform and scope has the native identity.
\<close>

definition message_refused :: "db \<Rightarrow> jobj \<Rightarrow> bool" where
  "message_refused d sn \<longleftrightarrow>
     (\<exists>k\<in>{''platform'', ''author'', ''type'', ''content_json'', ''metadata_json''}. jget sn k = JNull)
     \<or> jget sn ''native_message_id'' \<noteq> JNull
       \<and> (\<exists>m\<in>set (messages d). \<forall>k\<in>{''platform'', ''scope_id'', ''native_message_id''}. jget (m_columns m) k = jget sn k)"

lemma jget_message_columns:
  "jget (message_columns i sn c) ''created_at'' = JStr c"
  "k \<in> {''platform'', ''scope_id'', ''native_message_id'', ''author'', ''type'', ''content_json'', ''metadata_json''} \<Longrightarrow>
     jget (message_columns i sn c) k = jget sn k"
  by (auto simp: message_columns_def)

lemma unique_where_snoc:
  "unique_where p f (xs @ [x]) \<longleftrightarrow> unique_where p f xs \<and> (p x \<longrightarrow> (\<forall>y\<in>set xs. p y \<longrightarrow> f y \<noteq> f x))"
  by (auto simp: unique_where_def image_iff)

lemma insert_message_integrity:
  assumes "message_table_ok (messages d)" and "insert_message env i sn now d = Inl IntegrityError"
  shows "get_message d i = None \<and> message_refused d sn"
proof -
  obtain a c where none: "get_message d i = None"
    and bad: "\<not> message_table_ok (messages d @ [\<lparr>m_id = i, m_columns = message_columns i sn c, m_updated_at = a, m_delivered_at = a\<rparr>])"
    using assms(2) by (auto simp: insert_message_def insert_messages_def Let_def split: option.splits if_splits)
  have "i \<notin> m_id ` set (messages d)" using none by (auto simp: get_message_def row_of_None_iff)
  then have "message_refused d sn"
    using bad assms(1)
    by (auto simp: message_table_ok_def message_uniques_def message_check_def unique_where_snoc message_refused_def jget_message_columns)
  then show ?thesis using none by blast
qed

lemma verified_snapshot_not_integrity: "verified_snapshot r \<noteq> Inl IntegrityError"
  by (auto simp: verified_snapshot_def Let_def)

lemma materialize_acceptance_integrity:
  assumes "store_ok d" and run: "materialize_acceptance env i a t ev d = Inl IntegrityError"
  shows "\<exists>r sn. get_delivery d i = Some r \<and> d_state r \<noteq> Accepted \<and> verified_snapshot r = Inr sn
    \<and> get_message d i = None \<and> message_refused d sn"
proof -
  have inner: "\<exists>sn. verified_snapshot r = Inr sn \<and> get_message d i = None \<and> message_refused d sn"
    if r: "get_delivery d i = Some r" "d_state r \<noteq> Accepted"
      and raises: "bind_result (verified_snapshot r) (\<lambda>sn. bind_result (cas_delivery env i (d_version r) [d_state r]
        (\<lambda>x. join_turn t ''steer'' (next_turn_position d t) (accept_values i (turn_now_iso env) x)) e d)
        (\<lambda>(acc, d1). if acc = None then Inr (None, d1)
           else bind_result (insert_message env i sn (turn_now_iso env) d1) (\<lambda>d2.
             Inr (acc, link_show_event i i d2)))) = Inl IntegrityError" for r e
  proof -
    obtain sn r' where sn: "verified_snapshot r = Inr sn"
      and ins: "insert_message env i sn (turn_now_iso env) (put_delivery r' d) = Inl IntegrityError"
      using raises verified_snapshot_not_integrity
      by (auto simp: accept_one_cas [OF assms(1) r] bind_result_eq_Inl)
    have "message_table_ok (messages (put_delivery r' d))"
      using store_ok_schema [OF assms(1)] by (simp add: schema_ok_def put_delivery_def)
    then have "get_message (put_delivery r' d) i = None \<and> message_refused (put_delivery r' d) sn"
      by (rule insert_message_integrity [OF _ ins])
    then show ?thesis using sn by (simp add: get_message_def message_refused_def put_delivery_def)
  qed
  show ?thesis
    using run by (auto simp: materialize_acceptance_def Let_def split: option.splits if_splits dest!: inner)
qed

lemma insert_message_present:
  assumes "insert_message env m sn now d = Inr d'"
  shows "get_message d' m \<noteq> None"
  using assms by (auto simp: insert_message_def insert_messages_def Let_def get_message_def row_of_append split: option.splits if_splits)

lemma materialize_acceptance_saved:
  assumes "store_ok d" and run: "materialize_acceptance env i a t ev d = Inr (Some r, d')"
  shows "get_delivery d' i = Some r \<and> d_state r = Accepted \<and> d_message_id r = Some i \<and> d_turn_id r = Some t
    \<and> get_message d' i \<noteq> None"
proof (cases "\<exists>r0. get_delivery d i = Some r0 \<and> d_state r0 = Accepted")
  case True
  then show ?thesis using run by (auto simp: materialize_acceptance_def split: if_splits)
next
  case False
  let ?f = "\<lambda>x. join_turn t ''steer'' (next_turn_position d t) (accept_values i (turn_now_iso env) x)"
  obtain r0 where r0: "get_delivery d i = Some r0" "d_state r0 \<noteq> Accepted"
    using False run by (auto simp: materialize_acceptance_def split: option.splits)
  let ?new = "updated_delivery env ?f (Some (acceptance_event r0 t ev)) r0"
  obtain sn d2 where "insert_message env i sn (turn_now_iso env) (put_delivery ?new d) = Inr d2"
    and d': "d' = link_show_event i i d2" and r: "r = ?new"
    using run r0 accept_one_cas [OF assms(1) r0]
    by (auto simp: materialize_acceptance_def Let_def bind_result_eq_Inr split: option.splits if_splits)
  then have d2: "deliveries d2 = deliveries (put_delivery ?new d)" and m: "get_message d2 i \<noteq> None"
    using insert_message_present by (auto simp: insert_message_def insert_messages_def Let_def split: option.splits if_splits)
  have "get_delivery (put_delivery ?new d) i = Some ?new"
    using get_delivery_put_updated [OF r0(1), of ?f env _ _ _ i] by (simp add: write_defs)
  then have "get_delivery d' i = Some ?new" using d2 by (simp add: d' link_show_event_def get_delivery_def)
  moreover have "get_message d' i \<noteq> None" using m by (simp add: d' link_show_event_def get_message_def)
  ultimately show ?thesis using r by (simp add: write_defs)
qed

lemma materialize_acceptance_again:
  assumes "get_delivery d i = Some r" "d_state r = Accepted" "d_message_id r = Some i" "d_turn_id r = Some t"
    and "get_message d i \<noteq> None"
  shows "materialize_acceptance env i a t ev d = Inr (Some r, d)"
  using assms by (simp add: materialize_acceptance_def)

end
