(* ===== verification/DeliveryProperties.thy ===== *)
theory DeliveryProperties
  imports DeliveryBehaviour
begin

text \<open>
  The properties of the Delivery store, each with an application to a small database: one
  Session with one queued Delivery, submitted, claimed or withdrawn by the store's own
  operations.
\<close>

section \<open>A small database\<close>

definition demo_env :: env where
  "demo_env = \<lparr>utc_now_iso = ''2026-01-01T00:00:01Z'', turn_now_iso = ''2026-01-01T00:00:02Z'',
     new_attempt_id = ''att1'', new_delivery_id = ''del1'', iso_timestamp = (\<lambda>s. s)\<rparr>"

definition demo_message :: message_input where
  "demo_message = \<lparr>mi_scope_id = None, mi_session_id = ''ses1'', mi_platform = ''avibe'', mi_author = ''user'',
     mi_source = Some ''user'', mi_message_type = None, mi_text = Some ''hello'', mi_content = None,
     mi_metadata = None, mi_author_id = None, mi_author_name = None, mi_native_message_id = None,
     mi_parent_native_message_id = None, mi_message_kind = None, mi_read_at = None\<rparr>"

definition demo_row :: delivery where
  "demo_row = delivery_row demo_env (plain_input ''del1'' ''ses1'' P3 Queued (message_snapshot demo_message)
     ''hello'' None None None)"

definition demo_db :: db where
  "demo_db = empty_db\<lparr>deliveries := [demo_row]\<rparr>"

lemma demo_row_selectors [simp]:
  "d_id demo_row = ''del1''" "d_session_id demo_row = ''ses1''" "d_state demo_row = Queued"
  "d_version demo_row = 1" "d_priority demo_row = P3" "d_dedupe_key demo_row = None"
  "d_turn_id demo_row = None" "d_current_attempt_id demo_row = None"
  by (simp_all add: demo_row_def delivery_row_def plain_input_def Let_def)

lemma demo_row_ok: "row_ok demo_row"
  unfolding demo_row_def by (rule plain_row_ok) simp

lemma demo_insert:
  "insert_delivery demo_env (plain_input ''del1'' ''ses1'' P3 Queued (message_snapshot demo_message)
     ''hello'' None None None) empty_db = Inr (demo_row, demo_db)"
  using row_ok_check [OF demo_row_ok]
  by (simp add: insert_delivery_eq_Inr demo_row_def [symmetric] insert_deliveries_def demo_db_def empty_db_def
      delivery_table_ok_def delivery_uniques_def unique_where_def)

lemma demo_submitted: "store_step\<^sup>*\<^sup>* empty_db demo_db"
  using store_step.submit [OF _ demo_insert] by auto

lemma demo_ok: "store_ok demo_db"
  using store.run_inv_evolves [OF demo_submitted empty_db_ok] by simp

lemma demo_get: "get_delivery demo_db i = (if i = ''del1'' then Some demo_row else None)"
  by (simp add: get_delivery_def demo_db_def)

definition demo_removed_row :: delivery where
  "demo_removed_row = updated_delivery demo_env (retire_values demo_env) (Some (retire_event ''queue_remove'')) demo_row"

definition demo_removed :: db where
  "demo_removed = put_delivery demo_removed_row demo_db"

lemma demo_remove_cas:
  "cas_delivery demo_env ''del1'' 1 [Queued] (retire_values demo_env) (Some (retire_event ''queue_remove'')) demo_db =
     Inr (Some demo_removed_row, demo_removed)"
  unfolding demo_removed_def demo_removed_row_def
  using retire_values_shape [OF demo_row_ok] by (intro cas_delivery_succeeds [OF demo_ok frame_ok_writes(3)])
    (simp_all add: demo_get write_defs)

lemma demo_remove: "retire_queued demo_env ''ses1'' ''del1'' demo_db = Inr (True, demo_removed)"
  by (simp add: retire_queued_def demo_get demo_remove_cas saved_def)

lemma demo_removed_step: "store_step demo_db demo_removed"
  by (rule store_step.remove_queued [OF demo_remove])

lemma demo_removed_get: "get_delivery demo_removed ''del1'' = Some demo_removed_row"
  by (simp add: demo_removed_def demo_removed_row_def get_delivery_put_updated [of _ "''del1''"] demo_get write_defs)

text \<open>The same Delivery claimed by a new Turn.\<close>

definition demo_turn :: turn where
  "demo_turn = turn_row demo_env ''turn1'' ''ses1'' ''del1'' Starting ''codex'' (Some ''att1'') (Some ''hello'') None demo_db"

definition demo_started :: db where
  "demo_started = demo_db\<lparr>turns := [demo_turn]\<rparr>"

lemma demo_turn_selectors [simp]:
  "t_id demo_turn = ''turn1''" "t_session_id demo_turn = ''ses1''" "t_state demo_turn = Starting"
  "t_initial_delivery_id demo_turn = ''del1''"
  by (simp_all add: demo_turn_def)

lemma demo_insert_turn:
  "insert_turn demo_env ''turn1'' ''ses1'' ''del1'' Starting ''codex'' (Some ''att1'') (Some ''hello'') None demo_db =
     Inr (demo_turn, demo_started)"
proof -
  have "turn_check demo_turn" unfolding demo_turn_def by (simp add: turn_check_of_shape turn_row_shape)
  then have "insert_turns demo_turn demo_db = Inr demo_started"
    by (simp add: insert_turns_def demo_started_def demo_db_def empty_db_def turn_table_ok_def turn_uniques_def
        unique_where_def)
  then show ?thesis unfolding insert_turn_eq_Inr by (simp add: demo_turn_def)
qed

lemma demo_started_step: "store_step demo_db demo_started"
  by (rule store_step.new_turn [OF _ demo_insert_turn]) simp

lemma demo_started_reachable: "store_step\<^sup>*\<^sup>* empty_db demo_started"
  using demo_submitted demo_started_step by (rule rtranclp.rtrancl_into_rtrancl)

lemma demo_started_ok: "store_ok demo_started"
  using store.run_inv_evolves [OF demo_started_reachable empty_db_ok] by simp

lemma demo_started_get:
  "get_delivery demo_started i = (if i = ''del1'' then Some demo_row else None)"
  "get_turn demo_started k = (if k = ''turn1'' then Some demo_turn else None)"
  by (simp_all add: get_delivery_def get_turn_def demo_started_def demo_db_def)

definition demo_claimed_row :: delivery where
  "demo_claimed_row = updated_delivery demo_env (claim_values ''turn1'' 0 None)
     (Some (jdict [(''kind'', JStr ''start''), (''attempt_id'', JStr ''att1''), (''turn_id'', JStr ''turn1''),
        (''position'', JInt 0), (''outcome'', JStr ''claimed'')])) demo_row"

definition demo_claimed :: db where
  "demo_claimed = put_delivery demo_claimed_row demo_started"

lemma demo_claim_one:
  "claim_one demo_env ''turn1'' ''att1'' (0, demo_row) demo_started = Inr (Some demo_claimed_row, demo_claimed)"
  unfolding claim_one_def prod.case demo_claimed_def demo_claimed_row_def of_nat_0
  using claim_values_shape [OF demo_row_ok, of "''turn1''" 0 None]
  by (intro cas_delivery_succeeds [OF demo_started_ok frame_ok_writes(1)])
    (simp_all add: demo_started_get, simp_all add: demo_started_def demo_db_def write_defs)

lemma demo_claim:
  "claim_start_batch demo_env ''turn1'' ''ses1'' ''codex'' [demo_row] ''hello'' None demo_db =
     Inr ((demo_turn, [demo_claimed_row]), demo_claimed)"
  using demo_insert_turn demo_claim_one
  by (simp add: claim_start_batch_def batch_def batch_step_def demo_env_def)

lemma demo_claimed_reachable: "store_step\<^sup>*\<^sup>* empty_db demo_claimed"
  using demo_submitted store_step.claim_batch [OF demo_claim] by (rule rtranclp.rtrancl_into_rtrancl)

lemma demo_claimed_ok: "store_ok demo_claimed"
  using store.run_inv_evolves [OF demo_claimed_reachable empty_db_ok] by simp

text \<open>The database an operation leaves, when it does not raise.\<close>

definition after :: "db \<Rightarrow> ('a \<times> db) result \<Rightarrow> db" where
  "after d m = (case m of Inr y \<Rightarrow> snd y | Inl _ \<Rightarrow> d)"

lemma after_run: "\<not> isl m \<Longrightarrow> m = Inr (fst (projr m), after d m)"
  by (cases m) (simp_all add: after_def)

text \<open>The claimed Turn bound to its native start, and a second Delivery steered into it.\<close>

definition demo_bind :: "(turn option \<times> db) result" where
  "demo_bind = bind_native_start demo_env ''turn1'' 1 (Some ''rt'') (Some ''rt1'') (Some ''nt1'') None demo_claimed"

definition demo_bound :: db where
  "demo_bound = after demo_claimed demo_bind"

definition demo_submit :: "(delivery \<times> db) result" where
  "demo_submit = insert_delivery demo_env (plain_input ''del2'' ''ses1'' P1 Reserved (message_snapshot demo_message)
     ''more'' None None None) demo_bound"

definition demo_second :: db where
  "demo_second = after demo_bound demo_submit"

definition demo_steer :: "(delivery option \<times> db) result" where
  "demo_steer = open_steer_attempt demo_env ''del2'' 1 ''turn1'' ''att2'' ''nt1'' demo_second"

definition demo_steering :: db where
  "demo_steering = after demo_second demo_steer"

lemma demo_runs: "\<not> isl demo_bind" "\<not> isl demo_submit" "\<not> isl demo_steer"
  by code_simp+

lemma demo_bound_reachable: "store_step\<^sup>*\<^sup>* empty_db demo_bound"
  using store_step.bind_start [OF after_run [OF demo_runs(1), unfolded demo_bind_def, of demo_claimed]]
    demo_claimed_reachable by (simp add: demo_bound_def demo_bind_def)

lemma demo_steering_reachable: "store_step\<^sup>*\<^sup>* empty_db demo_steering"
proof -
  have "store_step demo_bound demo_second"
    using store_step.submit [OF _ after_run [OF demo_runs(2), unfolded demo_submit_def, of demo_bound]]
    by (simp add: demo_second_def demo_submit_def)
  moreover have "store_step demo_second demo_steering"
    using store_step.open_steer [OF after_run [OF demo_runs(3), unfolded demo_steer_def, of demo_second]]
    by (simp add: demo_steering_def demo_steer_def)
  ultimately show ?thesis using demo_bound_reachable by (meson rtranclp.rtrancl_into_rtrancl)
qed

lemma demo_bound_ok: "store_ok demo_bound" and demo_steering_ok: "store_ok demo_steering"
  using store.run_inv_evolves [OF _ empty_db_ok] demo_bound_reachable demo_steering_reachable by blast+

section \<open>Lifecycle\<close>

text \<open>
  C1: in every run of the store, from the empty database through any interleaving of its
  operations, a Delivery that was ever stored is still stored; its identity, Session,
  submission time and content digests never change; its version never decreases; its history
  only grows at the end; and once it is accepted or retired the row is final, except for the
  key that \<open>get_delivery_by_native_identity\<close> rewrites into its current form.
\<close>

theorem delivery_lifecycle:
  assumes "store_step\<^sup>*\<^sup>* empty_db d" and "store_step\<^sup>*\<^sup>* d d'" and "get_delivery d i = Some r"
  shows "\<exists>r'. get_delivery d' i = Some r' \<and> d_id r' = d_id r \<and> d_session_id r' = d_session_id r
    \<and> d_submitted_at r' = d_submitted_at r \<and> d_snapshot_sha256 r' = d_snapshot_sha256 r
    \<and> d_dispatch_sha256 r' = d_dispatch_sha256 r \<and> d_version r \<le> d_version r'
    \<and> prefix (events_of r) (events_of r')
    \<and> (d_state r \<in> {Accepted, Retired} \<longrightarrow> r' = r\<lparr>d_dedupe_key := d_dedupe_key r'\<rparr>)"
proof -
  have "store_ok d" using store.run_inv_evolves [OF assms(1) empty_db_ok] by blast
  then have "deliveries_evolve d d'"
    using store.run_inv_evolves [OF assms(2)] by (simp add: store_evolves_def)
  then show ?thesis using assms(3) by (auto simp: deliveries_evolve_def delivery_evolves_def)
qed

theorem delivery_lifecycle_witness:
  "\<exists>r'. get_delivery demo_removed ''del1'' = Some r' \<and> d_version demo_row \<le> d_version r'
     \<and> prefix (events_of demo_row) (events_of r')"
  using delivery_lifecycle [OF demo_submitted r_into_rtranclp [of store_step, OF demo_removed_step], of "''del1''" demo_row]
  by (auto simp: demo_get)

text \<open>
  C2: in every run of the store a Turn only moves forward (waiting, starting, active,
  terminal), keeps its Session, backend and initial Delivery, and once terminal keeps its
  outcome, who settled it, when, and its start receipt.
\<close>

theorem turn_lifecycle:
  assumes "store_step\<^sup>*\<^sup>* empty_db d" and "store_step\<^sup>*\<^sup>* d d'" and "get_turn d i = Some t"
  shows "\<exists>t'. get_turn d' i = Some t' \<and> t_session_id t' = t_session_id t \<and> t_backend t' = t_backend t
    \<and> t_initial_delivery_id t' = t_initial_delivery_id t \<and> t_version t \<le> t_version t'
    \<and> turn_rank (t_state t) \<le> turn_rank (t_state t')
    \<and> (t_state t = Terminal \<longrightarrow> t_state t' = Terminal \<and> t_terminal_outcome t' = t_terminal_outcome t
         \<and> t_settled_by t' = t_settled_by t \<and> t_terminal_at t' = t_terminal_at t
         \<and> t_start_receipt_outcome t' = t_start_receipt_outcome t)"
proof -
  have "store_ok d" using store.run_inv_evolves [OF assms(1) empty_db_ok] by blast
  then have "turns_evolve d d'"
    using store.run_inv_evolves [OF assms(2)] by (simp add: store_evolves_def)
  then show ?thesis using assms(3) turn_rank_3 by (fastforce simp: turns_evolve_def turn_evolves_def)
qed

theorem turn_lifecycle_witness:
  "\<exists>t'. get_turn demo_claimed ''turn1'' = Some t' \<and> turn_rank Starting \<le> turn_rank (t_state t')"
proof -
  have "store_step\<^sup>*\<^sup>* demo_started demo_claimed"
    using store_step.client_delivery [OF _ demo_claim_one [unfolded claim_one_def prod.case]] claim_values_shape
    by (auto simp: delivery_write_ok_def)
  from turn_lifecycle [OF demo_started_reachable this, of "''turn1''" demo_turn]
  show ?thesis by (auto simp: demo_started_get)
qed

text \<open>
  C3: every row of a store that was reached from the empty database by its operations has
  the shape its state calls for, a well-formed history, and (until it is accepted) a Message
  candidate whose digest verifies; a Session has at most one Turn that is starting or active.
\<close>

theorem reachable_rows_ok:
  assumes "store_step\<^sup>*\<^sup>* empty_db d"
  shows "(\<forall>r\<in>set (deliveries d). delivery_shape r \<and> history_ok r
        \<and> (d_state r \<noteq> Accepted \<longrightarrow> (\<exists>s. verified_snapshot r = Inr s)))
    \<and> (\<forall>t\<in>set (turns d). \<forall>t'\<in>set (turns d). turn_live t \<and> turn_live t' \<and> t_session_id t = t_session_id t' \<longrightarrow> t = t')"
proof -
  have ok: "store_ok d" using store.run_inv_evolves [OF assms empty_db_ok] by simp
  then have "unique_where turn_live t_session_id (turns d)"
    by (simp add: store_ok_def schema_ok_def turn_table_ok_def turn_uniques_def)
  then show ?thesis
    using ok unique_whereD [of turn_live t_session_id "turns d"]
    by (auto simp: store_ok_def list_all_iff row_ok_def snapshot_ok_def)
qed

theorem reachable_rows_ok_witness:
  "delivery_shape demo_claimed_row \<and> history_ok demo_claimed_row \<and> demo_claimed_row \<in> set (deliveries demo_claimed)"
proof -
  have "demo_claimed_row \<in> set (deliveries demo_claimed)"
    by (simp add: demo_claimed_def deliveries_put demo_started_def demo_db_def update_where_def
        demo_claimed_row_def write_defs)
  then show ?thesis using reachable_rows_ok [OF demo_claimed_reachable] by blast
qed

text \<open>
  C6: two writers that read the same version of a Delivery cannot both write it: after the
  first write the second returns no row and changes nothing, whatever states and values
  either of them names.
\<close>

theorem second_delivery_writer_loses:
  assumes "schema_ok d" and "\<And>r. d_id (f r) = d_id r" and "\<And>r. d_id (g r) = d_id r"
    and "cas_delivery env i v states f ev d = Inr (Some r, d')"
  shows "cas_delivery env' i v states' g ev' d' = Inr (None, d')"
proof -
  have saved: "get_delivery d' i = Some r" "d_version r = v + 1" "schema_ok d'"
    using delivery_cas.cas_saved [of d "(states, f, ev)" env i v r d'] delivery_cas.cas_invar [of d "(states, f, ev)" env i v "Some r" d']
      assms by (simp_all add: delivery_write_def)
  then show ?thesis
    using delivery_cas.cas_stale [of d' "(states', g, ev')" i r v env'] assms(3) by (simp add: delivery_write_def)
qed

theorem second_delivery_writer_loses_witness:
  "cas_delivery demo_env ''del1'' 1 [Queued] (claim_values ''turn1'' 0 None) None demo_removed = Inr (None, demo_removed)"
  by (rule second_delivery_writer_loses [OF store_ok_schema [OF demo_ok] _ _ demo_remove_cas])
    (simp_all add: write_defs)

text \<open>
  C4: a batch claim takes all of its Deliveries or none. When \<open>claim_start_batch\<close> returns, the
  new Turn is stored in state starting with the first Delivery as its initial one, and the
  k-th Delivery is claimed by that Turn at position k; every other way out raises, so that
  the transaction is rolled back.
\<close>

theorem claim_start_batch_all:
  assumes "schema_ok d" and "claim_start_batch env t s b rows txt a d = Inr ((tn, claimed), d')"
  shows "get_turn d' t = Some tn \<and> t_state tn = Starting \<and> t_session_id tn = s
    \<and> rows \<noteq> [] \<and> t_initial_delivery_id tn = d_id (hd rows) \<and> length claimed = length rows
    \<and> (\<forall>k<length rows. get_delivery d' (d_id (rows ! k)) = Some (claimed ! k)
        \<and> d_state (claimed ! k) = Claimed \<and> d_turn_id (claimed ! k) = Some t
        \<and> d_turn_role (claimed ! k) = Some ''initial'' \<and> d_turn_position (claimed ! k) = Some (int k))"
  using claim_start_batch_claims [OF assms] by (simp add: claimed_at_def)

theorem claim_start_batch_all_witness:
  "get_delivery demo_claimed ''del1'' = Some demo_claimed_row \<and> d_turn_position demo_claimed_row = Some 0"
  using claim_start_batch_all [OF store_ok_schema [OF demo_ok] demo_claim] by simp

text \<open>
  C5: the queue is first in, first out up to the first fence. The claimable rows of a Session
  are queued P3 Deliveries in submission order; none of them was submitted after a Delivery
  that is reserved, steering or being reconciled; a queued P3 Delivery is left out only
  behind such a fence; and \<open>claimable_fifo_head\<close> is the first of them.
\<close>

theorem claimable_fifo_order:
  "sorted (map submitted_order (claimable_fifo_rows d s))
   \<and> (\<forall>r\<in>set (claimable_fifo_rows d s). d_session_id r = s \<and> d_state r = Queued \<and> d_priority r = P3
        \<and> (\<forall>f\<in>set (deliveries d). d_session_id f = s \<and> d_state f \<in> set FENCE_STATES
             \<longrightarrow> submitted_order r \<le> submitted_order f))
   \<and> (\<forall>r\<in>set (deliveries d). d_session_id r = s \<and> d_state r = Queued \<and> d_priority r = P3
        \<and> r \<notin> set (claimable_fifo_rows d s) \<longrightarrow>
        (\<exists>f\<in>set (deliveries d). d_session_id f = s \<and> d_state f \<in> set FENCE_STATES
           \<and> submitted_order f \<le> submitted_order r))
   \<and> claimable_fifo_head d s = one (claimable_fifo_rows d s)"
  using claimable_fifo_rows_sorted claimable_fifo_rows_queued claimable_fifo_rows_fenced
    claimable_fifo_rows_complete claimable_fifo_head_eq by blast

lemma demo_fifo: "claimable_fifo_rows demo_db ''ses1'' = [demo_row]"
  by (simp add: claimable_fifo_rows_def select_deliveries_def demo_db_def)

theorem claimable_fifo_order_witness: "claimable_fifo_head demo_db ''ses1'' = Some demo_row"
  using claimable_fifo_order [of demo_db "''ses1''"] by (simp add: demo_fifo one_def)

text \<open>
  C8: native acceptance of a start is idempotent. Once \<open>materialize_start_acceptance\<close> has
  committed, calling it again (a retried or a replayed receipt) succeeds and leaves the
  database exactly as it is: no second Message, no further history.
\<close>

theorem materialize_start_idempotent:
  assumes "schema_ok d" and "materialize_start_acceptance env t ev d = Inr (rows, d')"
  shows "\<exists>rows'. materialize_start_acceptance env' t ev' d' = Inr (rows', d')"
  by (rule materialize_start_twice [OF assms])

theorem materialize_start_idempotent_witness:
  "\<exists>rows d' rows'. materialize_start_acceptance demo_env ''turn1'' fmempty demo_bound = Inr (rows, d')
     \<and> map d_state rows = [Accepted] \<and> materialize_start_acceptance demo_env ''turn1'' fmempty d' = Inr (rows', d')"
proof -
  have "case materialize_start_acceptance demo_env ''turn1'' fmempty demo_bound of
      Inr (rows, d') \<Rightarrow> map d_state rows = [Accepted] | Inl _ \<Rightarrow> False" by code_simp
  then obtain rows d' where run: "materialize_start_acceptance demo_env ''turn1'' fmempty demo_bound = Inr (rows, d')"
    and "map d_state rows = [Accepted]" by (auto split: sum.splits)
  moreover obtain rows' where "materialize_start_acceptance demo_env ''turn1'' fmempty d' = Inr (rows', d')"
    using materialize_start_idempotent [OF store_ok_schema [OF demo_bound_ok] run] by blast
  ultimately show ?thesis using run by (intro exI conjI)
qed



text \<open>
  C9: archiving a Session succeeds, and withdraws exactly the Deliveries of that Session whose
  input was provably never written to a backend (reserved, queued or waiting for a native
  identity); each of them is retired with the reason recorded, and every other Delivery is
  left as it is.
\<close>

theorem archive_exact:
  assumes "store_ok d"
  shows "\<exists>d'. retire_for_archive env s d = Inr (map d_id (filter (retirable s) (deliveries d)), d')
    \<and> (\<forall>i r. get_delivery d i = Some r \<longrightarrow>
        get_delivery d' i = Some (if retirable s r then archived env r else r))
    \<and> (\<forall>r. retirable s r \<longrightarrow> d_state (archived env r) = Retired
        \<and> native_effect (policy_of (d_state r)) = NoEffect)"
proof -
  have "native_effect (policy_of (d_state r)) = NoEffect" if "retirable s r" for r
    using that by (cases "d_state r") (auto simp: retirable_def RUN_CANCEL_RETIRE_STATES_def matrix_defs)
  moreover have "d_state (archived env r) = Retired" for r by (simp add: write_defs)
  ultimately show ?thesis using retire_for_archive_exact [OF assms, of env s] by blast
qed

theorem archive_exact_witness:
  "\<exists>d'. retire_for_archive demo_env ''ses1'' demo_db = Inr ([''del1''], d')"
proof -
  have "retirable ''ses1'' demo_row"
    by (simp add: retirable_def RUN_CANCEL_RETIRE_STATES_def matrix_defs)
  then show ?thesis using archive_exact [OF demo_ok, of demo_env "''ses1''"] by (auto simp: demo_db_def)
qed

end
