(* ===== verification/DeliveryHistory.thy ===== *)
theory DeliveryHistory
  imports DeliveryProperties
begin

text \<open>
  What the store reads back from a Delivery's content: the hold an unwritten permanent failure
  leaves in the history, the count of startup failures since the last Retry, deduplication
  keys, the metadata that leaves the process, and the composer draft; and when a withdrawal
  succeeds.
\<close>

section \<open>History scans\<close>

lemma receipt_scan_completed:
  "receipt_scan False es = Inr (Some rc) \<Longrightarrow> receipt_scan True es = Inr (Some rc)"
  by (induction "False" es rule: receipt_scan.induct)
    (auto simp: bind_result_eq_Inr split: if_splits)

lemma failures_scan_add: "failures_scan (n + k) es = map_sum id ((+) k) (failures_scan n es)"
proof (induction n es rule: failures_scan.induct)
  case (2 count e es)
  then show ?case
    by (cases "event_dict e"; cases "object_or_empty (jget (projr (event_dict e)) ''receipt'')")
      (auto simp: add.commute)
qed simp

lemma start_kind_not_retry: "has_kind e ''start'' \<Longrightarrow> \<not> has_kind e FAILURE_RETRY_HISTORY_KIND"
  by (simp add: has_kind_def FAILURE_RETRY_HISTORY_KIND_def)

lemma has_outcome_simps:
  "jget e ''outcome'' = JStr a \<Longrightarrow> has_outcome e xs \<longleftrightarrow> a \<in> set xs"
  by (auto simp: has_outcome_def)

text \<open>
  C11: a hold on a Delivery survives an attempt. When the history says that an unwritten start
  needs an explicit retry, and the owner lets the Delivery start once more (it is claimed or
  opened) and that start fails without writing for some other reason, the hold is still there
  with the same receipt: sending once does not clear it.
\<close>

theorem explicit_retry_hold_survives:
  assumes "explicit_start_retry_receipt r = Inr (Some receipt)"
    and "events_of r' = events_of r @ [JObj claimed, JObj failed]"
    and "has_kind claimed ''start''" and "has_outcome claimed [''claimed'', ''opened'']"
    and "\<not> has_outcome claimed [''not_written'']"
    and "has_kind failed ''start''" and "has_outcome failed [''not_written'']"
    and "jget failed ''receipt'' = JObj other" and "jget other ''requires_explicit_retry'' \<noteq> JBool True"
  shows "explicit_start_retry_receipt r' = Inr (Some receipt)"
proof -
  have scan: "receipt_scan True (rev (events_of r)) = Inr (Some receipt)"
    using receipt_scan_completed assms(1) by (simp add: explicit_start_retry_receipt_def events_of_def)
  have obj: "object_or_empty (JObj other) = Inr other \<or> object_or_empty (JObj other) = Inr fmempty"
    by (simp add: object_or_empty_def)
  have "jget fmempty ''requires_explicit_retry'' \<noteq> JBool True" by (simp add: jget_def)
  then have "receipt_scan False (rev (events_of r')) = receipt_scan True (rev (events_of r))"
    using assms(2-9) obj by (auto simp: event_dict_def start_kind_not_retry)
  then show ?thesis using scan by (simp add: explicit_start_retry_receipt_def events_of_def)
qed

definition hold_event :: "jobj" where
  "hold_event = jdict [(''kind'', JStr ''start''), (''outcome'', JStr ''not_written''),
     (''receipt'', JObj (jdict [(''requires_explicit_retry'', JBool True), (''reason'', JStr ''auth'')]))]"

definition claim_event :: "jobj" where
  "claim_event = jdict [(''kind'', JStr ''start''), (''outcome'', JStr ''claimed'')]"

definition fail_event :: "jobj" where
  "fail_event = jdict [(''kind'', JStr ''start''), (''outcome'', JStr ''not_written''),
     (''receipt'', JObj (jdict [(''kind'', JStr ''definitive_prewrite_failure''), (''reason'', JStr ''no_terminal_result'')]))]"

definition with_history :: "json list \<Rightarrow> delivery" where
  "with_history es = demo_row\<lparr>d_delivery_history_json := history_json es\<rparr>"

lemma events_with_history [simp]: "events_of (with_history es) = es"
  by (simp add: events_of_def with_history_def)

theorem explicit_retry_hold_survives_witness:
  "explicit_start_retry_receipt (with_history [JObj hold_event, JObj claim_event, JObj fail_event]) =
     Inr (Some (jdict [(''requires_explicit_retry'', JBool True), (''reason'', JStr ''auth'')]))"
proof (rule explicit_retry_hold_survives [where r = "with_history [JObj hold_event]"
      and other = "jdict [(''kind'', JStr ''definitive_prewrite_failure''), (''reason'', JStr ''no_terminal_result'')]"])
  show "explicit_start_retry_receipt (with_history [JObj hold_event]) =
     Inr (Some (jdict [(''requires_explicit_retry'', JBool True), (''reason'', JStr ''auth'')]))"
    by code_simp
qed (simp, code_simp+)

text \<open>
  C12: the failure count of a Delivery counts exactly the startup failures since the last
  Retry: another definitive pre-write failure adds one, a refused concurrent start and a claim
  add nothing, and a recorded Retry brings it back to zero.
\<close>

definition start_failure :: "jobj \<Rightarrow> string \<Rightarrow> bool" where
  "start_failure event reason \<longleftrightarrow> has_kind event ''start'' \<and> jget event ''outcome'' = JStr ''not_written''
     \<and> (\<exists>receipt. jget event ''receipt'' = JObj receipt \<and> jget receipt ''reason'' = JStr reason
          \<and> jget receipt ''kind'' = JStr ''definitive_prewrite_failure'')"

theorem failure_count_steps:
  assumes "consecutive_prewrite_start_failures r = Inr n"
    and "events_of r' = events_of r @ [JObj event]"
  shows "(has_kind event FAILURE_RETRY_HISTORY_KIND \<longrightarrow> consecutive_prewrite_start_failures r' = Inr 0)
    \<and> (has_kind event ''start'' \<and> has_outcome event [''claimed'', ''opened''] \<longrightarrow>
        consecutive_prewrite_start_failures r' = Inr n)
    \<and> (start_failure event ''refused_concurrent_turn'' \<longrightarrow> consecutive_prewrite_start_failures r' = Inr n)
    \<and> (start_failure event ''no_terminal_result'' \<longrightarrow> consecutive_prewrite_start_failures r' = Inr (Suc n))"
proof -
  have n: "failures_scan 0 (rev (events_of r)) = Inr n"
    using assms(1) by (simp add: consecutive_prewrite_start_failures_def events_of_def)
  then have suc: "failures_scan (Suc 0) (rev (events_of r)) = Inr (Suc n)"
    using failures_scan_add [of 0 1 "rev (events_of r)"] by simp
  have r': "consecutive_prewrite_start_failures r' = failures_scan 0 (JObj event # rev (events_of r))"
    using assms(2) by (simp add: consecutive_prewrite_start_failures_def events_of_def)
  have obj: "object_or_empty (JObj m) = Inr m" for m by (simp add: object_or_empty_def)
  show ?thesis
    using n suc unfolding r'
    by (auto simp: event_dict_def start_failure_def start_kind_not_retry has_outcome_simps obj)
qed

theorem failure_count_steps_witness:
  "consecutive_prewrite_start_failures (with_history [JObj fail_event, JObj claim_event, JObj fail_event]) = Inr 2"
proof -
  have one: "consecutive_prewrite_start_failures (with_history [JObj fail_event, JObj claim_event]) = Inr 1"
    by code_simp
  have "has_kind fail_event ''start''" "jget fail_event ''outcome'' = JStr ''not_written''" by code_simp+
  moreover have "jget fail_event ''receipt'' = JObj (jdict [(''kind'', JStr ''definitive_prewrite_failure''),
      (''reason'', JStr ''no_terminal_result'')])" by (simp add: fail_event_def)
  ultimately have "start_failure fail_event ''no_terminal_result''"
    by (auto simp: start_failure_def)
  then show ?thesis
    using failure_count_steps [OF one, of "with_history [JObj fail_event, JObj claim_event, JObj fail_event]" fail_event]
    by simp
qed

section \<open>Deduplication\<close>

lemma split_at_colon:
  assumes "'':''!0 \<notin> set xs" and "'':''!0 \<notin> set ys" and "xs @ '':'' @ us = ys @ '':'' @ vs"
  shows "xs = ys \<and> us = vs"
  using assms
proof (induction xs arbitrary: ys)
  case Nil
  then show ?case by (cases ys) auto
next
  case (Cons x xs)
  then show ?case by (cases ys) auto
qed

lemma colon_not_in_nat_str: "'':''!0 \<notin> set (nat_str n)"
  using nat_str_digits [of "'':''!0" n] by auto

text \<open>
  C14: scoped deduplication keys are collision free. Two Messages of a platform, each with a
  non-empty native identifier and a non-empty scope, get the same key only when scope and
  identifier agree (up to surrounding white space), whatever characters they contain: the
  length prefix keeps the two apart.
\<close>

theorem native_dedupe_key_injective:
  assumes "native_dedupe_key p (Some n) (Some s) = native_dedupe_key p (Some n') (Some s')"
    and "py_strip n \<noteq> []" "py_strip s \<noteq> []" "py_strip n' \<noteq> []" "py_strip s' \<noteq> []"
  shows "py_strip s = py_strip s' \<and> py_strip n = py_strip n'"
proof -
  let ?s = "py_strip s" and ?s' = "py_strip s'" and ?n = "py_strip n" and ?n' = "py_strip n'"
  have "nat_str (length ?s) @ '':'' @ (?s @ '':'' @ ?n) = nat_str (length ?s') @ '':'' @ (?s' @ '':'' @ ?n')"
    using assms by (simp add: native_dedupe_key_def Let_def)
  then have "nat_str (length ?s) = nat_str (length ?s') \<and> ?s @ '':'' @ ?n = ?s' @ '':'' @ ?n'"
    by (rule split_at_colon [OF colon_not_in_nat_str colon_not_in_nat_str])
  then show ?thesis using nat_str_inject [of "length ?s" "length ?s'"] by simp
qed

theorem native_dedupe_key_injective_witness:
  "native_dedupe_key ''slack'' (Some ''1:2'') (Some ''a'') \<noteq> native_dedupe_key ''slack'' (Some ''2'') (Some ''a:1'')"
proof
  assume "native_dedupe_key ''slack'' (Some ''1:2'') (Some ''a'') = native_dedupe_key ''slack'' (Some ''2'') (Some ''a:1'')"
  then have "py_strip ''a'' = py_strip ''a:1'' \<and> py_strip ''1:2'' = py_strip ''2''"
    by (rule native_dedupe_key_injective) (simp_all add: py_text_defs)
  then show False by (simp add: py_text_defs)
qed

text \<open>
  C13: one native Message is admitted once. While a Delivery holds a deduplication key, every
  attempt to insert another Delivery with that key is refused by the unique index, so the
  Message is never stored twice.
\<close>

theorem duplicate_submission_refused:
  assumes "schema_ok d" and "get_delivery_by_dedupe d key = Some r"
  shows "insert_delivery env (plain_input i s p st snap txt (Some key) ev now) d = Inl IntegrityError"
proof -
  let ?new = "delivery_row env (plain_input i s p st snap txt (Some key) ev now)"
  have r: "r \<in> set (deliveries d)" "d_dedupe_key r = Some key"
    using assms(2) by (auto simp: get_delivery_by_dedupe_def find_Some_iff)
  have "d_dedupe_key ?new = Some key" by (simp add: delivery_row_def Let_def plain_input_def)
  then have "\<not> unique_where (\<lambda>r. d_dedupe_key r \<noteq> None) d_dedupe_key (deliveries d @ [?new])"
    using r by (force simp: unique_where_def)
  then show ?thesis
    by (simp add: insert_delivery_def Let_def insert_deliveries_def delivery_table_ok_def delivery_uniques_def)
qed

definition demo_keyed :: db where
  "demo_keyed = after empty_db (insert_delivery demo_env (plain_input ''del1'' ''ses1'' P3 Queued
     (message_snapshot demo_message) ''hello'' (Some ''slack:1'') None None) empty_db)"

theorem duplicate_submission_refused_witness:
  "insert_delivery demo_env (plain_input ''del2'' ''ses1'' P3 Queued fmempty ''x'' (Some ''slack:1'') None None) demo_keyed
     = Inl IntegrityError"
proof -
  have run: "\<not> isl (insert_delivery demo_env (plain_input ''del1'' ''ses1'' P3 Queued
     (message_snapshot demo_message) ''hello'' (Some ''slack:1'') None None) empty_db)" by code_simp
  have "store_ok demo_keyed"
    using submit_keeps [OF empty_db_ok _ after_run [OF run, of empty_db]] keeps_store_ok
    by (simp add: demo_keyed_def)
  moreover have "get_delivery_by_dedupe demo_keyed ''slack:1'' \<noteq> None" by code_simp
  ultimately show ?thesis using duplicate_submission_refused store_ok_schema by blast
qed

section \<open>Withdrawal\<close>

lemma saved_of_cas:
  assumes "cas_delivery env i v states f ev d = Inr (Some r, d')"
  shows "saved (cas_delivery env i v states f ev d) = Inr (True, d')"
  by (simp add: saved_def assms)

text \<open>
  C10: withdrawing a Delivery before its native write (\<open>retire_not_written\<close>) never raises. It
  succeeds exactly when the Delivery exists, belongs to the Session and is in a state whose
  policy says that nothing was written; then the row is retired, with its Turn membership and
  attempt cleared, and otherwise nothing changes.
\<close>

theorem retire_not_written_exact:
  assumes "store_ok d"
  shows "\<exists>b d'. retire_not_written env s i why d = Inr (b, d')
    \<and> (b \<longleftrightarrow> (\<exists>r. get_delivery d i = Some r \<and> d_session_id r = s \<and> run_cancel (policy_of (d_state r)) = CancelRetire))
    \<and> (\<not> b \<longrightarrow> d' = d)
    \<and> (b \<longrightarrow> (\<exists>r. get_delivery d' i = Some r \<and> d_state r = Retired \<and> d_turn_id r = None
          \<and> d_current_attempt_id r = None))"
proof (cases "\<exists>r. get_delivery d i = Some r \<and> d_session_id r = s \<and> run_cancel (policy_of (d_state r)) = CancelRetire")
  case True
  then obtain r where r: "get_delivery d i = Some r" "d_session_id r = s" "run_cancel (policy_of (d_state r)) = CancelRetire"
    by blast
  let ?new = "updated_delivery env (withdraw_values env) (Some (retire_event why)) r"
  have "d_state r \<noteq> Accepted" using cancel_retire_live [OF r(3)] by simp
  then have cas: "cas_delivery env i (d_version r) [d_state r] (withdraw_values env) (Some (retire_event why)) d =
      Inr (Some ?new, put_delivery ?new d)"
    using withdraw_values_shape [OF store_ok_row [OF assms r(1)]]
    by (intro cas_delivery_succeeds [OF assms frame_ok_writes(4) r(1)]) (simp_all add: write_defs)
  have "retire_not_written env s i why d = Inr (True, put_delivery ?new d)"
    using r saved_of_cas [OF cas] by (simp add: retire_not_written_def)
  moreover have "get_delivery (put_delivery ?new d) i = Some ?new"
    using get_delivery_put_updated [OF r(1), of "withdraw_values env" env _ _ _ i] by simp
  ultimately show ?thesis using True by (intro exI [of _ True] exI [of _ "put_delivery ?new d"]) (simp add: write_defs)
next
  case False
  then have "retire_not_written env s i why d = Inr (False, d)"
    by (auto simp: retire_not_written_def split: option.split)
  then show ?thesis using False by auto
qed

theorem retire_not_written_exact_witness:
  "\<exists>d'. retire_not_written demo_env ''ses1'' ''del1'' ''stop'' demo_db = Inr (True, d')"
  using retire_not_written_exact [OF demo_ok, of demo_env "''ses1''" "''del1''" "''stop''"]
  by (auto simp: demo_get)

section \<open>Metadata that leaves the process\<close>

text \<open>Every key at every depth of a JSON value, as far as it is not an unparsed text.\<close>

primrec all_keys :: "json \<Rightarrow> string set" where
  "all_keys JNull = {}"
| "all_keys (JBool b) = {}"
| "all_keys (JInt n) = {}"
| "all_keys (JStr s) = {}"
| "all_keys (JDoc v) = {}"
| "all_keys (JList xs) = \<Union> (set (map all_keys xs))"
| "all_keys (JObj m) = fset (fmdom m) \<union> \<Union> (fset (fmran (fmmap all_keys m)))"

definition private_key :: "string \<Rightarrow> bool" where
  "private_key k \<longleftrightarrow> k \<in> {''resource_user_context'', ''delegated_memory_owner''}
     \<or> take 10 k = ''_web_push_'' \<or> take 8 k = ''_memory_''"

lemma all_keys_without_private:
  "k \<in> all_keys (without_private_fields detail v) \<Longrightarrow>
     \<not> private_key k \<and> (\<not> detail \<longrightarrow> k \<noteq> ''local_error_detail'')"
proof (induction v)
  case (JObj m)
  let ?ok = "\<lambda>key. key \<notin> {''resource_user_context'', ''delegated_memory_owner''}
             \<and> take 10 key \<noteq> ''_web_push_'' \<and> take 8 key \<noteq> ''_memory_'' \<and> (detail \<or> key \<noteq> ''local_error_detail'')"
  let ?m = "fmfilter ?ok (fmmap (without_private_fields detail) m)"
  from JObj.prems consider "k \<in> fset (fmdom ?m)" | x where "x \<in> fset (fmran ?m)" "k \<in> all_keys x"
    by (auto simp: fmran_fmmap)
  then show ?case
  proof cases
    case 1
    then show ?thesis by (auto simp: private_key_def)
  next
    case 2
    then obtain j y where "fmlookup m j = Some y" "x = without_private_fields detail y"
      by (auto simp: fmlookup_ran_iff split: if_splits)
    then show ?thesis using JObj.IH [of y] 2(2) by (auto intro: fmran'I)
  qed
qed auto

text \<open>
  C15: no private field leaves through \<open>public_message_metadata\<close>, at any depth of nested
  dictionaries and lists: neither the Web Push keys and contexts, nor the memory and delegated
  owner fields, nor the resource user context, nor (unless it is asked for) the local error
  detail.
\<close>

theorem public_metadata_has_no_private_key:
  "\<forall>k\<in>all_keys (public_message_metadata metadata detail).
     \<not> private_key k \<and> (\<not> detail \<longrightarrow> k \<noteq> ''local_error_detail'')"
  unfolding public_message_metadata_def using all_keys_without_private by blast

theorem public_metadata_has_no_private_key_witness:
  "''_memory_user_id'' \<notin> all_keys (public_message_metadata
     (JObj (jdict [(''a'', JObj (jdict [(''_memory_user_id'', JStr ''u'')]))])) False)" (is "_ \<notin> ?keys")
proof
  assume "''_memory_user_id'' \<in> ?keys"
  then have "\<not> private_key ''_memory_user_id''" using public_metadata_has_no_private_key by blast
  then show False by (simp add: private_key_def)
qed

section \<open>Intents and drafts\<close>

text \<open>
  C16: intents and priorities round-trip. The priority of an intent leads back to that intent,
  the legacy name \<open>send_now\<close> means steering, and a name that is neither an intent nor an alias
  raises instead of falling back to a default.
\<close>

theorem intent_priority_roundtrip:
  "delivery_intent_for_priority (priority_name (priority_of_intent i)) = Inr i
   \<and> priority_for_delivery_intent (intent_name i) = Inr (priority_of_intent i)
   \<and> priority_for_delivery_intent ''send_now'' = Inr P1
   \<and> (py_lower (py_strip x) \<notin> {''replace'', ''steer'', ''queue'', ''send_now''} \<longrightarrow>
        priority_for_delivery_intent x = Inl (ValueError (''unsupported delivery intent: '' @ x)))"
proof -
  have "priority_for_delivery_intent ''send_now'' = Inr P1" by code_simp
  moreover have "normalize_delivery_intent x = Inl (ValueError (''unsupported delivery intent: '' @ x))"
    if "py_lower (py_strip x) \<notin> {''replace'', ''steer'', ''queue'', ''send_now''}"
    using that by (simp add: normalize_delivery_intent_def intent_tables Let_def)
  ultimately show ?thesis by (simp add: priority_for_delivery_intent_def)
qed

theorem intent_priority_roundtrip_witness:
  "priority_for_delivery_intent ''later'' = Inl (ValueError ''unsupported delivery intent: later'')"
  using intent_priority_roundtrip [of Steer "''later''"] by (simp add: py_text_defs)

text \<open>
  C17: a composer draft is read back as it was saved. Saving a text that is not blank and
  reading the draft of that Session gives the text and the time it was saved; a blank text
  clears the draft; no other Session's draft changes.
\<close>

theorem draft_roundtrip:
  assumes "row_of a_id (sessions d) s \<noteq> None" and "set_draft env s text d = (b, d')"
  shows "get_draft d' s = (if py_strip (opt_str text) \<noteq> [] then Some (opt_str text, Some (turn_now_iso env)) else None)
    \<and> (\<forall>s'. s' \<noteq> s \<longrightarrow> get_draft d' s' = get_draft d s')"
proof -
  have ne: "opt_str text \<noteq> []" if "py_strip (opt_str text) \<noteq> []" using that by auto
  have d': "d' = snd (set_draft env s text d)" using assms(2) by simp
  have row: "row_of a_id (sessions d') s' = map_option (\<lambda>a. if a_id a = s then a\<lparr>a_composer_draft_text :=
      (if py_strip (opt_str text) \<noteq> [] then text else None), a_composer_draft_updated_at := Some (turn_now_iso env),
      a_updated_at := turn_now_iso env\<rparr> else a) (row_of a_id (sessions d) s')" for s'
    unfolding d' set_draft_def Let_def by (simp add: row_of_update_where)
  obtain a where "row_of a_id (sessions d) s = Some a" "a_id a = s" using assms(1) row_of_SomeD by force
  then have "get_draft d' s = (if py_strip (opt_str text) \<noteq> [] then Some (opt_str text, Some (turn_now_iso env)) else None)"
    using row ne by (auto simp: get_draft_def get_draft_state_def)
  moreover have "get_draft d' s' = get_draft d s'" if "s' \<noteq> s" for s'
    using that row [of s'] row_of_SomeD [of a_id "sessions d" s']
    by (cases "row_of a_id (sessions d) s'") (auto simp: get_draft_def get_draft_state_def)
  ultimately show ?thesis by blast
qed

definition demo_session_db :: db where
  "demo_session_db = empty_db\<lparr>sessions := [\<lparr>a_id = ''s'', a_status = ''active'', a_visibility = ''x'',
     a_agent_backend = None, a_composer_draft_text = None, a_composer_draft_updated_at = None, a_updated_at = ''t''\<rparr>]\<rparr>"

theorem draft_roundtrip_witness:
  "get_draft (snd (set_draft demo_env ''s'' (Some ''hi'') demo_session_db)) ''s'' = Some (''hi'', Some ''2026-01-01T00:00:02Z'')"
proof -
  obtain b d' where run: "set_draft demo_env ''s'' (Some ''hi'') demo_session_db = (b, d')"
    by (cases "set_draft demo_env ''s'' (Some ''hi'') demo_session_db")
  have "row_of a_id (sessions demo_session_db) ''s'' \<noteq> None" by (simp add: demo_session_db_def)
  then show ?thesis using draft_roundtrip [OF _ run] run by (simp add: py_text_defs demo_env_def)
qed

section \<open>A constraint that does not constrain\<close>

lemma terminal_turn_columns:
  assumes "outcome \<noteq> ''not_written''" and new: "new = updated_turn env (terminal_values env t outcome settled kind ev) t"
  shows "t_id new = t_id t" "t_session_id new = t_session_id t" "t_state new = Terminal"
    "t_start_receipt_outcome new = t_start_receipt_outcome t" "t_control_attempt_id new = t_control_attempt_id t"
    "t_start_attempt_id new = t_start_attempt_id t" "t_dispatch_text new = t_dispatch_text t"
    "t_dispatch_sha256 new = t_dispatch_sha256 t" "t_terminal_outcome new = Some outcome" "t_terminal_at new = Some (turn_now_iso env)"
    "ck_session_turns_control new = ck_session_turns_control t"
  using assms(1) by (simp_all add: new turn_update_def Let_def terminal_values_def records_not_written_def ck_session_turns_control_def)

lemma terminal_turn_check:
  assumes shape: "turn_shape t" and state: "t_state t = Starting" and outcome: "outcome \<in> {''completed'', ''failed'', ''canceled''}"
    and new: "new = updated_turn env (terminal_values env t outcome settled kind ev) t"
  shows "turn_check new \<longleftrightarrow> t_start_receipt_outcome t = None \<or> outcome = ''failed''"
proof -
  have written: "t_start_attempt_id t \<noteq> None" "t_dispatch_text t \<noteq> None" "t_dispatch_sha256 t \<noteq> None"
    and receipt: "t_start_receipt_outcome t = None \<or> t_start_receipt_outcome t = Some ''unknown''"
    and control: "ck_session_turns_control t"
    using shape state by (auto simp: turn_shape_def turn_start_ok_def start_written_def)
  have "outcome \<noteq> ''not_written''" using outcome by auto
  note columns = terminal_turn_columns [OF this new]
  have "ck_session_turns_outcomes new" "ck_session_turns_terminal_shape new"
    using receipt outcome by (auto simp: columns ck_session_turns_outcomes_def ck_session_turns_terminal_shape_def)
  moreover have "ck_session_turns_start_shape new \<longleftrightarrow> t_start_receipt_outcome t = None \<or> outcome = ''failed''"
    using receipt
  proof
    assume "t_start_receipt_outcome t = None"
    then show ?thesis using written outcome by (auto simp: columns ck_session_turns_start_shape_def start_columns_def)
  next
    assume "t_start_receipt_outcome t = Some ''unknown''"
    then show ?thesis using written outcome by (simp add: columns ck_session_turns_start_shape_def start_columns_def) blast
  qed
  ultimately show ?thesis using control by (simp add: turn_check_def columns)
qed

lemma terminal_turn_uniques:
  assumes "turn_uniques ts" and "t \<in> set ts" and "t_state t = Starting" and "t_start_receipt_outcome t \<noteq> Some ''accepted''"
    and "outcome \<noteq> ''not_written''" and new: "new = updated_turn env (terminal_values env t outcome settled kind ev) t"
  shows "turn_uniques (update_where (\<lambda>x. t_id x = t_id new) (\<lambda>_. new) ts)"
proof -
  note key = terminal_turn_columns [OF assms(5) new]
  have ids: "distinct (map t_id ts)" using assms(1) by (simp add: turn_uniques_def)
  have same: "unique_where p f (update_where (\<lambda>x. t_id x = t_id new) (\<lambda>_. new) ts)"
    if u: "unique_where p f ts" and "p new \<Longrightarrow> p t \<and> f new = f t" for p and f :: "turn \<Rightarrow> 'b"
  proof (rule unique_where_replace [OF ids u])
    assume "p new"
    then have "p t" "f new = f t" using that(2) by auto
    then show "\<forall>x\<in>set ts. t_id x \<noteq> t_id new \<longrightarrow> p x \<longrightarrow> f x \<noteq> f new"
      using unique_whereD [OF u _ assms(2)] key(1) by metis
  qed
  show ?thesis
    unfolding turn_uniques_def
  proof (intro conjI)
    show "distinct (map t_id (update_where (\<lambda>x. t_id x = t_id new) (\<lambda>_. new) ts))"
      using ids map_key_update_where [of "\<lambda>x. t_id x = t_id new" t_id "\<lambda>_. new" ts] by simp
  qed (rule same; use assms(1) [unfolded turn_uniques_def] assms(4) key in \<open>auto simp: turn_live_def\<close>)+
qed

text \<open>
  C18: the start-shape constraint of a Turn compares \<open>start_receipt_outcome\<close> with a text. A start that was
  answered with \<open>unknown\<close> can only be settled as failed: every other outcome is refused. But when the column is
  \<open>NULL\<close>, because the start was never acknowledged, the comparison is neither true nor false and SQLite
  lets the row pass: such a Turn is stored as terminal with whatever outcome is asked for, completed included.
\<close>

theorem completed_without_receipt:
  assumes "store_ok d" and "get_turn d i = Some t" and "t_state t = Starting"
    and "outcome \<in> {''completed'', ''failed'', ''canceled''}"
  shows "(t_start_receipt_outcome t = None \<longrightarrow>
      (\<exists>t' d'. terminalize_turn env i outcome settled kind ev d = Inr ((True, Some t'), d') \<and> get_turn d' i = Some t'
         \<and> t_state t' = Terminal \<and> t_terminal_outcome t' = Some outcome \<and> t_start_receipt_outcome t' = None))
    \<and> (t_start_receipt_outcome t = Some ''unknown'' \<and> outcome \<noteq> ''failed'' \<longrightarrow>
      terminalize_turn env i outcome settled kind ev d = Inl IntegrityError)"
proof -
  let ?e = "case ev of None \<Rightarrow> fmempty | Some e \<Rightarrow> e"
  let ?v = "terminal_values env t outcome settled kind ?e"
  define new where "new = updated_turn env ?v t"
  have schema: "schema_ok d" using store_ok_schema [OF assms(1)] .
  have t: "t \<in> set (turns d)" "t_id t = i" using assms(2) get_turn_iff [OF schema] by auto
  have shape: "turn_shape t" using assms(1) t(1) by (auto simp: store_ok_def list_all_iff)
  have receipt: "t_start_receipt_outcome t \<in> {None, Some ''unknown''}"
    using shape assms(3) by (auto simp: turn_shape_def turn_start_ok_def)
  have outcome: "outcome \<noteq> ''not_written''" using assms(4) by auto
  note id = terminal_turn_columns [OF outcome new_def]
  have run: "terminalize_turn env i outcome settled kind ev d =
      (if turn_table_ok (turns (put_turn new d)) then Inr ((True, Some new), put_turn new d) else Inl IntegrityError)"
    using assms cas_turn_eq [OF schema, of ?v env i "t_version t" "[t_state t]"]
    by (auto simp: terminalize_turn_def new_def terminal_values_def records_not_written_def)
  have "turn_uniques (turns (put_turn new d))"
    using terminal_turn_uniques [OF _ t(1) assms(3) _ _ new_def] schema receipt assms(4)
    by (auto simp: put_turn_def schema_ok_def turn_table_ok_def)
  moreover have "list_all turn_check (turns (put_turn new d)) \<longleftrightarrow> turn_check new"
    using schema t(1) id(1) by (auto simp: put_turn_def schema_ok_def turn_table_ok_def list_all_iff set_update_where)
  moreover have "get_turn (put_turn new d) i = Some new"
    using assms(2) id(1) t(2) by (simp add: get_turn_def put_turn_def row_of_update_where)
  ultimately show ?thesis
    using run id terminal_turn_check [OF shape assms(3,4) new_def]
    by (auto simp: turn_table_ok_def)
qed

theorem completed_without_receipt_witness:
  "\<exists>t d'. terminalize_turn demo_env ''turn1'' ''completed'' None ''native'' None demo_claimed = Inr ((True, Some t), d')
     \<and> t_terminal_outcome t = Some ''completed'' \<and> t_start_receipt_outcome t = None"
proof -
  have "case get_turn demo_claimed ''turn1'' of None \<Rightarrow> False
      | Some t \<Rightarrow> t_state t = Starting \<and> t_start_receipt_outcome t = None" by code_simp
  then obtain t where "get_turn demo_claimed ''turn1'' = Some t" "t_state t = Starting" "t_start_receipt_outcome t = None"
    by (auto split: option.splits)
  then show ?thesis
    using completed_without_receipt [OF demo_claimed_ok, of "''turn1''" t "''completed''" demo_env None "''native''" None] by auto
qed

end
