(* ===== verification/Admission.thy ===== *)
theory Admission
  imports DeliveryHistory
begin

text \<open>
  The admission entry (\<open>src/core/input_admission.py\<close>): an input envelope, the policy that
  decides its priority, and the reservation of its Delivery. The policy is a parameter of
  the entry; the locale \<open>admission_policy\<close> states what the entry relies on, and the default
  policy is its instance.
\<close>

section \<open>Envelopes and decisions\<close>

datatype input_source = WebComposer | Im | Harness | ShowAnnotation | FailureRetry | AgentInitiated

fun source_name :: "input_source \<Rightarrow> string" where
  "source_name WebComposer = ''web_composer''"
| "source_name Im = ''im''"
| "source_name Harness = ''harness''"
| "source_name ShowAnnotation = ''show_annotation''"
| "source_name FailureRetry = ''failure_retry''"
| "source_name AgentInitiated = ''agent_initiated''"

record input_sender =
  sender_kind :: string
  sender_id :: "string option"
  sender_name :: "string option"

record input_provenance =
  p_source :: input_source
  p_platform :: string
  p_origin :: string
  p_native_message_id :: "string option"
  p_parent_native_message_id :: "string option"
  p_trigger :: "string option"

record input_envelope =
  e_session_id :: string
  e_scope_id :: "string option"
  e_sender :: input_sender
  e_kind :: string
  e_provenance :: input_provenance
  e_dispatch_text :: string
  e_text :: "string option"
  e_content :: "jobj option"
  e_metadata :: "jobj option"
  e_message_kind :: "string option"
  e_requested_intent :: "string option"
  e_backend :: "string option"
  e_subagent :: "string option"
  e_to_bot :: bool

definition envelope_message :: "input_envelope \<Rightarrow> message_input" where
  "envelope_message e =
     \<lparr>mi_scope_id = e_scope_id e, mi_session_id = e_session_id e,
      mi_platform = p_platform (e_provenance e), mi_author = sender_kind (e_sender e),
      mi_source = Some (p_origin (e_provenance e)), mi_message_type = Some (e_kind e), mi_text = e_text e,
      mi_content = e_content e, mi_metadata = e_metadata e, mi_author_id = sender_id (e_sender e),
      mi_author_name = sender_name (e_sender e),
      mi_native_message_id = p_native_message_id (e_provenance e),
      mi_parent_native_message_id = p_parent_native_message_id (e_provenance e),
      mi_message_kind = e_message_kind e, mi_read_at = None\<rparr>"

definition envelope_snapshot :: "input_envelope \<Rightarrow> jobj" where
  "envelope_snapshot e = message_snapshot (envelope_message e)"

record admission_decision =
  dec_intent :: delivery_intent
  dec_policy :: string
  dec_reason :: string

definition decision_priority :: "admission_decision \<Rightarrow> delivery_priority" where
  "decision_priority dec = priority_of_intent (dec_intent dec)"

definition decision_record :: "admission_decision \<Rightarrow> jobj" where
  "decision_record dec = jdict [(''id'', JStr (dec_policy dec)), (''reason'', JStr (dec_reason dec))]"

section \<open>The default policy\<close>

definition default_decision :: "delivery_intent \<Rightarrow> string \<Rightarrow> admission_decision" where
  "default_decision intent reason = \<lparr>dec_intent = intent, dec_policy = ''default'', dec_reason = reason\<rparr>"

definition decide_harness :: "input_envelope \<Rightarrow> admission_decision result" where
  "decide_harness e =
     (case e_requested_intent e of
        Some requested \<Rightarrow>
          bind_result (normalize_delivery_intent requested) (\<lambda>intent.
            Inr (default_decision intent (''requested:'' @ py_lower (py_strip requested))))
      | None \<Rightarrow>
         (let trigger = py_strip (opt_str (p_trigger (e_provenance e))) in
          if trigger \<noteq> []
          then bind_result (delivery_intent_for_trigger trigger) (\<lambda>intent.
                 Inr (default_decision intent (''trigger:'' @ trigger)))
          else Inr (default_decision Steer ''harness_default'')))"

definition default_decide :: "input_envelope \<Rightarrow> admission_decision result" where
  "default_decide e =
     (let source = p_source (e_provenance e) in
      if source = Harness then decide_harness e
      else if source = Im then
        (if e_backend e = Some ''opencode'' \<and> opt_str (e_subagent e) \<noteq> []
         then Inr (default_decision Queue ''opencode_subagent'')
         else bind_result (delivery_intent_for_trigger ''im'') (\<lambda>intent.
                Inr (default_decision intent ''source:im'')))
      else if source = ShowAnnotation then
        bind_result (delivery_intent_for_trigger ''show_annotation'') (\<lambda>intent.
          Inr (default_decision intent ''source:show_annotation''))
      else if source = WebComposer \<and> e_to_bot e \<and> sender_kind (e_sender e) = ''user''
      then Inr (default_decision Steer ''bot_conversation'')
      else if source \<in> {WebComposer, FailureRetry, AgentInitiated}
      then Inr (default_decision Queue (''source:'' @ source_name source))
      else Inl (ValueError (''unsupported input source: '' @ source_name source)))"

section \<open>Reserving the Delivery\<close>

definition existing_delivery :: "string \<Rightarrow> string \<Rightarrow> string \<Rightarrow> string option \<Rightarrow> string option \<Rightarrow> db
    \<Rightarrow> (delivery option \<times> db) result" where
  "existing_delivery session_id delivery_id platform native_message_id scope_id d =
     (case get_delivery d delivery_id of
        Some existing \<Rightarrow>
          if d_session_id existing \<noteq> session_id
          then Inl (ValueError ''Delivery does not belong to the target Session'')
          else Inr (Some existing, d)
      | None \<Rightarrow>
         if native_dedupe_key platform native_message_id scope_id = None then Inr (None, d)
         else bind_result (get_delivery_by_native_identity platform (Some (opt_str native_message_id)) scope_id
                (Some session_id) True d) (\<lambda>(existing, d').
              case existing of
                None \<Rightarrow> Inr (None, d')
              | Some r \<Rightarrow>
                 if d_session_id r \<noteq> session_id
                 then Inl (ValueError ''Delivery dedupe identity belongs to another Session'')
                 else Inr (Some r, d')))"

definition admission_event :: "admission_decision \<Rightarrow> jobj option \<Rightarrow> jobj option \<Rightarrow> jobj" where
  "admission_event decision admission_context history =
     fmupd ''policy'' (JObj (decision_record decision))
       (case history of
          Some h \<Rightarrow> h
        | None \<Rightarrow>
           (let event = jdict [(''kind'', JStr ''admission''),
                  (''priority'', JStr (priority_name (decision_priority decision))), (''state'', JStr ''reserved'')]
            in case admission_context of
                 None \<Rightarrow> event
               | Some c \<Rightarrow> if c = fmempty then event else fmupd ''context'' (JObj c) event))"

definition reserve_input :: "env \<Rightarrow> input_envelope \<Rightarrow> admission_decision \<Rightarrow> string \<Rightarrow> string option
    \<Rightarrow> jobj option \<Rightarrow> jobj option \<Rightarrow> db \<Rightarrow> (delivery \<times> db) result" where
  "reserve_input env envelope decision delivery_id dedupe_key admission_context history d =
     insert_delivery env (plain_input delivery_id (e_session_id envelope) (decision_priority decision) Reserved
       (envelope_snapshot envelope) (e_dispatch_text envelope) dedupe_key
       (Some (admission_event decision admission_context history)) None) d"

record admitted_input =
  ad_delivery :: delivery
  ad_decision :: admission_decision

definition admit_input :: "env \<Rightarrow> (input_envelope \<Rightarrow> admission_decision result) \<Rightarrow> input_envelope \<Rightarrow> string
    \<Rightarrow> string option \<Rightarrow> jobj option \<Rightarrow> jobj option \<Rightarrow> bool \<Rightarrow> db \<Rightarrow> (admitted_input \<times> db) result" where
  "admit_input env decide envelope delivery_id dedupe_key admission_context history reuse_existing d =
     bind_result (decide envelope) (\<lambda>decision.
     bind_result (if reuse_existing
                  then existing_delivery (e_session_id envelope) delivery_id (p_platform (e_provenance envelope))
                         (p_native_message_id (e_provenance envelope)) (e_scope_id envelope) d
                  else Inr (None, d)) (\<lambda>(existing, d1).
       case existing of
         Some r \<Rightarrow> Inr (\<lparr>ad_delivery = r, ad_decision = decision\<rparr>, d1)
       | None \<Rightarrow> bind_result (reserve_input env envelope decision delivery_id dedupe_key admission_context history d1)
                   (\<lambda>(r, d2). Inr (\<lparr>ad_delivery = r, ad_decision = decision\<rparr>, d2))))"

section \<open>What the entry does with any policy\<close>

lemma admission_event_policy:
  "fmlookup (admission_event dec ctx h) ''policy'' = Some (JObj (decision_record dec))"
  by (simp add: admission_event_def)

lemma reserve_input_row:
  assumes "reserve_input env e dec i key ctx h d = Inr (r, d')"
  shows "d_id r = i" and "d_session_id r = e_session_id e" and "d_state r = Reserved"
    and "d_priority r = decision_priority dec"
    and "events_of r = [stamped_event (utc_now_iso env) (admission_event dec ctx h)]"
    and "insert_deliveries r d = Inr d'"
proof -
  have ne: "admission_event dec ctx h \<noteq> fmempty" using admission_event_policy [of dec ctx h] by auto
  have r: "r = delivery_row env (plain_input i (e_session_id e) (decision_priority dec) Reserved
       (envelope_snapshot e) (e_dispatch_text e) key (Some (admission_event dec ctx h)) None)"
    and "insert_deliveries r d = Inr d'"
    using assms by (auto simp: reserve_input_def insert_delivery_eq_Inr)
  then show "insert_deliveries r d = Inr d'" by simp
  show "d_id r = i" "d_session_id r = e_session_id e" "d_state r = Reserved" "d_priority r = decision_priority dec"
    by (simp_all add: r delivery_row_def Let_def plain_input_def)
  show "events_of r = [stamped_event (utc_now_iso env) (admission_event dec ctx h)]"
    using ne by (simp add: r delivery_row_def Let_def plain_input_def events_of_def)
qed

lemma insert_deliveries_get:
  assumes "insert_deliveries r d = Inr d'" and "schema_ok d"
  shows "get_delivery d' (d_id r) = Some r" and "schema_ok d'"
proof -
  have d': "d' = d\<lparr>deliveries := deliveries d @ [r]\<rparr>" and ok: "delivery_table_ok (deliveries d @ [r])"
    using assms(1) by (auto simp: insert_deliveries_def Let_def split: if_splits)
  show ok': "schema_ok d'" using assms(2) ok d' by (simp add: schema_ok_def)
  then show "get_delivery d' (d_id r) = Some r" by (simp add: get_delivery_iff d')
qed

text \<open>The row a native identity leads to holds the identity's current key.\<close>

lemma get_delivery_by_dedupe_iff:
  assumes "schema_ok d"
  shows "get_delivery_by_dedupe d k = Some r \<longleftrightarrow> r \<in> set (deliveries d) \<and> d_dedupe_key r = Some k"
proof
  have uniq: "unique_where (\<lambda>r. d_dedupe_key r \<noteq> None) d_dedupe_key (deliveries d)"
    using assms by (simp add: schema_ok_def delivery_table_ok_def delivery_uniques_def)
  assume r: "r \<in> set (deliveries d) \<and> d_dedupe_key r = Some k"
  then have "find (\<lambda>r. d_dedupe_key r = Some k) (deliveries d) \<noteq> None" by (auto simp: find_None_iff)
  then obtain r' where r': "find (\<lambda>r. d_dedupe_key r = Some k) (deliveries d) = Some r'" by blast
  then have "r' \<in> set (deliveries d)" "d_dedupe_key r' = Some k" by (auto simp: find_Some_iff)
  then have "r' = r" using r unique_whereD [OF uniq, of r' r] by simp
  then show "get_delivery_by_dedupe d k = Some r" using r' by (simp add: get_delivery_by_dedupe_def)
qed (auto simp: get_delivery_by_dedupe_def find_Some_iff)

lemma rekeyed_row:
  assumes "schema_ok d" and r: "r \<in> set (deliveries d)" "d_dedupe_key r = Some old"
    and upd: "update_deliveries (\<lambda>x. d_id x = d_id r \<and> d_dedupe_key x = Some old) (\<lambda>x. x\<lparr>d_dedupe_key := Some k\<rparr>) d = Inr (n, d')"
  shows "schema_ok d'" and "get_delivery_by_dedupe d' k = Some (r\<lparr>d_dedupe_key := Some k\<rparr>)"
    and "map d_id (deliveries d') = map d_id (deliveries d)"
proof -
  let ?p = "\<lambda>x. d_id x = d_id r \<and> d_dedupe_key x = Some old" and ?f = "\<lambda>x. x\<lparr>d_dedupe_key := Some k\<rparr>"
  have d': "d' = d\<lparr>deliveries := update_where ?p ?f (deliveries d)\<rparr>"
    and ok: "delivery_table_ok (update_where ?p ?f (deliveries d))"
    using upd by (auto simp: update_deliveries_def Let_def split: if_splits)
  show schema: "schema_ok d'" using assms(1) ok d' by (simp add: schema_ok_def)
  show "map d_id (deliveries d') = map d_id (deliveries d)" by (simp add: d' map_key_update_where)
  have "?f r \<in> set (deliveries d')" using r by (auto simp: d' set_update_where image_iff intro!: bexI [of _ r])
  then show "get_delivery_by_dedupe d' k = Some (?f r)" by (simp add: get_delivery_by_dedupe_iff [OF schema])
qed

lemma native_identity_found:
  assumes "schema_ok d" and run: "get_delivery_by_native_identity p n sc se True d = Inr (Some r, d')"
  shows "schema_ok d' \<and> (\<exists>k. native_dedupe_key p n sc = Some k \<and> get_delivery_by_dedupe d' k = Some r)
    \<and> map d_id (deliveries d') = map d_id (deliveries d)"
proof -
  obtain k where k: "native_dedupe_key p n sc = Some k"
    using run by (auto simp: get_delivery_by_native_identity_def split: option.splits)
  show ?thesis
  proof (cases "get_delivery_by_dedupe d k \<noteq> None \<or> sc = None")
    case True
    then show ?thesis using run k assms(1) by (auto simp: get_delivery_by_native_identity_def Let_def)
  next
    case False
    then obtain old r0 m where old: "get_delivery_by_dedupe d old = Some r0"
      and upd: "update_deliveries (\<lambda>x. d_id x = d_id r0 \<and> d_dedupe_key x = Some old)
          (\<lambda>x. x\<lparr>d_dedupe_key := Some k\<rparr>) d = Inr (m, d')"
      and r: "Some r = (if m \<noteq> 1 then get_delivery_by_dedupe d' k else Some (r0\<lparr>d_dedupe_key := Some k\<rparr>))"
      using run k
      by (auto simp: get_delivery_by_native_identity_def Let_def bind_result_eq_Inr split: option.splits if_splits)
    have "r0 \<in> set (deliveries d)" "d_dedupe_key r0 = Some old"
      using old by (auto simp: get_delivery_by_dedupe_iff [OF assms(1)])
    note done' = rekeyed_row [OF assms(1) this upd]
    show ?thesis using done' r k by (auto split: if_splits)
  qed
qed

lemma native_identity_again:
  assumes "native_dedupe_key p n sc = Some k" and "get_delivery_by_dedupe d k = Some r"
  shows "get_delivery_by_native_identity p n sc se b d = Inr (Some r, d)"
  using assms by (simp add: get_delivery_by_native_identity_def Let_def)

section \<open>Looking up the Delivery an input already has\<close>

lemma existing_delivery_found:
  assumes "schema_ok d" and run: "existing_delivery s i p n sc d = Inr (Some r, d')"
  shows "d_session_id r = s \<and> get_delivery d' (d_id r) = Some r \<and> schema_ok d'
    \<and> existing_delivery s i p n sc d' = Inr (Some r, d')"
proof (cases "get_delivery d i")
  case (Some r0)
  then show ?thesis
    using run assms(1) get_delivery_d_id [OF Some] by (auto simp: existing_delivery_def split: if_splits)
next
  case None
  then have nat: "get_delivery_by_native_identity p (Some (opt_str n)) sc (Some s) True d = Inr (Some r, d')"
    and key: "native_dedupe_key p n sc \<noteq> None" and s: "d_session_id r = s"
    using run by (auto simp: existing_delivery_def bind_result_eq_Inr split: option.splits if_splits)
  obtain k where ok: "schema_ok d'" and k: "native_dedupe_key p (Some (opt_str n)) sc = Some k"
    and r: "get_delivery_by_dedupe d' k = Some r" and ids: "map d_id (deliveries d') = map d_id (deliveries d)"
    using native_identity_found [OF assms(1) nat] by blast
  then have "r \<in> set (deliveries d')" by (simp add: get_delivery_by_dedupe_iff [OF ok])
  then have get: "get_delivery d' (d_id r) = Some r" by (simp add: get_delivery_iff [OF ok])
  have "i \<notin> set (map d_id (deliveries d'))"
    using None unfolding ids by (simp add: get_delivery_def row_of_None_iff)
  then have "get_delivery d' i = None" by (simp add: get_delivery_def row_of_None_iff)
  then show ?thesis using s get ok key native_identity_again [OF k r] by (simp add: existing_delivery_def)
qed

lemma existing_delivery_steps:
  assumes "existing_delivery s i p n sc d = Inr (x, d')"
  shows "store_step\<^sup>*\<^sup>* d d'"
proof (cases "d' = d")
  case False
  then obtain y where "get_delivery_by_native_identity p (Some (opt_str n)) sc (Some s) True d = Inr (y, d')"
    using assms by (auto simp: existing_delivery_def bind_result_eq_Inr split: option.splits if_splits)
  then show ?thesis by (intro r_into_rtranclp store_step.rekey)
qed simp

lemma reserve_input_step:
  assumes "reserve_input env e dec i key ctx h d = Inr (r, d')"
  shows "store_step d d'"
  using assms unfolding reserve_input_def envelope_snapshot_def by (intro store_step.submit [of Reserved]) simp_all

text \<open>The two ways an admission ends: with a Delivery it found, or with a new one.\<close>

lemma admit_input_cases:
  assumes "admit_input env decide e i key ctx h reuse d = Inr (a, d')"
  obtains (found) "decide e = Inr (ad_decision a)" and reuse and
      "existing_delivery (e_session_id e) i (p_platform (e_provenance e)) (p_native_message_id (e_provenance e))
        (e_scope_id e) d = Inr (Some (ad_delivery a), d')"
    | (fresh) d1 where "decide e = Inr (ad_decision a)" and
      "reuse \<Longrightarrow> existing_delivery (e_session_id e) i (p_platform (e_provenance e)) (p_native_message_id (e_provenance e))
        (e_scope_id e) d = Inr (None, d1)" and "\<not> reuse \<Longrightarrow> d1 = d" and
      "reserve_input env e (ad_decision a) i key ctx h d1 = Inr (ad_delivery a, d')"
proof -
  obtain dec x d1 where dec: "decide e = Inr dec"
    and look: "(if reuse then existing_delivery (e_session_id e) i (p_platform (e_provenance e))
          (p_native_message_id (e_provenance e)) (e_scope_id e) d else Inr (None, d)) = Inr (x, d1)"
    and rest: "(case x of Some r \<Rightarrow> Inr (\<lparr>ad_delivery = r, ad_decision = dec\<rparr>, d1)
       | None \<Rightarrow> bind_result (reserve_input env e dec i key ctx h d1)
                   (\<lambda>(r, d2). Inr (\<lparr>ad_delivery = r, ad_decision = dec\<rparr>, d2))) = Inr (a, d')"
    using assms by (auto simp: admit_input_def bind_result_eq_Inr)
  show thesis
  proof (cases x)
    case (Some r)
    then have a: "ad_delivery a = r" "ad_decision a = dec" "d' = d1" using rest by auto
    have reuse using look Some by (cases reuse) simp_all
    then show thesis using found dec look a Some by simp
  next
    case None
    then have a: "reserve_input env e dec i key ctx h d1 = Inr (ad_delivery a, d')" "ad_decision a = dec"
      using rest by (auto simp: bind_result_eq_Inr)
    show thesis
      by (rule fresh [of d1]) (use dec look a None in \<open>simp_all split: if_splits\<close>)
  qed
qed

lemma admit_input_steps:
  assumes "admit_input env decide e i key ctx h reuse d = Inr (a, d')"
  shows "store_step\<^sup>*\<^sup>* d d'"
  using assms
proof (cases rule: admit_input_cases)
  case found
  then show ?thesis by (auto intro: existing_delivery_steps)
next
  case (fresh d1)
  have "store_step\<^sup>*\<^sup>* d d1" using fresh(2,3) by (cases reuse) (auto intro: existing_delivery_steps)
  then show ?thesis using reserve_input_step [OF fresh(4)] by (rule rtranclp.rtrancl_into_rtrancl)
qed

section \<open>What the entry does with any policy\<close>

locale admission_policy =
  fixes decide :: "input_envelope \<Rightarrow> admission_decision result"
    and policy_id :: string
  assumes decide_policy: "decide e = Inr dec \<Longrightarrow> dec_policy dec = policy_id"
begin

lemma admitted_session:
  assumes "store_ok d" and "admit_input env decide e i key ctx h reuse d = Inr (a, d')"
  shows "d_session_id (ad_delivery a) = e_session_id e \<and> get_delivery d' (d_id (ad_delivery a)) = Some (ad_delivery a)
    \<and> dec_policy (ad_decision a) = policy_id"
  using assms(2)
proof (cases rule: admit_input_cases)
  case found
  then show ?thesis using existing_delivery_found [OF store_ok_schema [OF assms(1)]] decide_policy by blast
next
  case (fresh d1)
  have "store_step\<^sup>*\<^sup>* d d1" using fresh(2,3) by (cases reuse) (auto intro: existing_delivery_steps)
  then have "schema_ok d1" using store.run_inv_evolves assms(1) store_ok_schema by blast
  then show ?thesis
    using insert_deliveries_get(1) [OF reserve_input_row(6) [OF fresh(4)]] reserve_input_row(2) [OF fresh(4)]
      decide_policy [OF fresh(1)] by simp
qed

lemma admitted_again:
  assumes "store_ok d" and run: "admit_input env decide e i key ctx h True d = Inr (a, d')"
  shows "admit_input env' decide e i key' ctx' h' True d' = Inr (a, d')"
proof -
  have dec: "decide e = Inr (ad_decision a)" using run by (rule admit_input_cases) auto
  have "existing_delivery (e_session_id e) i (p_platform (e_provenance e)) (p_native_message_id (e_provenance e))
      (e_scope_id e) d' = Inr (Some (ad_delivery a), d')"
    using run
  proof (cases rule: admit_input_cases)
    case found
    then show ?thesis using existing_delivery_found [OF store_ok_schema [OF assms(1)]] by blast
  next
    case (fresh d1)
    have "get_delivery d' i = Some (ad_delivery a)" "d_session_id (ad_delivery a) = e_session_id e"
      using admitted_session [OF assms] reserve_input_row(1) [OF fresh(4)] by simp_all
    then show ?thesis by (simp add: existing_delivery_def)
  qed
  then show ?thesis using dec by (simp add: admit_input_def)
qed

end

lemma decide_harness_policy: "decide_harness e = Inr dec \<Longrightarrow> dec_policy dec = ''default''"
  by (auto simp: decide_harness_def default_decision_def Let_def bind_result_eq_Inr split: option.splits if_splits)

interpretation default_policy: admission_policy default_decide "''default''"
proof
  fix e dec assume "default_decide e = Inr dec"
  then show "dec_policy dec = ''default''"
    using decide_harness_policy
    by (auto simp: default_decide_def Let_def bind_result_eq_Inr default_decision_def split: if_splits)
qed

section \<open>Properties\<close>

definition demo_envelope :: "input_source \<Rightarrow> string option \<Rightarrow> input_envelope" where
  "demo_envelope src native =
     \<lparr>e_session_id = ''ses1'', e_scope_id = Some ''chan'', e_sender = \<lparr>sender_kind = ''user'', sender_id = None, sender_name = None\<rparr>,
      e_kind = ''user'', e_provenance = \<lparr>p_source = src, p_platform = ''slack'', p_origin = ''user'',
        p_native_message_id = native, p_parent_native_message_id = None, p_trigger = None\<rparr>,
      e_dispatch_text = ''hi'', e_text = Some ''hi'', e_content = None, e_metadata = None, e_message_kind = None,
      e_requested_intent = None, e_backend = None, e_subagent = None, e_to_bot = False\<rparr>"

definition demo_admit :: "db \<Rightarrow> (admitted_input \<times> db) result" where
  "demo_admit d = admit_input demo_env default_decide (demo_envelope Im (Some ''m1'')) ''del9''
     (native_dedupe_key ''slack'' (Some ''m1'') (Some ''chan'')) None None True d"

text \<open>
  C19: admission is idempotent. An input admitted with \<open>reuse_existing\<close> gets a Delivery of its
  own Session that is stored; admitting the same input again, with any clock, key or history,
  returns that same Delivery and decision and leaves the database as it is.
\<close>

theorem admission_idempotent:
  assumes "store_ok d"
    and "admit_input env default_decide e i key ctx h True d = Inr (a, d')"
  shows "d_session_id (ad_delivery a) = e_session_id e
    \<and> get_delivery d' (d_id (ad_delivery a)) = Some (ad_delivery a)
    \<and> admit_input env' default_decide e i key' ctx' h' True d' = Inr (a, d')"
  using default_policy.admitted_session [OF assms] default_policy.admitted_again [OF assms] by blast

theorem admission_idempotent_witness:
  "\<exists>a d'. demo_admit demo_db = Inr (a, d') \<and> d_priority (ad_delivery a) = P1 \<and> demo_admit d' = Inr (a, d')"
proof -
  have "case demo_admit demo_db of Inr (a, d') \<Rightarrow> d_priority (ad_delivery a) = P1 | Inl _ \<Rightarrow> False" by code_simp
  then obtain a d' where run: "demo_admit demo_db = Inr (a, d')" and p: "d_priority (ad_delivery a) = P1"
    by (auto split: sum.splits)
  have "demo_admit d' = Inr (a, d')"
    using admission_idempotent [OF demo_ok run [unfolded demo_admit_def]] unfolding demo_admit_def by blast
  then show ?thesis using run p by blast
qed

lemma existing_delivery_known:
  assumes "schema_ok d" and run: "existing_delivery s i p n sc d = Inr (Some r, d')"
  shows "get_delivery d (d_id r) \<noteq> None"
proof (cases "get_delivery d i")
  case (Some r0)
  then show ?thesis using run get_delivery_d_id [OF Some] by (auto simp: existing_delivery_def split: if_splits)
next
  case None
  then have "get_delivery_by_native_identity p (Some (opt_str n)) sc (Some s) True d = Inr (Some r, d')"
    using run by (auto simp: existing_delivery_def bind_result_eq_Inr split: option.splits if_splits)
  then have "map d_id (deliveries d') = map d_id (deliveries d)"
    using native_identity_found [OF assms(1)] by blast
  moreover have "d_id r \<in> set (map d_id (deliveries d'))"
    using existing_delivery_found [OF assms] by (force simp: get_delivery_iff)
  ultimately show ?thesis by (simp add: get_delivery_def row_of_None_iff)
qed

text \<open>
  C20: whatever policy decides and whether or not a Delivery may be reused, an admission returns the decision
  of the policy; when the Delivery it returns is a new one, that Delivery has the given identifier, is reserved at the
  priority of the decision, and its first history event names the policy that decided and why,
  whichever event the source records.
\<close>

theorem admission_records_decision:
  assumes "store_ok d" and "admit_input env decide e i key ctx h reuse d = Inr (a, d')"
  shows "decide e = Inr (ad_decision a)
    \<and> (get_delivery d (d_id (ad_delivery a)) = None \<longrightarrow>
        d_id (ad_delivery a) = i \<and> d_state (ad_delivery a) = Reserved
        \<and> d_priority (ad_delivery a) = priority_of_intent (dec_intent (ad_decision a))
        \<and> (\<exists>event. events_of (ad_delivery a) = [JObj event]
            \<and> jget event ''policy'' =
                JObj (jdict [(''id'', JStr (dec_policy (ad_decision a))), (''reason'', JStr (dec_reason (ad_decision a)))])))"
  using assms(2)
proof (cases rule: admit_input_cases)
  case found
  then show ?thesis using existing_delivery_known [OF store_ok_schema [OF assms(1)]] by blast
next
  case (fresh d1)
  note row = reserve_input_row [OF fresh(4)]
  have "jget (jdict [(''at'', JStr (utc_now_iso env))] ++\<^sub>f admission_event (ad_decision a) ctx h) ''policy'' =
      JObj (jdict [(''id'', JStr (dec_policy (ad_decision a))), (''reason'', JStr (dec_reason (ad_decision a)))])"
    using admission_event_policy [of "ad_decision a" ctx h] by (simp add: jget_def decision_record_def fmdom_notI fmdomI)
  then show ?thesis using fresh(1) row by (simp add: decision_priority_def stamped_event_def)
qed

definition deny_steering :: "input_envelope \<Rightarrow> admission_decision result" where
  "deny_steering e = Inr \<lparr>dec_intent = Queue, dec_policy = ''quiet'', dec_reason = ''always''\<rparr>"

theorem admission_records_decision_witness:
  "\<exists>a d'. admit_input demo_env deny_steering (demo_envelope Im None) ''del9'' None None None False demo_db = Inr (a, d')
     \<and> d_state (ad_delivery a) = Reserved \<and> d_priority (ad_delivery a) = P3"
proof -
  have "case admit_input demo_env deny_steering (demo_envelope Im None) ''del9'' None None None False demo_db of
     Inr (a, d') \<Rightarrow> dec_intent (ad_decision a) = Queue \<and> get_delivery demo_db (d_id (ad_delivery a)) = None | Inl _ \<Rightarrow> False" by code_simp
  then obtain a d' where run: "admit_input demo_env deny_steering (demo_envelope Im None) ''del9'' None None None
      False demo_db = Inr (a, d')" and q: "dec_intent (ad_decision a) = Queue" "get_delivery demo_db (d_id (ad_delivery a)) = None"
    by (auto split: sum.splits)
  then show ?thesis using admission_records_decision [OF demo_ok run] by auto
qed

text \<open>
  The default policy decides every input, and raises only for a Harness input that asks
  for an intent, or names a trigger, it does not know. A person's message to a Bot steers the
  Turn it is working on, other composer input queues, an OpenCode subagent never steers the
  main Turn, and any other IM input steers.
\<close>

lemma default_policy_decides:
  "(case default_decide e of
      Inl err \<Rightarrow> p_source (e_provenance e) = Harness
        \<and> (case e_requested_intent e of
             Some x \<Rightarrow> normalize_delivery_intent x = Inl err
           | None \<Rightarrow> delivery_intent_for_trigger (py_strip (opt_str (p_trigger (e_provenance e)))) = Inl err)
    | Inr dec \<Rightarrow>
        (p_source (e_provenance e) = WebComposer \<longrightarrow>
           dec_intent dec = (if e_to_bot e \<and> sender_kind (e_sender e) = ''user'' then Steer else Queue))
        \<and> (p_source (e_provenance e) = Im \<longrightarrow>
           dec_intent dec = (if e_backend e = Some ''opencode'' \<and> opt_str (e_subagent e) \<noteq> [] then Queue else Steer))
        \<and> (p_source (e_provenance e) \<in> {FailureRetry, AgentInitiated} \<longrightarrow> dec_intent dec = Queue)
        \<and> (p_source (e_provenance e) = ShowAnnotation \<longrightarrow> dec_intent dec = Steer))"
proof -
  have trig: "delivery_intent_for_trigger ''im'' = Inr Steer" "delivery_intent_for_trigger ''show_annotation'' = Inr Steer"
    by (simp_all add: delivery_intent_for_trigger_def intent_tables py_text_defs)
  have harness: "case default_decide e of Inl err \<Rightarrow>
        (case e_requested_intent e of
             Some x \<Rightarrow> normalize_delivery_intent x = Inl err
           | None \<Rightarrow> delivery_intent_for_trigger (py_strip (opt_str (p_trigger (e_provenance e)))) = Inl err)
      | Inr _ \<Rightarrow> True" if "p_source (e_provenance e) = Harness"
    using that by (auto simp: default_decide_def decide_harness_def Let_def bind_result_eq_Inl
        split: sum.splits option.splits if_splits)
  show ?thesis
    using harness by (cases "p_source (e_provenance e)")
      (auto simp: default_decide_def default_decision_def Let_def trig split: sum.splits)
qed

definition demo_legacy :: db where
  "demo_legacy = after empty_db (insert_delivery demo_env (plain_input ''del1'' ''ses1'' P3 Queued
     (message_snapshot (envelope_message (demo_envelope Im (Some ''m1'')))) ''hi'' (Some ''slack:m1'') None None) empty_db)"

lemma filter_key_single: "distinct (map key xs) \<Longrightarrow> r \<in> set xs \<Longrightarrow> filter (\<lambda>x. key x = key r) xs = [r]"
  by (induction xs) (auto simp: filter_empty_conv image_iff)

lemma rekey_succeeds:
  assumes "schema_ok d" and r: "get_delivery_by_dedupe d old = Some r" and free: "get_delivery_by_dedupe d k = None"
  shows "\<exists>d'. update_deliveries (\<lambda>x. d_id x = d_id r \<and> d_dedupe_key x = Some old) (\<lambda>x. x\<lparr>d_dedupe_key := Some k\<rparr>) d = Inr (1, d')"
proof -
  let ?p = "\<lambda>x. d_id x = d_id r \<and> d_dedupe_key x = Some old" and ?f = "\<lambda>x. x\<lparr>d_dedupe_key := Some k\<rparr>"
  let ?new = "r\<lparr>d_dedupe_key := Some k\<rparr>"
  have table: "delivery_table_ok (deliveries d)" using assms(1) by (simp add: schema_ok_def)
  have mem: "r \<in> set (deliveries d)" "d_dedupe_key r = Some old" using r get_delivery_by_dedupe_iff [OF assms(1)] by auto
  have ids: "distinct (map d_id (deliveries d))" using schema_ok_distinct(1) [OF assms(1)] .
  have only: "x = r" if "x \<in> set (deliveries d)" "d_id x = d_id r" for x
    using that mem(1) ids by (metis distinct_map inj_onD)
  have eq: "update_where ?p ?f (deliveries d) = update_where (\<lambda>x. d_id x = d_id ?new) (\<lambda>_. ?new) (deliveries d)"
    by (rule update_where_cong) (use only mem in auto)
  have fresh: "d_dedupe_key x \<noteq> Some k" if "x \<in> set (deliveries d)" for x
    using free that get_delivery_by_dedupe_iff [OF assms(1), of k] by auto
  have checks: "delivery_check ?new = delivery_check r"
    by (simp add: delivery_check_def ck_message_deliveries_history_json_def ck_message_deliveries_current_attempt_shape_def
        attempt_columns_def ck_message_deliveries_current_receipt_def ck_message_deliveries_materialization_def
        ck_message_deliveries_turn_membership_def)
  have turn: "unique_where (\<lambda>r. d_turn_id r \<noteq> None \<and> d_turn_position r \<noteq> None) (\<lambda>r. (d_turn_id r, d_turn_position r)) (deliveries d)"
    "unique_where (\<lambda>r. d_dedupe_key r \<noteq> None) d_dedupe_key (deliveries d)"
    using table by (simp_all add: delivery_table_ok_def delivery_uniques_def)
  have "unique_where (\<lambda>r. d_turn_id r \<noteq> None \<and> d_turn_position r \<noteq> None) (\<lambda>r. (d_turn_id r, d_turn_position r))
      (update_where (\<lambda>x. d_id x = d_id ?new) (\<lambda>_. ?new) (deliveries d))"
    by (rule unique_where_replace [OF ids turn(1)]) (use unique_whereD [OF turn(1) _ mem(1)] in fastforce)
  moreover have "unique_where (\<lambda>r. d_dedupe_key r \<noteq> None) d_dedupe_key (update_where (\<lambda>x. d_id x = d_id ?new) (\<lambda>_. ?new) (deliveries d))"
    by (rule unique_where_replace [OF ids turn(2)]) (use fresh in auto)
  moreover have "map d_id (update_where (\<lambda>x. d_id x = d_id ?new) (\<lambda>_. ?new) (deliveries d)) = map d_id (deliveries d)"
    by (rule map_key_update_where) simp
  moreover have "delivery_check r" using table mem(1) by (simp add: delivery_table_ok_def list_all_iff)
  then have "list_all delivery_check (update_where (\<lambda>x. d_id x = d_id ?new) (\<lambda>_. ?new) (deliveries d))"
    using table checks by (intro list_all_replace) (simp_all add: delivery_table_ok_def)
  ultimately have "delivery_table_ok (update_where ?p ?f (deliveries d))"
    unfolding eq using ids by (simp add: delivery_table_ok_def delivery_uniques_def)
  moreover have "filter ?p (deliveries d) = [r]"
  proof -
    have "filter (\<lambda>x. d_id x = d_id r) (deliveries d) = [r]" by (rule filter_key_single [OF ids mem(1)])
    then have "filter ?p (deliveries d) = filter (\<lambda>x. d_dedupe_key x = Some old) [r]" by (metis filter_filter)
    then show ?thesis using mem(2) by simp
  qed
  ultimately show ?thesis by (simp add: update_deliveries_def Let_def row_count_def)
qed

text \<open>
  C22: reusing a Delivery can write. \<open>admit_input\<close> documents that with \<open>reuse_existing\<close> nothing is written when the
  input already has a Delivery. But every Delivery of the Session that is found under the unscoped key an earlier
  release used, and whose candidate names the scope of the input, comes back with the key rewritten, and the
  rewritten key is stored. (Whatever policy decides; no Delivery has the given identifier or the new key.)
\<close>

theorem reuse_rewrites_legacy_key:
  assumes "store_ok d" and dec: "decide e = Inr dec" and id: "get_delivery d i = None"
    and scope: "e_scope_id e = Some sc"
    and key: "native_dedupe_key (p_platform (e_provenance e)) (p_native_message_id (e_provenance e)) (Some sc) = Some k"
    and legacy: "native_dedupe_key (p_platform (e_provenance e)) (p_native_message_id (e_provenance e)) None = Some old" "old \<noteq> k"
    and free: "get_delivery_by_dedupe d k = None" and r: "get_delivery_by_dedupe d old = Some r"
    and own: "d_session_id r = e_session_id e" "jget (json_object (d_snapshot_json r)) ''scope_id'' = JStr sc"
  shows "\<exists>d'. admit_input env decide e i key' ctx h True d = Inr (\<lparr>ad_delivery = r\<lparr>d_dedupe_key := Some k\<rparr>, ad_decision = dec\<rparr>, d')
    \<and> get_delivery d (d_id r) = Some r \<and> get_delivery d' (d_id r) = Some (r\<lparr>d_dedupe_key := Some k\<rparr>)
    \<and> r\<lparr>d_dedupe_key := Some k\<rparr> \<noteq> r"
proof -
  have schema: "schema_ok d" using store_ok_schema [OF assms(1)] .
  let ?n = "p_native_message_id (e_provenance e)" and ?p = "p_platform (e_provenance e)"
  have opt: "native_dedupe_key ?p (Some (opt_str ?n)) x = native_dedupe_key ?p ?n x" for x
    by (simp add: native_dedupe_key_def opt_str_def split: option.split)
  have mem: "r \<in> set (deliveries d)" "d_dedupe_key r = Some old" using r get_delivery_by_dedupe_iff [OF schema] by auto
  obtain d' where upd: "update_deliveries (\<lambda>x. d_id x = d_id r \<and> d_dedupe_key x = Some old)
      (\<lambda>x. x\<lparr>d_dedupe_key := Some k\<rparr>) d = Inr (1, d')"
    using rekey_succeeds [OF schema r free] by blast
  note rekeyed = rekeyed_row [OF schema mem upd]
  have "get_delivery_by_native_identity ?p (Some (opt_str ?n)) (Some sc) (Some (e_session_id e)) True d
      = Inr (Some (r\<lparr>d_dedupe_key := Some k\<rparr>), d')"
    using key legacy free r own upd by (simp add: get_delivery_by_native_identity_def opt Let_def jopt_def)
  then have "existing_delivery (e_session_id e) i ?p ?n (e_scope_id e) d = Inr (Some (r\<lparr>d_dedupe_key := Some k\<rparr>), d')"
    using id key own by (simp add: existing_delivery_def scope)
  then have "admit_input env decide e i key' ctx h True d = Inr (\<lparr>ad_delivery = r\<lparr>d_dedupe_key := Some k\<rparr>, ad_decision = dec\<rparr>, d')"
    by (simp add: admit_input_def dec)
  moreover have "get_delivery d' (d_id r) = Some (r\<lparr>d_dedupe_key := Some k\<rparr>)"
    using rekeyed(1,2) get_delivery_by_dedupe_iff [OF rekeyed(1)] by (simp add: get_delivery_iff)
  moreover have "get_delivery d (d_id r) = Some r" using mem(1) by (simp add: get_delivery_iff [OF schema])
  moreover have "d_dedupe_key (r\<lparr>d_dedupe_key := Some k\<rparr>) \<noteq> d_dedupe_key r" using mem(2) legacy(2) by simp
  then have "r\<lparr>d_dedupe_key := Some k\<rparr> \<noteq> r" by metis
  ultimately show ?thesis by blast
qed

lemma demo_legacy_reachable: "store_ok demo_legacy"
proof -
  have "case insert_delivery demo_env (plain_input ''del1'' ''ses1'' P3 Queued
     (message_snapshot (envelope_message (demo_envelope Im (Some ''m1'')))) ''hi'' (Some ''slack:m1'') None None) empty_db of
     Inr _ \<Rightarrow> True | Inl _ \<Rightarrow> False" by code_simp
  then obtain r d where ins: "insert_delivery demo_env (plain_input ''del1'' ''ses1'' P3 Queued
     (message_snapshot (envelope_message (demo_envelope Im (Some ''m1'')))) ''hi'' (Some ''slack:m1'') None None) empty_db = Inr (r, d)"
    by (auto split: sum.splits)
  then have "store_step empty_db d" by (intro store_step.submit [of Queued]) simp_all
  then show ?thesis
    using store.run_inv_evolves [OF r_into_rtranclp empty_db_ok] ins by (simp add: demo_legacy_def after_def)
qed

theorem reuse_rewrites_legacy_key_witness:
  "\<exists>a d'. demo_admit demo_legacy = Inr (a, d') \<and> d_id (ad_delivery a) = ''del1'' \<and> d_dedupe_key (ad_delivery a) = Some ''slack:scope:4:chan:m1''"
proof -
  let ?e = "demo_envelope Im (Some ''m1'')"
  have facts: "get_delivery demo_legacy ''del9'' = None" "get_delivery_by_dedupe demo_legacy ''slack:scope:4:chan:m1'' = None"
    "native_dedupe_key ''slack'' (Some ''m1'') (Some ''chan'') = Some ''slack:scope:4:chan:m1''"
    "native_dedupe_key ''slack'' (Some ''m1'') None = Some ''slack:m1''" "\<not> isl (default_decide ?e)"
    by code_simp+
  have "case get_delivery_by_dedupe demo_legacy ''slack:m1'' of None \<Rightarrow> False
      | Some r \<Rightarrow> d_id r = ''del1'' \<and> d_session_id r = ''ses1'' \<and> jget (json_object (d_snapshot_json r)) ''scope_id'' = JStr ''chan''"
    by code_simp
  then obtain r where r: "get_delivery_by_dedupe demo_legacy ''slack:m1'' = Some r" "d_id r = ''del1''" "d_session_id r = ''ses1''"
    "jget (json_object (d_snapshot_json r)) ''scope_id'' = JStr ''chan''"
    by (auto split: option.splits)
  obtain dec where dec: "default_decide ?e = Inr dec" using facts(5) by (cases "default_decide ?e") auto
  have env: "e_scope_id ?e = Some ''chan''" "p_platform (e_provenance ?e) = ''slack''"
    "p_native_message_id (e_provenance ?e) = Some ''m1''" "e_session_id ?e = ''ses1''"
    by (simp_all add: demo_envelope_def)
  let ?r = "r\<lparr>d_dedupe_key := Some ''slack:scope:4:chan:m1''\<rparr>"
  have "\<exists>d'. admit_input demo_env default_decide ?e ''del9'' (native_dedupe_key ''slack'' (Some ''m1'') (Some ''chan'')) None None True
        demo_legacy = Inr (\<lparr>ad_delivery = ?r, ad_decision = dec\<rparr>, d')
      \<and> get_delivery demo_legacy (d_id r) = Some r \<and> get_delivery d' (d_id r) = Some ?r \<and> ?r \<noteq> r"
    by (rule reuse_rewrites_legacy_key [where decide = default_decide and e = ?e and sc = "''chan''" and old = "''slack:m1''",
          OF demo_legacy_reachable dec facts(1) env(1)]) (simp_all only: env facts r, simp_all)
  then obtain d' where "demo_admit demo_legacy = Inr (\<lparr>ad_delivery = ?r, ad_decision = dec\<rparr>, d')"
    unfolding demo_admit_def by (elim exE conjE)
  then have "demo_admit demo_legacy = Inr (\<lparr>ad_delivery = ?r, ad_decision = dec\<rparr>, d') \<and> d_id ?r = ''del1''
      \<and> d_dedupe_key ?r = Some ''slack:scope:4:chan:m1''" using r(2) by simp
  then show ?thesis by (intro exI [of _ "\<lparr>ad_delivery = ?r, ad_decision = dec\<rparr>"] exI [of _ d']) simp
qed

end
