(* ===== verification/Unicode.thy ===== *)
theory Unicode
  imports Prelude
begin

text \<open>
  Python text with all its code points, and the codecs of the standard library the agent
  tools and the event stream parser use: UTF-8 with the handlers \<open>replace\<close>, \<open>surrogateescape\<close>
  and \<open>surrogatepass\<close>, one-shot and incremental, and the Unicode properties behind
  \<open>str.isdigit\<close> and \<open>int\<close>. The last section is \<open>src/core/agent_core/tools/text.py\<close>: how file bytes
  become the text the model sees.

  A text is a list of code points, a byte string a list of numbers below 256. The decoder is
  the byte-at-a-time machine that keeps the bytes of an unfinished sequence; an invalid
  sequence is reported to the error handler at its maximal valid prefix, as CPython does.
\<close>

type_synonym utext = "nat list"
type_synonym bytes = "nat list"

definition ascii :: "string \<Rightarrow> utext" where
  "ascii s = map of_char s"

definition is_surrogate :: "nat \<Rightarrow> bool" where
  "is_surrogate c \<longleftrightarrow> 0xD800 \<le> c \<and> c \<le> 0xDFFF"

text \<open>A text that UTF-8 can hold: code points below the last plane, no lone surrogate.\<close>

definition scalar_text :: "utext \<Rightarrow> bool" where
  "scalar_text s \<longleftrightarrow> (\<forall>c\<in>set s. c < 0x110000 \<and> \<not> is_surrogate c)"

definition is_bytes :: "bytes \<Rightarrow> bool" where
  "is_bytes bs \<longleftrightarrow> (\<forall>b\<in>set bs. b < 256)"

section \<open>Encoding\<close>

definition utf8_char :: "nat \<Rightarrow> bytes" where
  "utf8_char c =
     (if c < 0x80 then [c]
      else if c < 0x800 then [0xC0 + c div 64, 0x80 + c mod 64]
      else if c < 0x10000 then [0xE0 + c div 4096, 0x80 + c div 64 mod 64, 0x80 + c mod 64]
      else [0xF0 + c div 262144, 0x80 + c div 4096 mod 64, 0x80 + c div 64 mod 64, 0x80 + c mod 64])"

text \<open>\<open>encode("utf-8", "surrogatepass")\<close>: a surrogate is encoded like any other code point.\<close>

definition encode_surrogatepass :: "utext \<Rightarrow> bytes" where
  "encode_surrogatepass s = concat (map utf8_char s)"

text \<open>\<open>encode("utf-8", "surrogateescape")\<close>: an escape is the byte it stands for, another surrogate raises.\<close>

definition escape_char :: "nat \<Rightarrow> bytes result" where
  "escape_char c =
     (if 0xDC80 \<le> c \<and> c \<le> 0xDCFF then Inr [c - 0xDC00]
      else if is_surrogate c then Inl (ValueError ''surrogates not allowed'')
      else Inr (utf8_char c))"

definition encode_surrogateescape :: "utext \<Rightarrow> bytes result" where
  "encode_surrogateescape s = bind_result (map_result escape_char s) (\<lambda>bss. Inr (concat bss))"

section \<open>Decoding\<close>

definition is_continuation :: "nat \<Rightarrow> bool" where
  "is_continuation b \<longleftrightarrow> 0x80 \<le> b \<and> b < 0xC0"

text \<open>Which byte may follow the bytes of an unfinished sequence.\<close>

definition continues :: "bytes \<Rightarrow> nat \<Rightarrow> bool" where
  "continues p b \<longleftrightarrow> is_continuation b \<and>
     (case p of [a] \<Rightarrow> (a = 0xE0 \<longrightarrow> 0xA0 \<le> b) \<and> (a = 0xED \<longrightarrow> b < 0xA0) \<and> (a = 0xF0 \<longrightarrow> 0x90 \<le> b) \<and> (a = 0xF4 \<longrightarrow> b < 0x90)
      | _ \<Rightarrow> True)"

definition sequence_length :: "nat \<Rightarrow> nat" where
  "sequence_length a = (if a < 0xE0 then 2 else if a < 0xF0 then 3 else 4)"

fun sequence_value :: "bytes \<Rightarrow> nat" where
  "sequence_value [a, b] = (a - 0xC0) * 64 + (b - 0x80)"
| "sequence_value [a, b, c] = (a - 0xE0) * 4096 + (b - 0x80) * 64 + (c - 0x80)"
| "sequence_value [a, b, c, d] = (a - 0xF0) * 262144 + (b - 0x80) * 4096 + (c - 0x80) * 64 + (d - 0x80)"
| "sequence_value _ = 0"

definition first_byte :: "(bytes \<Rightarrow> utext) \<Rightarrow> nat \<Rightarrow> utext \<times> bytes" where
  "first_byte h b =
     (if b < 0x80 then ([b], [])
      else if 0xC2 \<le> b \<and> b \<le> 0xF4 then ([], [b])
      else (h [b], []))"

text \<open>
  The first two bytes of an encoded surrogate are kept too (the interpreter lets a handler see
  the whole sequence); they are then reported byte by byte.
\<close>

definition truncated_surrogate :: "bytes \<Rightarrow> bool" where
  "truncated_surrogate p \<longleftrightarrow> (case p of [a, b] \<Rightarrow> a = 0xED \<and> 0xA0 \<le> b \<and> b < 0xC0 | _ \<Rightarrow> False)"

definition decode_flush :: "(bytes \<Rightarrow> utext) \<Rightarrow> bytes \<Rightarrow> utext" where
  "decode_flush h p = (if p = [] then [] else if truncated_surrogate p then concat (map (\<lambda>b. h [b]) p) else h p)"

definition decode_byte :: "(bytes \<Rightarrow> utext) \<Rightarrow> bytes \<Rightarrow> nat \<Rightarrow> utext \<times> bytes" where
  "decode_byte h p b =
     (if p = [] then first_byte h b
      else if truncated_surrogate (p @ [b]) then ([], p @ [b])
      else if continues p b \<and> \<not> truncated_surrogate p then
        (if length p + 1 = sequence_length (hd p) then ([sequence_value (p @ [b])], []) else ([], p @ [b]))
      else (case first_byte h b of (s, q) \<Rightarrow> (decode_flush h p @ s, q)))"

text \<open>\<open>decode(data, final=False)\<close>: the text and the bytes kept for the next call.\<close>

fun decode_more :: "(bytes \<Rightarrow> utext) \<Rightarrow> bytes \<Rightarrow> bytes \<Rightarrow> utext \<times> bytes" where
  "decode_more h p [] = ([], p)"
| "decode_more h p (b # bs) =
     (case decode_byte h p b of (s, q) \<Rightarrow> case decode_more h q bs of (t, r) \<Rightarrow> (s @ t, r))"

text \<open>
  At the end of the input, \<open>decode(b"", final=True)\<close>, the kept bytes go to the handler
  (\<open>decode_flush\<close>).
\<close>

definition decode_all :: "(bytes \<Rightarrow> utext) \<Rightarrow> bytes \<Rightarrow> utext" where
  "decode_all h bs = (case decode_more h [] bs of (s, p) \<Rightarrow> s @ decode_flush h p)"

definition replace_handler :: "bytes \<Rightarrow> utext" where
  "replace_handler p = [0xFFFD]"

definition surrogateescape_handler :: "bytes \<Rightarrow> utext" where
  "surrogateescape_handler p = map (\<lambda>b. 0xDC00 + b) p"

section \<open>Digits\<close>

text \<open>The zero of each block of ten decimal digits, and the other characters \<open>str.isdigit\<close> accepts (Unicode 14).\<close>

definition decimal_zeros :: "nat list" where
  "decimal_zeros =
     [48, 1632, 1776, 1984, 2406, 2534, 2662, 2790, 2918, 3046, 3174, 3302, 3430, 3558, 3664, 3792, 3872,
      4160, 4240, 6112, 6160, 6470, 6608, 6784, 6800, 6992, 7088, 7232, 7248, 42528, 43216, 43264, 43472,
      43504, 43600, 44016, 65296, 66720, 68912, 69734, 69872, 69942, 70096, 70384, 70736, 70864, 71248,
      71360, 71472, 71904, 72016, 72784, 73040, 73120, 92768, 92864, 93008, 120782, 120792, 120802, 120812,
      120822, 123200, 123632, 125264, 130032]"

definition other_digits :: "(nat \<times> nat) list" where
  "other_digits =
     [(178, 179), (185, 185), (4969, 4977), (6618, 6618), (8304, 8304), (8308, 8313), (8320, 8329),
      (9312, 9320), (9332, 9340), (9352, 9360), (9450, 9450), (9461, 9469), (9471, 9471), (10102, 10110),
      (10112, 10120), (10122, 10130), (68160, 68163), (69216, 69224), (69714, 69722), (127232, 127242)]"

definition decimal_value :: "nat \<Rightarrow> nat option" where
  "decimal_value c = map_option (\<lambda>z. c - z) (find (\<lambda>z. z \<le> c \<and> c < z + 10) decimal_zeros)"

definition is_digit_char :: "nat \<Rightarrow> bool" where
  "is_digit_char c \<longleftrightarrow> decimal_value c \<noteq> None \<or> list_ex (\<lambda>(a, b). a \<le> c \<and> c \<le> b) other_digits"

definition py_isdigit :: "utext \<Rightarrow> bool" where
  "py_isdigit s \<longleftrightarrow> s \<noteq> [] \<and> list_all is_digit_char s"

text \<open>
  \<open>int(s)\<close> of a text without whitespace, sign or underscore: every character must be a decimal
  digit, and the interpreter refuses more than 4300 of them.
\<close>

definition py_int_of_digits :: "utext \<Rightarrow> nat result" where
  "py_int_of_digits s =
     (if \<not> list_all (\<lambda>c. decimal_value c \<noteq> None) s then Inl (ValueError ''invalid literal for int()'')
      else if length s > 4300 then Inl (ValueError ''Exceeds the limit (4300 digits) for integer string conversion'')
      else Inr (fold (\<lambda>c acc. acc * 10 + the (decimal_value c)) s 0))"

section \<open>File text (\<open>tools/text.py\<close>)\<close>

definition decode_file :: "bytes \<Rightarrow> utext" where
  "decode_file data = decode_all surrogateescape_handler data"

definition shown :: "utext \<Rightarrow> utext" where
  "shown s = map (\<lambda>c. if 0xDC80 \<le> c \<and> c < 0xDD00 then 0xFFFD else c) s"

definition encode_file :: "utext \<Rightarrow> bytes result" where
  "encode_file s = encode_surrogateescape s"

definition model_text :: "utext \<Rightarrow> utext" where
  "model_text s = map (\<lambda>c. if 0xD800 \<le> c \<and> c \<le> 0xDFFF then 0xFFFD else c) s"

section \<open>Laws of the codecs\<close>

lemma encode_surrogatepass_simps [simp]:
  "encode_surrogatepass [] = []"
  "encode_surrogatepass (c # s) = utf8_char c @ encode_surrogatepass s"
  "encode_surrogatepass (s @ t) = encode_surrogatepass s @ encode_surrogatepass t"
  by (simp_all add: encode_surrogatepass_def)

lemma decode_more_append:
  "decode_more h p (bs @ cs) =
     (case decode_more h p bs of (s, q) \<Rightarrow> case decode_more h q cs of (t, r) \<Rightarrow> (s @ t, r))"
  by (induction bs arbitrary: p) (auto split: prod.splits)

lemma decode_two:
  assumes "2 \<le> a" and "a < 32" and "b < 64"
  shows "decode_more h [] [0xC0 + a, 0x80 + b] = ([a * 64 + b], [])"
  using assms
  by (simp add: decode_byte_def first_byte_def truncated_surrogate_def continues_def is_continuation_def sequence_length_def)

lemma decode_three:
  assumes "a < 16" and "b < 64" and "c < 64" and "a = 0 \<Longrightarrow> 32 \<le> b" and "a = 13 \<Longrightarrow> b < 32"
  shows "decode_more h [] [0xE0 + a, 0x80 + b, 0x80 + c] = ([a * 4096 + b * 64 + c], [])"
proof -
  have "decode_byte h [] (0xE0 + a) = ([], [0xE0 + a])" using assms(1) by (simp add: decode_byte_def first_byte_def)
  moreover have "decode_byte h [0xE0 + a] (0x80 + b) = ([], [0xE0 + a, 0x80 + b])"
    using assms by (auto simp: decode_byte_def truncated_surrogate_def continues_def is_continuation_def sequence_length_def)
  moreover have "decode_byte h [0xE0 + a, 0x80 + b] (0x80 + c) = ([a * 4096 + b * 64 + c], [])"
    using assms by (auto simp: decode_byte_def truncated_surrogate_def continues_def is_continuation_def sequence_length_def)
  ultimately show ?thesis by simp
qed

lemma decode_four:
  assumes "a < 5" and "b < 64" and "c < 64" and "d < 64" and "a = 0 \<Longrightarrow> 16 \<le> b" and "a = 4 \<Longrightarrow> b < 16"
  shows "decode_more h [] [0xF0 + a, 0x80 + b, 0x80 + c, 0x80 + d] = ([a * 262144 + b * 4096 + c * 64 + d], [])"
proof -
  note defs = decode_byte_def truncated_surrogate_def continues_def is_continuation_def sequence_length_def
  have "decode_byte h [] (0xF0 + a) = ([], [0xF0 + a])" using assms(1) by (simp add: decode_byte_def first_byte_def)
  moreover have "decode_byte h [0xF0 + a] (0x80 + b) = ([], [0xF0 + a, 0x80 + b])"
    using assms by (auto simp: defs)
  moreover have "decode_byte h [0xF0 + a, 0x80 + b] (0x80 + c) = ([], [0xF0 + a, 0x80 + b, 0x80 + c])"
    using assms by (auto simp: defs)
  moreover have "decode_byte h [0xF0 + a, 0x80 + b, 0x80 + c] (0x80 + d) = ([a * 262144 + b * 4096 + c * 64 + d], [])"
    using assms by (auto simp: defs)
  ultimately show ?thesis by simp
qed

lemma decode_utf8_char:
  assumes "c < 0x110000" and "\<not> is_surrogate c"
  shows "decode_more h [] (utf8_char c) = ([c], [])"
proof -
  consider "c < 0x80" | "0x80 \<le> c" "c < 0x800" | "0x800 \<le> c" "c < 0x10000" | "0x10000 \<le> c"
    by linarith
  then show ?thesis
  proof cases
    case 1
    then show ?thesis by (simp add: utf8_char_def decode_byte_def first_byte_def)
  next
    case 2
    define a b where "a = c div 64" and "b = c mod 64"
    have c: "c = a * 64 + b" and b: "b < 64" by (simp_all add: a_def b_def)
    have a: "2 \<le> a" "a < 32" using 2 b c by linarith+
    have "utf8_char c = [0xC0 + a, 0x80 + b]" using 2 by (simp add: utf8_char_def a_def b_def)
    then show ?thesis using decode_two [OF a b, of h] c by simp
  next
    case 3
    define a b d where "a = c div 4096" and "b = c div 64 mod 64" and "d = c mod 64"
    have "c div 64 div 64 = a" by (simp add: a_def div_mult2_eq [symmetric])
    then have "c div 64 = a * 64 + b" by (metis b_def div_mult_mod_eq)
    moreover have "c = c div 64 * 64 + d" by (simp add: d_def)
    ultimately have c: "c = a * 4096 + b * 64 + d" by simp
    have lim: "b < 64" "d < 64" by (simp_all add: b_def d_def)
    have a: "a < 16" using 3 by (simp add: a_def less_mult_imp_div_less)
    have low: "a = 0 \<Longrightarrow> 32 \<le> b" using 3 c lim by simp
    have sur: "a = 13 \<Longrightarrow> b < 32" using assms(2) c lim by (auto simp: is_surrogate_def)
    have "utf8_char c = [0xE0 + a, 0x80 + b, 0x80 + d]" using 3 by (simp add: utf8_char_def a_def b_def d_def)
    then show ?thesis using decode_three [OF a lim low sur, of h] c by simp
  next
    case 4
    define a b d e where "a = c div 262144" and "b = c div 4096 mod 64" and "d = c div 64 mod 64" and "e = c mod 64"
    have "c div 4096 div 64 = a" by (simp add: a_def div_mult2_eq [symmetric])
    then have "c div 4096 = a * 64 + b" by (metis b_def div_mult_mod_eq)
    moreover have "c div 64 div 64 = c div 4096" by (simp add: div_mult2_eq [symmetric])
    then have "c div 64 = c div 4096 * 64 + d" by (metis d_def div_mult_mod_eq)
    moreover have "c = c div 64 * 64 + e" by (simp add: e_def)
    ultimately have c: "c = a * 262144 + b * 4096 + d * 64 + e" by simp
    have lim: "b < 64" "d < 64" "e < 64" by (simp_all add: b_def d_def e_def)
    have a: "a < 5" using assms(1) by (simp add: a_def less_mult_imp_div_less)
    have low: "a = 0 \<Longrightarrow> 16 \<le> b" using 4 c lim by simp
    have high: "a = 4 \<Longrightarrow> b < 16" using assms(1) c lim by simp
    have "utf8_char c = [0xF0 + a, 0x80 + b, 0x80 + d, 0x80 + e]"
      using 4 by (simp add: utf8_char_def a_def b_def d_def e_def)
    then show ?thesis using decode_four [OF a lim low high, of h] c by simp
  qed
qed

lemma decode_more_encoded:
  assumes "scalar_text s"
  shows "decode_more h [] (encode_surrogatepass s @ bs) = (case decode_more h [] bs of (t, q) \<Rightarrow> (s @ t, q))"
  using assms
  by (induction s) (auto simp: scalar_text_def decode_more_append decode_utf8_char split: prod.splits)

lemma decode_all_encoded: "scalar_text s \<Longrightarrow> decode_all h (encode_surrogatepass s) = s"
  using decode_more_encoded [of s h "[]"] by (simp add: decode_all_def decode_flush_def)

lemma utf8_char_shape:
  "\<exists>b bs. utf8_char c = b # bs \<and> \<not> is_continuation b \<and> (\<forall>x\<in>set bs. is_continuation x)"
proof -
  have "c mod 64 < 64" "c div 64 mod 64 < 64" "c div 4096 mod 64 < 64" by simp_all
  then show ?thesis by (auto simp: utf8_char_def is_continuation_def)
qed

lemma utf8_char_length: "1 \<le> length (utf8_char c)" "length (utf8_char c) \<le> 4"
  by (simp_all add: utf8_char_def)

text \<open>Encoding what was decoded: the bytes of every sequence come back.\<close>

lemma utf8_two:
  assumes "2 \<le> a" and "a < 32" and "b < 64"
  shows "utf8_char (a * 64 + b) = [0xC0 + a, 0x80 + b]"
  using assms by (simp add: utf8_char_def)

lemma six_bits: "(c :: nat) < 64 \<Longrightarrow> v = q * 64 + c \<Longrightarrow> v div 64 = q \<and> v mod 64 = c"
  by simp

lemma utf8_three:
  assumes "a < 16" and "b < 64" and "c < 64" and "a = 0 \<Longrightarrow> 32 \<le> b"
  shows "utf8_char (a * 4096 + b * 64 + c) = [0xE0 + a, 0x80 + b, 0x80 + c]"
proof -
  define v where "v = a * 4096 + b * 64 + c"
  have v: "v div 64 = a * 64 + b" "v mod 64 = c"
    using six_bits [OF assms(3), of v "a * 64 + b"] by (simp_all add: v_def)
  have "v div 64 div 64 = a" "v div 64 mod 64 = b" using six_bits [OF assms(2) v(1)] by simp_all
  then have "v div 4096 = a" "v div 64 mod 64 = b" by (simp_all add: div_mult2_eq [symmetric])
  moreover have "0x800 \<le> v" "v < 0x10000" using assms by (cases a; simp add: v_def)+
  ultimately have "utf8_char v = [0xE0 + a, 0x80 + b, 0x80 + c]" using v by (simp add: utf8_char_def)
  then show ?thesis by (simp add: v_def)
qed

lemma utf8_four:
  assumes "a < 5" and "b < 64" and "c < 64" and "d < 64" and "a = 0 \<Longrightarrow> 16 \<le> b"
  shows "utf8_char (a * 262144 + b * 4096 + c * 64 + d) = [0xF0 + a, 0x80 + b, 0x80 + c, 0x80 + d]"
proof -
  define v where "v = a * 262144 + b * 4096 + c * 64 + d"
  have v: "v div 64 = a * 4096 + b * 64 + c" "v mod 64 = d"
    using six_bits [OF assms(4), of v "a * 4096 + b * 64 + c"] by (simp_all add: v_def)
  have w: "v div 64 div 64 = a * 64 + b" "v div 64 mod 64 = c"
    using six_bits [OF assms(3), of "v div 64" "a * 64 + b"] v by simp_all
  have x: "v div 64 div 64 div 64 = a" "v div 64 div 64 mod 64 = b" using six_bits [OF assms(2) w(1)] by simp_all
  have "v div 4096 mod 64 = b" "v div 262144 = a" using x by (simp_all add: div_mult2_eq [symmetric])
  moreover have "0x10000 \<le> v" using assms by (cases a) (simp_all add: v_def)
  ultimately have "utf8_char v = [0xF0 + a, 0x80 + b, 0x80 + c, 0x80 + d]" using v w by (simp add: utf8_char_def)
  then show ?thesis by (simp add: v_def)
qed

definition pending_ok :: "bytes \<Rightarrow> bool" where
  "pending_ok p \<longleftrightarrow>
     (case p of [] \<Rightarrow> True
      | a # q \<Rightarrow> truncated_surrogate p
          \<or> (0xC2 \<le> a \<and> a \<le> 0xF4 \<and> length p < sequence_length a \<and> list_all is_continuation q
             \<and> (q \<noteq> [] \<longrightarrow> continues [a] (hd q))))"

lemma pending_high:
  assumes "pending_ok p" and "b \<in> set p"
  shows "0x80 \<le> b \<and> b < 256"
  using assms
  by (auto simp: pending_ok_def truncated_surrogate_def list_all_iff is_continuation_def split: list.splits)

lemma encode_surrogateescape_simps [simp]:
  "encode_surrogateescape [] = Inr []"
  "encode_surrogateescape (c # s) = bind_result (escape_char c) (\<lambda>x. bind_result (encode_surrogateescape s) (\<lambda>y. Inr (x @ y)))"
  by (auto simp: encode_surrogateescape_def bind_result_def split: sum.splits)

lemma encode_surrogateescape_append:
  "encode_surrogateescape s = Inr x \<Longrightarrow> encode_surrogateescape t = Inr y \<Longrightarrow> encode_surrogateescape (s @ t) = Inr (x @ y)"
  by (induction s arbitrary: x) (auto simp: bind_result_eq_Inr)

lemma encode_escaped:
  "\<forall>b\<in>set p. 0x80 \<le> b \<and> b < 256 \<Longrightarrow> encode_surrogateescape (surrogateescape_handler p) = Inr p"
  by (induction p) (auto simp: surrogateescape_handler_def escape_char_def)

lemma encode_flushed:
  assumes "pending_ok p"
  shows "encode_surrogateescape (decode_flush surrogateescape_handler p) = Inr p"
proof -
  have "\<forall>b\<in>set p. 0x80 \<le> b \<and> b < 256" using pending_high [OF assms] by blast
  moreover have "concat (map (\<lambda>b. surrogateescape_handler [b]) p) = surrogateescape_handler p"
    by (induction p) (simp_all add: surrogateescape_handler_def)
  ultimately show ?thesis by (simp add: decode_flush_def encode_escaped)
qed

lemma escape_scalar: "\<not> is_surrogate c \<Longrightarrow> escape_char c = Inr (utf8_char c)"
  by (auto simp: escape_char_def is_surrogate_def)

lemma sequence_value_encodes:
  assumes "pending_ok p" and "p \<noteq> []" and "continues p b" and "\<not> truncated_surrogate p"
    and "length p + 1 = sequence_length (hd p)"
  shows "escape_char (sequence_value (p @ [b])) = Inr (p @ [b])"
proof -
  obtain a q where p: "p = a # q" using assms(2) by (cases p) auto
  have a: "0xC2 \<le> a" "a \<le> 0xF4" and q: "list_all is_continuation q" "q \<noteq> [] \<longrightarrow> continues [a] (hd q)"
    and len: "length q + 2 = sequence_length a" and b: "is_continuation b"
    using assms by (auto simp: pending_ok_def p continues_def)
  consider "a < 0xE0" | "0xE0 \<le> a" "a < 0xF0" | "0xF0 \<le> a" by linarith
  then show ?thesis
  proof cases
    case 1
    then have "q = []" using len by (simp add: sequence_length_def)
    moreover have "\<not> is_surrogate ((a - 0xC0) * 64 + (b - 0x80))" using 1 b by (auto simp: is_surrogate_def is_continuation_def)
    moreover have "utf8_char ((a - 0xC0) * 64 + (b - 0x80)) = [a, b]"
      using utf8_two [of "a - 0xC0" "b - 0x80"] 1 a b by (auto simp: is_continuation_def)
    ultimately show ?thesis by (simp add: p escape_scalar)
  next
    case 2
    then obtain c where c: "q = [c]" using len by (auto simp: sequence_length_def length_Suc_conv)
    have cc: "continues [a] c" "is_continuation c" using q c by auto
    have "\<not> is_surrogate ((a - 0xE0) * 4096 + (c - 0x80) * 64 + (b - 0x80))"
    proof -
      have "a - 0xE0 < 13 \<or> a - 0xE0 = 13 \<or> 14 \<le> a - 0xE0" by linarith
      then show ?thesis using 2 cc b by (auto simp: is_surrogate_def is_continuation_def continues_def)
    qed
    moreover have "utf8_char ((a - 0xE0) * 4096 + (c - 0x80) * 64 + (b - 0x80)) = [a, c, b]"
      using utf8_three [of "a - 0xE0" "c - 0x80" "b - 0x80"] 2 cc b
      by (auto simp: is_continuation_def continues_def)
    ultimately show ?thesis by (simp add: p c escape_scalar)
  next
    case 3
    then obtain c d where c: "q = [c, d]" using len by (auto simp: sequence_length_def numeral_2_eq_2 length_Suc_conv)
    have cc: "continues [a] c" "is_continuation c" "is_continuation d" using q c by auto
    have big: "0x10000 \<le> (a - 0xF0) * 262144 + (c - 0x80) * 4096 + (d - 0x80) * 64 + (b - 0x80)"
    proof (cases "a = 0xF0")
      case True
      then show ?thesis using cc by (auto simp: continues_def)
    next
      case False
      then have "1 \<le> a - 0xF0" using 3 by linarith
      then have "262144 \<le> (a - 0xF0) * 262144" by linarith
      then show ?thesis by linarith
    qed
    have "utf8_char ((a - 0xF0) * 262144 + (c - 0x80) * 4096 + (d - 0x80) * 64 + (b - 0x80)) = [a, c, d, b]"
      using utf8_four [of "a - 0xF0" "c - 0x80" "d - 0x80" "b - 0x80"] 3 a cc b
      by (auto simp: is_continuation_def continues_def)
    with big show ?thesis by (simp add: p c escape_scalar is_surrogate_def)
  qed
qed

lemma decode_byte_encodes:
  assumes "pending_ok p" and "b < 256" and "decode_byte surrogateescape_handler p b = (s, q)"
  shows "pending_ok q \<and> (\<exists>e. encode_surrogateescape s = Inr e \<and> e @ q = p @ [b])"
proof -
  have first: "pending_ok q' \<and> (\<exists>e. encode_surrogateescape s' = Inr e \<and> e @ q' = [b])"
    if "first_byte surrogateescape_handler b = (s', q')" for s' q'
    using that assms(2)
    by (auto simp: first_byte_def pending_ok_def sequence_length_def escape_char_def utf8_char_def is_surrogate_def
      surrogateescape_handler_def split: if_splits)
  consider "p = []" | "p \<noteq> []" "truncated_surrogate (p @ [b])"
    | "p \<noteq> []" "\<not> truncated_surrogate (p @ [b])" "continues p b" "\<not> truncated_surrogate p"
    | "p \<noteq> []" "\<not> truncated_surrogate (p @ [b])" "\<not> (continues p b \<and> \<not> truncated_surrogate p)" by blast
  then show ?thesis
  proof cases
    case 1
    then show ?thesis using first assms(3) by (simp add: decode_byte_def)
  next
    case 2
    then show ?thesis using assms(3) by (cases p) (auto simp: decode_byte_def pending_ok_def)
  next
    case 3
    then show ?thesis using assms sequence_value_encodes [OF assms(1) 3(1,3,4)]
      by (cases p; cases "tl p"; cases "tl (tl p)")
        (auto simp: decode_byte_def pending_ok_def continues_def sequence_length_def split: if_splits)
  next
    case 4
    obtain s' q' where f: "first_byte surrogateescape_handler b = (s', q')" by fastforce
    then have "s = decode_flush surrogateescape_handler p @ s'" "q = q'" using 4 assms(3) by (auto simp: decode_byte_def)
    then show ?thesis using first [OF f] encode_surrogateescape_append [OF encode_flushed [OF assms(1)]] by fastforce
  qed
qed

lemma decode_more_encodes:
  assumes "pending_ok p" and "is_bytes bs" and "decode_more surrogateescape_handler p bs = (s, q)"
  shows "pending_ok q \<and> (\<exists>e. encode_surrogateescape s = Inr e \<and> e @ q = p @ bs)"
  using assms
proof (induction bs arbitrary: p s)
  case Nil
  then show ?case by simp
next
  case (Cons b bs)
  obtain s1 p1 where one: "decode_byte surrogateescape_handler p b = (s1, p1)" by fastforce
  obtain s2 where rest: "decode_more surrogateescape_handler p1 bs = (s2, q)" and s: "s = s1 @ s2"
    using Cons.prems(3) one by (auto split: prod.splits)
  have "b < 256" "is_bytes bs" using Cons.prems(2) by (auto simp: is_bytes_def)
  then obtain e1 where p1: "pending_ok p1" and e1: "encode_surrogateescape s1 = Inr e1" "e1 @ p1 = p @ [b]"
    using decode_byte_encodes [OF Cons.prems(1) _ one] by blast
  obtain e2 where "pending_ok q" and e2: "encode_surrogateescape s2 = Inr e2" "e2 @ q = p1 @ bs"
    using Cons.IH [OF p1 \<open>is_bytes bs\<close> rest] by blast
  moreover have "(e1 @ e2) @ q = p @ b # bs" using e1(2) e2(2) by (metis append_Cons append_Nil append_assoc)
  ultimately show ?case using encode_surrogateescape_append [OF e1(1) e2(1)] s by blast
qed

lemma encode_decode_file:
  assumes "is_bytes bs"
  shows "encode_file (decode_file bs) = Inr bs"
proof -
  obtain s q where dec: "decode_more surrogateescape_handler [] bs = (s, q)" by fastforce
  then obtain e where "pending_ok q" and e: "encode_surrogateescape s = Inr e" "e @ q = bs"
    using decode_more_encodes [of "[]" bs s q] assms by (auto simp: pending_ok_def)
  then show ?thesis
    using encode_surrogateescape_append [OF e(1) encode_flushed [OF \<open>pending_ok q\<close>]] dec
    by (simp add: encode_file_def decode_file_def decode_all_def)
qed

end
