(* ===== verification/Truncate.thy ===== *)
theory Truncate
  imports Unicode
begin

text \<open>
  The output caps of the agent tools (\<open>src/core/agent_core/tools/truncate.py\<close>) and the rolling
  tail of a job's output (\<open>OutputAccumulator\<close> of \<open>src/core/agent_core/tools/output.py\<close>).
  \<open>truncate_head\<close> keeps the first lines of a text that fit two limits, \<open>truncate_tail\<close> the last
  ones; the accumulator keeps a bounded suffix of everything appended to it and answers from
  that suffix. The limits are Python integers. The laws of \<open>truncate_head\<close> and \<open>truncate_tail\<close>
  and the comparison of the accumulator with \<open>truncate_tail\<close> of the whole text follow.
\<close>

unbundle bit_operations_syntax

section \<open>Lines\<close>

abbreviation newline :: nat where
  "newline \<equiv> 10"

text \<open>\<open>str.split\<close> at one character, and the slice \<open>xs[:n]\<close>.\<close>

fun split_on :: "nat \<Rightarrow> utext \<Rightarrow> utext list" where
  "split_on n [] = [[]]"
| "split_on n (c # s) =
     (if c = n then [] # split_on n s
      else case split_on n s of [] \<Rightarrow> [[c]] | l # ls \<Rightarrow> (c # l) # ls)"

definition slice_to :: "int \<Rightarrow> 'a list \<Rightarrow> 'a list" where
  "slice_to n xs = (if 0 \<le> n then take (nat n) xs else take (length xs - nat (- n)) xs)"

definition ends_with :: "nat \<Rightarrow> utext \<Rightarrow> bool" where
  "ends_with c s \<longleftrightarrow> s \<noteq> [] \<and> last s = c"

definition utf8_len :: "utext \<Rightarrow> nat" where
  "utf8_len s = length (encode_surrogatepass s)"

definition split_lines_for_counting :: "utext \<Rightarrow> utext list" where
  "split_lines_for_counting content =
     (if content = [] then []
      else let lines = split_on newline content in
        if ends_with newline content then butlast lines else lines)"

definition join_lines :: "utext list \<Rightarrow> utext" where
  "join_lines ls = join [newline] ls"

section \<open>Results\<close>

datatype truncated_by = ByLines | ByBytes

record truncation_result =
  tr_content :: utext
  tr_truncated :: bool
  tr_truncated_by :: "truncated_by option"
  tr_total_lines :: nat
  tr_total_bytes :: nat
  tr_output_lines :: nat
  tr_output_bytes :: nat
  tr_last_line_partial :: bool
  tr_first_line_exceeds_limit :: bool
  tr_max_lines :: int
  tr_max_bytes :: int

definition MAX_LINES :: int where
  "MAX_LINES = 2000"

definition MAX_BYTES :: int where
  "MAX_BYTES = 50 * 1024"

definition untruncated :: "utext \<Rightarrow> nat \<Rightarrow> nat \<Rightarrow> int \<Rightarrow> int \<Rightarrow> truncation_result" where
  "untruncated content total_lines total_bytes max_lines max_bytes =
     \<lparr>tr_content = content, tr_truncated = False, tr_truncated_by = None, tr_total_lines = total_lines,
      tr_total_bytes = total_bytes, tr_output_lines = total_lines, tr_output_bytes = total_bytes,
      tr_last_line_partial = False, tr_first_line_exceeds_limit = False, tr_max_lines = max_lines,
      tr_max_bytes = max_bytes\<rparr>"

section \<open>Sizes\<close>

text \<open>
  \<open>format_size\<close>. The quotient of a size below \<open>2 ^ 53\<close> by a power of two is exact in a double, so
  \<open>_to_fixed_1\<close> rounds the exact value, half up, to tenths.
\<close>

definition to_fixed_1 :: "nat \<Rightarrow> nat \<Rightarrow> string" where
  "to_fixed_1 n unit =
     (let tenths = (20 * n + unit) div (2 * unit) in nat_str (tenths div 10) @ ''.'' @ nat_str (tenths mod 10))"

definition format_size :: "nat \<Rightarrow> string" where
  "format_size n =
     (if n < 1024 then nat_str n @ ''B''
      else if n < 1024 * 1024 then to_fixed_1 n 1024 @ ''KB''
      else to_fixed_1 n (1024 * 1024) @ ''MB'')"

section \<open>Keeping the head\<close>

fun head_loop :: "int \<Rightarrow> nat \<Rightarrow> utext list \<Rightarrow> nat \<Rightarrow> utext list \<Rightarrow> utext list \<times> nat \<times> truncated_by" where
  "head_loop max_bytes index kept kept_bytes [] = (kept, kept_bytes, ByLines)"
| "head_loop max_bytes index kept kept_bytes (line # lines) =
     (let line_bytes = utf8_len line + (if index > 0 then 1 else 0) in
      if int (kept_bytes + line_bytes) > max_bytes then (kept, kept_bytes, ByBytes)
      else head_loop max_bytes (index + 1) (kept @ [line]) (kept_bytes + line_bytes) lines)"

definition truncate_head :: "utext \<Rightarrow> int \<Rightarrow> int \<Rightarrow> truncation_result result" where
  "truncate_head content max_lines max_bytes =
     (let total_bytes = utf8_len content;
          lines = split_lines_for_counting content;
          total_lines = length lines in
      if int total_lines \<le> max_lines \<and> int total_bytes \<le> max_bytes
      then Inr (untruncated content total_lines total_bytes max_lines max_bytes)
      else case lines of
        [] \<Rightarrow> Inl IndexError
      | first # _ \<Rightarrow>
         if int (utf8_len first) > max_bytes
         then Inr \<lparr>tr_content = [], tr_truncated = True, tr_truncated_by = Some ByBytes, tr_total_lines = total_lines,
                tr_total_bytes = total_bytes, tr_output_lines = 0, tr_output_bytes = 0, tr_last_line_partial = False,
                tr_first_line_exceeds_limit = True, tr_max_lines = max_lines, tr_max_bytes = max_bytes\<rparr>
         else case head_loop max_bytes 0 [] 0 (slice_to max_lines lines) of
           (kept, kept_bytes, by) \<Rightarrow>
             let by' = (if int (length kept) \<ge> max_lines \<and> int kept_bytes \<le> max_bytes then ByLines else by);
                 output = join_lines kept in
             Inr \<lparr>tr_content = output, tr_truncated = True, tr_truncated_by = Some by', tr_total_lines = total_lines,
                tr_total_bytes = total_bytes, tr_output_lines = length kept, tr_output_bytes = utf8_len output,
                tr_last_line_partial = False, tr_first_line_exceeds_limit = False, tr_max_lines = max_lines,
                tr_max_bytes = max_bytes\<rparr>)"

section \<open>Keeping the tail\<close>

text \<open>The loop \<open>while start < len(data) and (data[start] & 0xC0) == 0x80: start += 1\<close>.\<close>

function skip_continuation :: "bytes \<Rightarrow> nat \<Rightarrow> nat" where
  "skip_continuation data start =
     (if start < length data \<and> (data ! start) AND 0xC0 = 0x80 then skip_continuation data (start + 1) else start)"
  by auto
termination by (relation "measure (\<lambda>(data, start). length data - start)") auto

declare skip_continuation.simps [simp del]

definition truncate_string_to_bytes_from_end :: "utext \<Rightarrow> int \<Rightarrow> utext" where
  "truncate_string_to_bytes_from_end s max_bytes =
     (let data = encode_surrogatepass s in
      if int (length data) \<le> max_bytes then s
      else decode_all replace_handler (drop (skip_continuation data (nat (int (length data) - max_bytes))) data))"

text \<open>The loop runs over the reversed lines; its result is the kept lines, their bytes, the reason and the partial flag.\<close>

fun tail_loop :: "int \<Rightarrow> int \<Rightarrow> utext list \<Rightarrow> nat \<Rightarrow> utext list \<Rightarrow> utext list \<times> nat \<times> truncated_by \<times> bool" where
  "tail_loop max_lines max_bytes kept kept_bytes [] = (kept, kept_bytes, ByLines, False)"
| "tail_loop max_lines max_bytes kept kept_bytes (line # lines) =
     (if int (length kept) \<ge> max_lines then (kept, kept_bytes, ByLines, False)
      else let line_bytes = utf8_len line + (if kept \<noteq> [] then 1 else 0) in
        if int (kept_bytes + line_bytes) > max_bytes then
          (if kept = []
           then let partial = truncate_string_to_bytes_from_end line max_bytes in
             (partial # kept, utf8_len partial, ByBytes, True)
           else (kept, kept_bytes, ByBytes, False))
        else tail_loop max_lines max_bytes (line # kept) (kept_bytes + line_bytes) lines)"

definition truncate_tail :: "utext \<Rightarrow> int \<Rightarrow> int \<Rightarrow> truncation_result" where
  "truncate_tail content max_lines max_bytes =
     (let total_bytes = utf8_len content;
          lines = split_lines_for_counting content;
          total_lines = length lines in
      if int total_lines \<le> max_lines \<and> int total_bytes \<le> max_bytes
      then untruncated content total_lines total_bytes max_lines max_bytes
      else case tail_loop max_lines max_bytes [] 0 (rev lines) of
        (kept, kept_bytes, by, partial) \<Rightarrow>
          let by' = (if int (length kept) \<ge> max_lines \<and> int kept_bytes \<le> max_bytes then ByLines else by);
              output = join_lines kept in
          \<lparr>tr_content = output, tr_truncated = True, tr_truncated_by = Some by', tr_total_lines = total_lines,
           tr_total_bytes = total_bytes, tr_output_lines = length kept, tr_output_bytes = utf8_len output,
           tr_last_line_partial = partial, tr_first_line_exceeds_limit = False, tr_max_lines = max_lines,
           tr_max_bytes = max_bytes\<rparr>)"

section \<open>The rolling tail of a job's output\<close>

record accumulator =
  ac_max_lines :: int
  ac_max_bytes :: int
  ac_max_rolling :: int
  ac_tail :: utext
  ac_tail_bytes :: nat
  ac_starts_at_line_boundary :: bool
  ac_total_bytes :: nat
  ac_completed_lines :: nat
  ac_has_open_line :: bool

definition new_accumulator :: "int \<Rightarrow> int \<Rightarrow> accumulator" where
  "new_accumulator max_lines max_bytes =
     \<lparr>ac_max_lines = max_lines, ac_max_bytes = max_bytes, ac_max_rolling = max (max_bytes * 2) 1, ac_tail = [],
      ac_tail_bytes = 0, ac_starts_at_line_boundary = True, ac_total_bytes = 0, ac_completed_lines = 0,
      ac_has_open_line = False\<rparr>"

definition trim_tail :: "accumulator \<Rightarrow> accumulator" where
  "trim_tail a =
     (let data = encode_surrogatepass (ac_tail a) in
      if int (length data) \<le> ac_max_rolling a then a\<lparr>ac_tail_bytes := length data\<rparr>
      else
        let start = skip_continuation data (nat (int (length data) - ac_max_rolling a));
            boundary = (if start \<noteq> 0 then data ! (start - 1) = 0x0A else ac_starts_at_line_boundary a);
            tail = decode_all replace_handler (drop start data) in
        a\<lparr>ac_starts_at_line_boundary := boundary, ac_tail := tail, ac_tail_bytes := utf8_len tail\<rparr>)"

definition accumulator_append :: "utext \<Rightarrow> accumulator \<Rightarrow> accumulator" where
  "accumulator_append s a =
     (if s = [] then a
      else
        let n = utf8_len s;
            a1 = a\<lparr>ac_total_bytes := ac_total_bytes a + n, ac_tail := ac_tail a @ s,
                   ac_tail_bytes := ac_tail_bytes a + n\<rparr>;
            a2 = (if int (ac_tail_bytes a1) > ac_max_rolling a1 * 2 then trim_tail a1 else a1);
            newlines = count_list s newline in
        if newlines = 0 then a2\<lparr>ac_has_open_line := True\<rparr>
        else a2\<lparr>ac_completed_lines := ac_completed_lines a2 + newlines, ac_has_open_line := \<not> ends_with newline s\<rparr>)"

definition snapshot_text :: "accumulator \<Rightarrow> utext" where
  "snapshot_text a =
     (if ac_starts_at_line_boundary a then ac_tail a
      else if newline \<notin> set (ac_tail a) then ac_tail a
      else tl (dropWhile (\<lambda>c. c \<noteq> newline) (ac_tail a)))"

definition accumulator_snapshot :: "accumulator \<Rightarrow> utext \<Rightarrow> truncation_result" where
  "accumulator_snapshot a open_line =
     (let extra = utf8_len open_line;
          total_bytes = ac_total_bytes a + extra;
          total_lines = ac_completed_lines a + (if ac_has_open_line a \<or> open_line \<noteq> [] then 1 else 0);
          tail = truncate_tail (snapshot_text a @ open_line) (ac_max_lines a) (ac_max_bytes a);
          truncated = (int total_lines > ac_max_lines a \<or> int total_bytes > ac_max_bytes a);
          by = (if truncated
                then (case tr_truncated_by tail of
                        Some b \<Rightarrow> Some b
                      | None \<Rightarrow> Some (if int total_bytes > ac_max_bytes a then ByBytes else ByLines))
                else None) in
      tail\<lparr>tr_truncated := truncated, tr_truncated_by := by, tr_total_lines := total_lines, tr_total_bytes := total_bytes\<rparr>)"

section \<open>Lines and their sizes\<close>

lemma utf8_len_simps [simp]:
  "utf8_len [] = 0"
  "utf8_len (c # s) = length (utf8_char c) + utf8_len s"
  "utf8_len (s @ t) = utf8_len s + utf8_len t"
  by (simp_all add: utf8_len_def)

lemma utf8_len_newline [simp]: "length (utf8_char newline) = 1"
  by (simp add: utf8_char_def)

lemma utf8_len_eq_0 [simp]: "utf8_len s = 0 \<longleftrightarrow> s = []"
  using utf8_char_length(1) by (cases s) (auto simp: Suc_le_eq)

lemma split_on_not_Nil [simp]: "split_on n s \<noteq> []"
  by (cases s) (auto split: list.splits)

lemma join_Cons: "ls \<noteq> [] \<Longrightarrow> join sep (l # ls) = l @ sep @ join sep ls"
  by (cases ls) auto

lemma join_append: "ls \<noteq> [] \<Longrightarrow> ms \<noteq> [] \<Longrightarrow> join sep (ls @ ms) = join sep ls @ sep @ join sep ms"
  by (induction ls rule: induct_list012) (auto simp: join_Cons)

lemma join_Cons_Cons [simp]: "join sep ((c # l) # ls) = c # join sep (l # ls)"
  by (cases ls) auto

lemma join_split_on: "join [n] (split_on n s) = s"
  by (induction s) (auto simp: join_Cons split: list.splits)

lemma split_on_no_sep: "l \<in> set (split_on n s) \<Longrightarrow> n \<notin> set l"
  by (induction s arbitrary: l) (auto split: list.splits if_splits)

lemma split_on_append_sep: "split_on n (s @ n # t) = split_on n s @ split_on n t"
  by (induction s) (auto split: list.splits)

lemma split_on_plain: "n \<notin> set s \<Longrightarrow> split_on n s = [s]"
  by (induction s) auto

lemma utf8_len_join_lines:
  "utf8_len (join_lines ls) = sum_list (map utf8_len ls) + (length ls - 1)"
  by (induction ls rule: induct_list012) (auto simp: join_lines_def join_Cons)

lemma utf8_len_join_lines_snoc:
  "utf8_len (join_lines (ls @ [l])) = utf8_len (join_lines ls) + utf8_len l + (if ls = [] then 0 else 1)"
  by (cases ls) (simp_all add: utf8_len_join_lines)

lemma utf8_len_join_lines_Cons:
  "utf8_len (join_lines (l # ls)) = utf8_len l + utf8_len (join_lines ls) + (if ls = [] then 0 else 1)"
  by (cases ls) (simp_all add: utf8_len_join_lines)

section \<open>The head loop\<close>

lemma head_loop_spec:
  assumes "head_loop mb (length kept) kept kb ls = (kept', kb', by')"
    and "kb = utf8_len (join_lines kept)" and "int kb \<le> mb"
  shows "\<exists>k\<le>length ls. kept' = kept @ take k ls \<and> kb' = utf8_len (join_lines kept') \<and> int kb' \<le> mb
    \<and> (k < length ls \<longrightarrow> int (utf8_len (join_lines (kept @ take (Suc k) ls))) > mb)
    \<and> by' = (if k < length ls then ByBytes else ByLines)"
  using assms
proof (induction ls arbitrary: kept kb)
  case Nil
  then show ?case by auto
next
  case (Cons l ls)
  let ?lb = "utf8_len l + (if length kept > 0 then 1 else 0)"
  have join: "utf8_len (join_lines (kept @ [l])) = kb + ?lb"
    using Cons.prems(2) by (simp add: utf8_len_join_lines_snoc)
  show ?case
  proof (cases "int (kb + ?lb) > mb")
    case True
    then show ?thesis using Cons.prems join by (intro exI [of _ 0]) (auto simp: Let_def)
  next
    case False
    then have "head_loop mb (length (kept @ [l])) (kept @ [l]) (kb + ?lb) ls = (kept', kb', by')"
      using Cons.prems(1) by (simp add: Let_def)
    from Cons.IH [OF this join [symmetric]] False obtain k where "k \<le> length ls"
      "kept' = (kept @ [l]) @ take k ls" "kb' = utf8_len (join_lines kept')" "int kb' \<le> mb"
      "k < length ls \<longrightarrow> int (utf8_len (join_lines ((kept @ [l]) @ take (Suc k) ls))) > mb"
      "by' = (if k < length ls then ByBytes else ByLines)" by auto
    then show ?thesis by (intro exI [of _ "Suc k"]) simp
  qed
qed

section \<open>Cutting a line at a character boundary\<close>

lemma and_double: "(b :: nat) AND (2 * n) = 2 * ((b div 2) AND n)"
  by (simp add: and_rec [of b "2 * n"])

lemma continuation_mask:
  assumes "b < 256"
  shows "b AND 0xC0 = 0x80 \<longleftrightarrow> is_continuation b"
proof -
  have "(0xC0 :: nat) = 2 * (2 * (2 * (2 * (2 * (2 * 3)))))" by simp
  then have and_eq: "b AND 0xC0 = 64 * ((b div 64) AND 3)"
    by (simp only: and_double) (simp add: div_mult2_eq [symmetric])
  have "b div 64 < 4" using assms by (simp add: less_mult_imp_div_less)
  then have "b div 64 \<in> {0, 1, 2, 3}" by auto
  moreover have "b div 64 = 2 \<longleftrightarrow> is_continuation b" by (auto simp: is_continuation_def)
  ultimately show ?thesis by (auto simp: and_eq)
qed

lemma utf8_char_bytes:
  assumes "c < 0x110000"
  shows "\<forall>b\<in>set (utf8_char c). b < 256"
proof -
  have "c < 0x800 \<Longrightarrow> c div 64 < 32" "c < 0x10000 \<Longrightarrow> c div 4096 < 16" "c div 262144 < 5"
    using assms by (auto simp: less_mult_imp_div_less)
  moreover have "c mod 64 < 64" "c div 64 mod 64 < 64" "c div 4096 mod 64 < 64" by simp_all
  ultimately show ?thesis by (auto simp: utf8_char_def)
qed

lemma encode_is_bytes: "\<forall>c\<in>set s. c < 0x110000 \<Longrightarrow> is_bytes (encode_surrogatepass s)"
  using utf8_char_bytes by (auto simp: is_bytes_def encode_surrogatepass_def)

lemma skip_continuation_eq:
  assumes "is_bytes data" and "i \<le> length data"
  shows "skip_continuation data i = i + length (takeWhile is_continuation (drop i data))"
  using assms
proof (induction "length data - i" arbitrary: i)
  case 0
  then show ?case by (simp add: skip_continuation.simps [of data i])
next
  case (Suc n)
  then have i: "i < length data" and "data ! i < 256" by (auto simp: is_bytes_def)
  then have mask: "(data ! i) AND 0xC0 = 0x80 \<longleftrightarrow> is_continuation (data ! i)" by (simp add: continuation_mask)
  have "skip_continuation data (i + 1) = i + 1 + length (takeWhile is_continuation (drop (i + 1) data))"
    using Suc.hyps(1) [of "i + 1"] Suc.hyps(2) Suc.prems i by simp
  then show ?case using i mask
    by (cases "is_continuation (data ! i)")
      (simp_all add: skip_continuation.simps [of data i] Cons_nth_drop_Suc [symmetric])
qed

lemma utf8_boundary:
  assumes "i \<le> utf8_len s"
  shows "\<exists>k\<le>length s. i + length (takeWhile is_continuation (drop i (encode_surrogatepass s))) = utf8_len (take k s)
    \<and> (0 < k \<longrightarrow> utf8_len (take (k - 1) s) < i)"
  using assms
proof (induction s arbitrary: i)
  case Nil
  then show ?case by simp
next
  case (Cons c s)
  obtain b bs where u: "utf8_char c = b # bs" and b: "\<not> is_continuation b" and bs: "\<forall>x\<in>set bs. is_continuation x"
    using utf8_char_shape by blast
  have next_char: "takeWhile is_continuation (encode_surrogatepass s) = []"
    using utf8_char_shape [of "hd s"] by (cases s) auto
  consider "i = 0" | "0 < i" "i \<le> length (utf8_char c)" | "length (utf8_char c) < i" by linarith
  then show ?case
  proof cases
    case 1
    then show ?thesis using b by (intro exI [of _ 0]) (simp add: u)
  next
    case 2
    have "\<forall>x\<in>set (drop i (utf8_char c)). is_continuation x"
      using 2 bs by (cases i) (auto simp: u dest: in_set_dropD)
    then have "takeWhile is_continuation (drop i (utf8_char c) @ encode_surrogatepass s) = drop i (utf8_char c)"
      using next_char by (simp add: takeWhile_append2)
    then show ?thesis using 2 by (intro exI [of _ 1]) simp
  next
    case 3
    have "i - length (utf8_char c) \<le> utf8_len s" using Cons.prems by simp
    from Cons.IH [OF this] obtain k where k: "k \<le> length s" "i - length (utf8_char c)
        + length (takeWhile is_continuation (drop (i - length (utf8_char c)) (encode_surrogatepass s))) = utf8_len (take k s)"
      "0 < k \<longrightarrow> utf8_len (take (k - 1) s) < i - length (utf8_char c)"
      by blast
    obtain m where "k = Suc m" using k(2) 3 by (cases k) auto
    moreover have "drop i (utf8_char c @ encode_surrogatepass s) = drop (i - length (utf8_char c)) (encode_surrogatepass s)"
      using 3 by simp
    ultimately show ?thesis using 3 k by (intro exI [of _ "Suc k"]) (simp, linarith)
  qed
qed

text \<open>Skipping to a boundary and decoding the rest drops whole characters, as few as possible.\<close>

lemma cut_at_boundary:
  assumes "scalar_text s" and "i \<le> utf8_len s"
  shows "\<exists>k\<le>length s. skip_continuation (encode_surrogatepass s) i = utf8_len (take k s)
    \<and> decode_all h (drop (utf8_len (take k s)) (encode_surrogatepass s)) = drop k s
    \<and> i \<le> utf8_len (take k s) \<and> (0 < k \<longrightarrow> utf8_len (take (k - 1) s) < i)"
proof -
  have bytes: "is_bytes (encode_surrogatepass s)" using assms(1) by (intro encode_is_bytes) (auto simp: scalar_text_def)
  have eq: "skip_continuation (encode_surrogatepass s) i
      = i + length (takeWhile is_continuation (drop i (encode_surrogatepass s)))"
    using assms(2) by (intro skip_continuation_eq [OF bytes]) (simp add: utf8_len_def)
  obtain k where k: "k \<le> length s" "skip_continuation (encode_surrogatepass s) i = utf8_len (take k s)"
    "0 < k \<longrightarrow> utf8_len (take (k - 1) s) < i" using utf8_boundary [OF assms(2)] eq by auto
  have "encode_surrogatepass s = encode_surrogatepass (take k s) @ encode_surrogatepass (drop k s)"
    by (metis append_take_drop_id encode_surrogatepass_simps(3))
  then have "drop (utf8_len (take k s)) (encode_surrogatepass s) = encode_surrogatepass (drop k s)"
    by (simp add: utf8_len_def)
  moreover have "scalar_text (drop k s)" using assms(1) by (auto simp: scalar_text_def dest: in_set_dropD)
  ultimately show ?thesis using k eq by (intro exI [of _ k]) (auto simp: decode_all_encoded)
qed

lemma utf8_len_drop: "utf8_len (drop k s) = utf8_len s - utf8_len (take k s)"
  by (metis add_diff_cancel_left' append_take_drop_id utf8_len_simps(3))

lemma cut_from_end:
  assumes "scalar_text s" and "0 \<le> mb"
  shows "\<exists>k\<le>length s. truncate_string_to_bytes_from_end s mb = drop k s \<and> int (utf8_len (drop k s)) \<le> mb
    \<and> (0 < k \<longrightarrow> int (utf8_len (drop (k - 1) s)) > mb)"
proof (cases "int (utf8_len s) \<le> mb")
  case True
  then show ?thesis by (intro exI [of _ 0]) (simp add: truncate_string_to_bytes_from_end_def utf8_len_def)
next
  case False
  let ?i = "nat (int (utf8_len s) - mb)"
  have i: "?i \<le> utf8_len s" "int ?i = int (utf8_len s) - mb" using False assms(2) by auto
  obtain k where k: "k \<le> length s" "skip_continuation (encode_surrogatepass s) ?i = utf8_len (take k s)"
    "decode_all replace_handler (drop (utf8_len (take k s)) (encode_surrogatepass s)) = drop k s"
    "?i \<le> utf8_len (take k s)" "0 < k \<longrightarrow> utf8_len (take (k - 1) s) < ?i"
    using cut_at_boundary [OF assms(1) i(1)] by blast
  have "truncate_string_to_bytes_from_end s mb = drop k s"
    using False k(2,3) by (simp add: truncate_string_to_bytes_from_end_def utf8_len_def [symmetric] Let_def)
  moreover have "int (utf8_len (drop k s)) \<le> mb" using k(4) i by (simp add: utf8_len_drop)
  moreover have "0 < k \<longrightarrow> int (utf8_len (drop (k - 1) s)) > mb" using k(5) i by (auto simp: utf8_len_drop)
  ultimately show ?thesis using k(1) by blast
qed

section \<open>The tail loop\<close>

lemma tail_loop_spec:
  assumes "tail_loop ml mb kept kb ls = (kept', kb', by', partial)"
    and "kb = utf8_len (join_lines kept)" and "int kb \<le> mb" and "int (length kept) \<le> ml"
    and "\<not> (kept = [] \<and> ls \<noteq> [] \<and> 0 < ml \<and> int (utf8_len (hd ls)) > mb)"
  shows "\<exists>k\<le>length ls. kept' = rev (take k ls) @ kept \<and> kb' = utf8_len (join_lines kept') \<and> int kb' \<le> mb
    \<and> int (length kept') \<le> ml \<and> \<not> partial
    \<and> (k < length ls \<longrightarrow> int (length kept') = ml \<or> int (utf8_len (join_lines (ls ! k # kept'))) > mb)
    \<and> by' = (if k < length ls \<and> int (length kept') < ml then ByBytes else ByLines)"
  using assms
proof (induction ls arbitrary: kept kb)
  case Nil
  then show ?case by auto
next
  case (Cons l ls)
  let ?lb = "utf8_len l + (if kept \<noteq> [] then 1 else 0)"
  have join: "utf8_len (join_lines (l # kept)) = kb + ?lb"
    using Cons.prems(2) by (simp add: utf8_len_join_lines_Cons)
  consider "int (length kept) = ml" | "int (length kept) < ml" "int (kb + ?lb) > mb"
    | "int (length kept) < ml" "int (kb + ?lb) \<le> mb" using Cons.prems(4) by linarith
  then show ?case
  proof cases
    case 1
    then show ?thesis using Cons.prems by (intro exI [of _ 0]) auto
  next
    case 2
    then have "kept \<noteq> []" using Cons.prems(2,5) by (auto simp: join_lines_def)
    then show ?thesis using Cons.prems 2 join by (intro exI [of _ 0]) (auto simp: Let_def)
  next
    case 3
    then have step: "tail_loop ml mb (l # kept) (kb + ?lb) ls = (kept', kb', by', partial)"
      using Cons.prems(1) by (simp add: Let_def)
    have len: "int (length (l # kept)) \<le> ml" using 3(1) by simp
    have ne: "\<not> (l # kept = [] \<and> ls \<noteq> [] \<and> 0 < ml \<and> int (utf8_len (hd ls)) > mb)" by simp
    obtain k where k: "k \<le> length ls \<and> kept' = rev (take k ls) @ l # kept \<and> kb' = utf8_len (join_lines kept') \<and> int kb' \<le> mb
      \<and> int (length kept') \<le> ml \<and> \<not> partial
      \<and> (k < length ls \<longrightarrow> int (length kept') = ml \<or> int (utf8_len (join_lines (ls ! k # kept'))) > mb)
      \<and> by' = (if k < length ls \<and> int (length kept') < ml then ByBytes else ByLines)"
      using Cons.IH [OF step join [symmetric] 3(2) len ne] by (rule exE)
    have eqs: "rev (take (Suc k) (l # ls)) @ kept = rev (take k ls) @ l # kept" "(l # ls) ! Suc k = ls ! k"
      "Suc k \<le> length (l # ls) \<longleftrightarrow> k \<le> length ls" "Suc k < length (l # ls) \<longleftrightarrow> k < length ls" by simp_all
    show ?thesis by (intro exI [of _ "Suc k"]) (unfold eqs, rule k)
  qed
qed

section \<open>Lines of composed texts\<close>

lemma lines_snoc_newline: "split_lines_for_counting (s @ [newline]) = split_on newline s"
  by (simp add: split_lines_for_counting_def ends_with_def Let_def split_on_append_sep)

lemma lines_open: "s \<noteq> [] \<Longrightarrow> \<not> ends_with newline s \<Longrightarrow> split_lines_for_counting s = split_on newline s"
  by (simp add: split_lines_for_counting_def)

lemma ends_with_cases:
  obtains "s = []" | t where "s = t @ [newline]" | "s \<noteq> []" "\<not> ends_with newline s"
  by (cases s rule: rev_cases) (auto simp: ends_with_def)

lemma lines_after_newline:
  assumes "t \<noteq> []"
  shows "split_lines_for_counting (p @ newline # t) = split_on newline p @ split_lines_for_counting t"
proof (cases t rule: ends_with_cases)
  case (2 u)
  then show ?thesis using lines_snoc_newline [of "p @ newline # u"] lines_snoc_newline [of u]
    by (simp add: split_on_append_sep)
next
  case 3
  then have "\<not> ends_with newline (p @ newline # t)" by (simp add: ends_with_def)
  then show ?thesis using 3 by (simp add: lines_open split_on_append_sep)
qed (use assms in simp)

lemma split_on_append_plain:
  "n \<notin> set t \<Longrightarrow> split_on n (s @ t) = butlast (split_on n s) @ [last (split_on n s) @ t]"
  by (induction s) (auto simp: split_on_plain split: list.splits)

lemma set_split_on: "l \<in> set (split_on n s) \<Longrightarrow> set l \<subseteq> set s"
proof (induction s arbitrary: l)
  case (Cons c s)
  then show ?case by (cases "split_on n s") (auto split: if_splits, blast+)
qed simp

lemma length_split_on: "length (split_on n s) = count_list s n + 1"
  by (induction s) (auto split: list.splits)

lemma count_list_append': "count_list (s @ t) c = count_list s c + count_list t c"
  by (induction s) auto

lemma length_lines:
  "length (split_lines_for_counting s) = count_list s newline + (if s = [] \<or> ends_with newline s then 0 else 1)"
proof (cases s rule: ends_with_cases)
  case (2 t)
  then show ?thesis by (simp add: lines_snoc_newline length_split_on count_list_append' ends_with_def)
qed (simp_all add: split_lines_for_counting_def length_split_on)

lemma join_lines_of: "join_lines (split_lines_for_counting s) = (if ends_with newline s then butlast s else s)"
proof (cases s rule: ends_with_cases)
  case (2 t)
  then show ?thesis by (simp add: lines_snoc_newline join_lines_def join_split_on ends_with_def)
qed (simp_all add: split_lines_for_counting_def join_lines_def join_split_on ends_with_def)

lemma utf8_len_join_lines_of:
  "utf8_len (join_lines (split_lines_for_counting s)) + (if ends_with newline s then 1 else 0) = utf8_len s"
  by (cases s rule: ends_with_cases) (auto simp: join_lines_of ends_with_def)

lemma lines_eq_Nil [simp]: "split_lines_for_counting s = [] \<longleftrightarrow> s = []"
proof (cases s rule: ends_with_cases)
  case (2 t)
  then show ?thesis by (simp add: lines_snoc_newline)
qed (simp_all add: split_lines_for_counting_def)

section \<open>The tail depends on the end of the text only\<close>

lemma tail_loop_stops:
  assumes "kb = utf8_len (join_lines kept)"
    and "ml \<le> int (length kept + length xs) \<or> int (utf8_len (join_lines (rev xs @ kept))) > mb" and "int kb \<le> mb"
  shows "tail_loop ml mb kept kb (xs @ ys) = tail_loop ml mb kept kb xs"
  using assms
proof (induction xs arbitrary: kept kb)
  case Nil
  then show ?case by (cases ys) auto
next
  case (Cons l xs)
  let ?lb = "utf8_len l + (if kept \<noteq> [] then 1 else 0)"
  have join: "kb + ?lb = utf8_len (join_lines (l # kept))"
    using Cons.prems(1) by (simp add: utf8_len_join_lines_Cons)
  have "tail_loop ml mb (l # kept) (kb + ?lb) (xs @ ys) = tail_loop ml mb (l # kept) (kb + ?lb) xs"
    if "int (kb + ?lb) \<le> mb" using Cons.prems(2) that by (intro Cons.IH [OF join]) auto
  then show ?case by (simp add: Let_def)
qed

text \<open>The loop result as a record of the truncated case, shared by the two comparisons below.\<close>

lemma truncate_tail_truncated:
  assumes "\<not> (int (length (split_lines_for_counting s)) \<le> ml \<and> int (utf8_len s) \<le> mb)"
    and "tail_loop ml mb [] 0 (rev (split_lines_for_counting s)) = (kept, kb, by', partial)"
  shows "tr_content (truncate_tail s ml mb) = join_lines kept \<and> tr_output_lines (truncate_tail s ml mb) = length kept
    \<and> tr_last_line_partial (truncate_tail s ml mb) = partial \<and> tr_truncated (truncate_tail s ml mb)
    \<and> tr_total_lines (truncate_tail s ml mb) = length (split_lines_for_counting s)
    \<and> tr_total_bytes (truncate_tail s ml mb) = utf8_len s"
proof -
  have "truncate_tail s ml mb =
     \<lparr>tr_content = join_lines kept, tr_truncated = True,
      tr_truncated_by = Some (if int (length kept) \<ge> ml \<and> int kb \<le> mb then ByLines else by'),
      tr_total_lines = length (split_lines_for_counting s), tr_total_bytes = utf8_len s, tr_output_lines = length kept,
      tr_output_bytes = utf8_len (join_lines kept), tr_last_line_partial = partial,
      tr_first_line_exceeds_limit = False, tr_max_lines = ml, tr_max_bytes = mb\<rparr>"
    unfolding truncate_tail_def Let_def if_not_P [OF assms(1)] assms(2) by simp
  then show ?thesis by simp
qed

lemma truncate_tail_fits:
  assumes "int (length (split_lines_for_counting s)) \<le> ml" and "int (utf8_len s) \<le> mb"
  shows "truncate_tail s ml mb = untruncated s (length (split_lines_for_counting s)) (utf8_len s) ml mb"
  using assms unfolding truncate_tail_def Let_def by simp

definition same_lines :: "truncation_result \<Rightarrow> truncation_result \<Rightarrow> bool" where
  "same_lines r r' \<longleftrightarrow> tr_output_lines r = tr_output_lines r' \<and> tr_last_line_partial r = tr_last_line_partial r'
     \<and> (tr_content r = tr_content r' \<or> tr_content r = tr_content r' @ [newline])"

lemma same_lines_refl [simp]: "same_lines r r"
  by (simp add: same_lines_def)

lemma tail_loop_blocked:
  assumes "kb = utf8_len (join_lines kept)" and "int (length kept) \<le> ml" and "kept \<noteq> []"
    and "ml \<le> int (length kept) \<or> int (kb + utf8_len l + 1) > mb"
  shows "\<exists>by'. tail_loop ml mb kept kb (l # ls) = (kept, kb, by', False)"
  using assms by (auto simp: Let_def)

lemma tail_loop_append_all:
  assumes "kb = utf8_len (join_lines kept)" and "int (length kept + length xs) \<le> ml"
    and "int (utf8_len (join_lines (rev xs @ kept))) \<le> mb"
  shows "tail_loop ml mb kept kb (xs @ ys) = tail_loop ml mb (rev xs @ kept) (utf8_len (join_lines (rev xs @ kept))) ys"
  using assms
proof (induction xs arbitrary: kept kb)
  case Nil
  then show ?case by simp
next
  case (Cons l xs)
  let ?lb = "utf8_len l + (if kept \<noteq> [] then 1 else 0)"
  have join: "kb + ?lb = utf8_len (join_lines (l # kept))"
    using Cons.prems(1) by (simp add: utf8_len_join_lines_Cons)
  have "utf8_len (join_lines (l # kept)) \<le> utf8_len (join_lines (rev (l # xs) @ kept))"
    by (simp add: utf8_len_join_lines)
  then have "int (kb + ?lb) \<le> mb" using Cons.prems(3) join by linarith
  moreover have "tail_loop ml mb (l # kept) (kb + ?lb) (xs @ ys)
      = tail_loop ml mb (rev xs @ l # kept) (utf8_len (join_lines (rev xs @ l # kept))) ys"
    using Cons.prems by (intro Cons.IH [OF join]) auto
  ultimately show ?case using Cons.prems(2) by (simp add: Let_def)
qed

lemma tail_after_newline:
  assumes W: "W = p @ newline # t" and t: "t \<noteq> []" and "0 \<le> mb"
    and big: "\<not> (int (length (split_lines_for_counting W)) \<le> ml \<and> int (utf8_len W) \<le> mb)"
    and enough: "ml \<le> int (length (split_lines_for_counting t))
      \<or> int (utf8_len (last (split_on newline p)) + 1 + utf8_len (join_lines (split_lines_for_counting t))) > mb"
  shows "same_lines (truncate_tail t ml mb) (truncate_tail W ml mb)"
proof -
  let ?ls = "split_lines_for_counting t"
  have lines: "rev (split_lines_for_counting W) = rev ?ls @ last (split_on newline p) # rev (butlast (split_on newline p))"
    using lines_after_newline [OF t] by (simp add: W)
  have zero: "(0::nat) = utf8_len (join_lines [])" by (simp add: join_lines_def)
  show ?thesis
  proof (cases "int (length ?ls) \<le> ml \<and> int (utf8_len (join_lines ?ls)) \<le> mb")
    case True
    then have all: "tail_loop ml mb [] 0 (rev ?ls @ ys) = tail_loop ml mb ?ls (utf8_len (join_lines ?ls)) ys" for ys
      using tail_loop_append_all [OF zero, of "rev ?ls" ml mb ys] by simp
    obtain by' where "tail_loop ml mb [] 0 (rev (split_lines_for_counting W)) = (?ls, utf8_len (join_lines ?ls), by', False)"
      using tail_loop_blocked [of _ ?ls ml mb "last (split_on newline p)"] enough True t
      by (auto simp: lines all add_ac)
    note whole = truncate_tail_truncated [OF big this]
    show ?thesis
    proof (cases "int (utf8_len t) \<le> mb")
      case fits: True
      moreover have "ends_with newline t \<Longrightarrow> butlast t @ [newline] = t"
        using append_butlast_last_id [of t] by (simp add: ends_with_def)
      ultimately show ?thesis using whole True truncate_tail_fits [of t ml mb] t
        by (auto simp: same_lines_def untruncated_def join_lines_of split: if_splits)
    next
      case False
      then show ?thesis using whole truncate_tail_truncated [of t ml mb] all [of "[]"] by (auto simp: same_lines_def)
    qed
  next
    case False
    then have "tail_loop ml mb [] 0 (rev ?ls @ ys) = tail_loop ml mb [] 0 (rev ?ls)" for ys
      using assms(3) by (intro tail_loop_stops [OF zero]) auto
    moreover have "\<not> (int (length ?ls) \<le> ml \<and> int (utf8_len t) \<le> mb)"
      using False utf8_len_join_lines_of [of t] by (auto split: if_splits)
    ultimately show ?thesis
      using truncate_tail_truncated [OF big] truncate_tail_truncated [of t ml mb]
      by (cases "tail_loop ml mb [] 0 (rev ?ls)") (auto simp: same_lines_def lines)
  qed
qed

section \<open>What the accumulator keeps\<close>

text \<open>
  \<open>tail_of w a\<close>: the accumulator has been given the text \<open>w\<close>. Its tail is a suffix of \<open>w\<close>, long enough
  when something was dropped, and it knows whether the suffix starts a line.
\<close>

definition tail_of :: "utext \<Rightarrow> accumulator \<Rightarrow> bool" where
  "tail_of w a \<longleftrightarrow>
     ac_max_rolling a = max (ac_max_bytes a * 2) 1
     \<and> ac_total_bytes a = utf8_len w \<and> ac_completed_lines a = count_list w newline
     \<and> ac_has_open_line a = (w \<noteq> [] \<and> \<not> ends_with newline w) \<and> ac_tail_bytes a = utf8_len (ac_tail a)
     \<and> (\<exists>pre. w = pre @ ac_tail a
          \<and> ac_starts_at_line_boundary a = (pre = [] \<or> last pre = newline)
          \<and> (pre \<noteq> [] \<longrightarrow> int (utf8_len (ac_tail a)) + 3 \<ge> ac_max_rolling a))"

lemma tail_of_new: "tail_of [] (new_accumulator ml mb)"
  by (simp add: tail_of_def new_accumulator_def)

lemma last_byte_newline:
  assumes "s \<noteq> []"
  shows "last (encode_surrogatepass s) = newline \<longleftrightarrow> last s = newline"
proof -
  obtain t c where s: "s = t @ [c]" using assms by (cases s rule: rev_cases) auto
  show ?thesis using utf8_char_length(1) [of c] by (auto simp: s utf8_char_def last_append)
qed

lemma last_take: "0 < k \<Longrightarrow> k \<le> length s \<Longrightarrow> take k s \<noteq> [] \<and> last (take k s) = s ! (k - 1)"
  by (cases k) (auto simp: take_Suc_conv_app_nth)

lemma trim_tail_keeps:
  assumes "scalar_text (ac_tail a)" and "1 \<le> ac_max_rolling a" and "ac_tail_bytes a = utf8_len (ac_tail a)"
  shows "\<exists>k. trim_tail a = a\<lparr>ac_starts_at_line_boundary := (if k = 0 then ac_starts_at_line_boundary a else ac_tail a ! (k - 1) = newline),
      ac_tail := drop k (ac_tail a), ac_tail_bytes := utf8_len (drop k (ac_tail a))\<rparr>
    \<and> k \<le> length (ac_tail a) \<and> (0 < k \<longrightarrow> int (utf8_len (drop k (ac_tail a))) + 3 \<ge> ac_max_rolling a)
    \<and> int (utf8_len (drop k (ac_tail a))) \<le> ac_max_rolling a"
proof (cases "int (utf8_len (ac_tail a)) \<le> ac_max_rolling a")
  case True
  then show ?thesis using assms(3) by (intro exI [of _ 0]) (simp add: trim_tail_def Let_def utf8_len_def)
next
  case False
  let ?s = "ac_tail a" and ?i = "nat (int (utf8_len (ac_tail a)) - ac_max_rolling a)"
  have i: "?i \<le> utf8_len ?s" "0 < ?i" "int ?i = int (utf8_len ?s) - ac_max_rolling a" using False assms(2) by auto
  obtain k where k: "k \<le> length ?s" "skip_continuation (encode_surrogatepass ?s) ?i = utf8_len (take k ?s)"
    "decode_all replace_handler (drop (utf8_len (take k ?s)) (encode_surrogatepass ?s)) = drop k ?s"
    "?i \<le> utf8_len (take k ?s)" "0 < k \<longrightarrow> utf8_len (take (k - 1) ?s) < ?i"
    using cut_at_boundary [OF assms(1) i(1)] by blast
  have pos: "0 < k" "take k ?s \<noteq> []" using k(1,4) i(2) by (cases k; auto)+
  have last: "last (take k ?s) = ?s ! (k - 1)" using pos k(1) last_take by blast
  have "encode_surrogatepass ?s = encode_surrogatepass (take k ?s) @ encode_surrogatepass (drop k ?s)"
    by (metis append_take_drop_id encode_surrogatepass_simps(3))
  moreover have "0 < length (encode_surrogatepass (take k ?s))"
    using pos(2) utf8_len_eq_0 [of "take k ?s"] by (simp add: utf8_len_def del: utf8_len_eq_0)
  ultimately have "encode_surrogatepass ?s ! (utf8_len (take k ?s) - 1) = last (encode_surrogatepass (take k ?s))"
    by (simp add: utf8_len_def nth_append last_conv_nth)
  then have byte: "encode_surrogatepass ?s ! (utf8_len (take k ?s) - 1) = 0x0A \<longleftrightarrow> ?s ! (k - 1) = newline"
    using last_byte_newline [OF pos(2)] last by simp
  have "utf8_len (take k ?s) \<noteq> 0" using pos(2) by simp
  then have "trim_tail a = a\<lparr>ac_starts_at_line_boundary := (?s ! (k - 1) = newline), ac_tail := drop k ?s,
      ac_tail_bytes := utf8_len (drop k ?s)\<rparr>"
    using False k(2,3) byte by (simp add: trim_tail_def Let_def utf8_len_def [symmetric])
  moreover have "take k ?s = take (k - 1) ?s @ [?s ! (k - 1)]"
    using pos(1) k(1) by (metis One_nat_def Suc_less_eq Suc_pred le_imp_less_Suc take_Suc_conv_app_nth)
  then have "utf8_len (take k ?s) \<le> ?i + 3" using k(5) pos(1) utf8_char_length(2) [of "?s ! (k - 1)"] by simp
  then have "int (utf8_len (drop k ?s)) + 3 \<ge> ac_max_rolling a" using i by (simp add: utf8_len_drop)
  moreover have "int (utf8_len (drop k ?s)) \<le> ac_max_rolling a" using k(4) i by (simp add: utf8_len_drop)
  ultimately show ?thesis using k(1) pos(1) by (intro exI [of _ k]) simp
qed

lemma tail_of_append:
  assumes "tail_of w a" and "scalar_text (w @ s)"
  shows "tail_of (w @ s) (accumulator_append s a)"
proof (cases "s = []")
  case True
  then show ?thesis using assms(1) by (simp add: accumulator_append_def)
next
  case False
  define a1 where "a1 = a\<lparr>ac_total_bytes := ac_total_bytes a + utf8_len s, ac_tail := ac_tail a @ s,
      ac_tail_bytes := ac_tail_bytes a + utf8_len s\<rparr>"
  define a2 where "a2 = (if int (ac_tail_bytes a1) > ac_max_rolling a1 * 2 then trim_tail a1 else a1)"
  have app: "accumulator_append s a = (if count_list s newline = 0 then a2\<lparr>ac_has_open_line := True\<rparr>
      else a2\<lparr>ac_completed_lines := ac_completed_lines a2 + count_list s newline, ac_has_open_line := \<not> ends_with newline s\<rparr>)"
    using False by (simp only: accumulator_append_def Let_def a1_def [symmetric] a2_def [symmetric] if_False)
  obtain pre where pre: "w = pre @ ac_tail a" "ac_starts_at_line_boundary a = (pre = [] \<or> last pre = newline)"
    "pre \<noteq> [] \<longrightarrow> int (utf8_len (ac_tail a)) + 3 \<ge> ac_max_rolling a" using assms(1) by (auto simp: tail_of_def)
  have scalar: "scalar_text (ac_tail a1)" using assms(2) pre(1) by (auto simp: scalar_text_def a1_def)
  have "1 \<le> ac_max_rolling a1" "ac_tail_bytes a1 = utf8_len (ac_tail a1)"
    using assms(1) by (auto simp: tail_of_def a1_def)
  from trim_tail_keeps [OF scalar this] obtain k where k: "k \<le> length (ac_tail a1)"
    "a2 = a1\<lparr>ac_starts_at_line_boundary := (if k = 0 then ac_starts_at_line_boundary a1 else ac_tail a1 ! (k - 1) = newline),
      ac_tail := drop k (ac_tail a1), ac_tail_bytes := utf8_len (drop k (ac_tail a1))\<rparr>"
    "0 < k \<longrightarrow> int (utf8_len (drop k (ac_tail a1))) + 3 \<ge> ac_max_rolling a1"
    using \<open>ac_tail_bytes a1 = _\<close> by (cases "int (ac_tail_bytes a1) > ac_max_rolling a1 * 2")
      (auto simp: a2_def intro: that [of 0])
  have flag: "ac_starts_at_line_boundary a1 = ac_starts_at_line_boundary a" by (simp add: a1_def)
  have "\<exists>pre'. w @ s = pre' @ ac_tail a2 \<and> ac_starts_at_line_boundary a2 = (pre' = [] \<or> last pre' = newline)
      \<and> (pre' \<noteq> [] \<longrightarrow> int (utf8_len (ac_tail a2)) + 3 \<ge> ac_max_rolling a2)"
  proof (intro exI conjI)
    show "w @ s = (pre @ take k (ac_tail a1)) @ ac_tail a2" by (simp add: k(2) pre(1)) (simp add: a1_def)
    show "ac_starts_at_line_boundary a2 = (pre @ take k (ac_tail a1) = [] \<or> last (pre @ take k (ac_tail a1)) = newline)"
      using pre(2) k(1) last_take [of k "ac_tail a1"] flag by (cases "k = 0") (simp_all add: k(2))
    show "pre @ take k (ac_tail a1) \<noteq> [] \<longrightarrow> int (utf8_len (ac_tail a2)) + 3 \<ge> ac_max_rolling a2"
      using pre(3) k(1,3) by (cases "k = 0") (auto simp: k(2) a1_def)
  qed
  moreover have "ends_with newline (w @ s) = ends_with newline s" using False by (simp add: ends_with_def)
  moreover have "count_list s newline = 0 \<Longrightarrow> \<not> ends_with newline s"
    by (metis count_list_0_iff ends_with_def last_in_set)
  ultimately show ?thesis using assms(1) False
    by (auto simp: tail_of_def app k(2) a1_def count_list_append')
qed

lemma tail_of_run:
  assumes "scalar_text (w @ concat xs)" and "tail_of w a"
  shows "tail_of (w @ concat xs) (fold accumulator_append xs a)"
  using assms
proof (induction xs arbitrary: w a)
  case (Cons x xs)
  then have "scalar_text (w @ x)" by (auto simp: scalar_text_def)
  then have "tail_of (w @ x) (accumulator_append x a)" using Cons.prems(2) by (rule tail_of_append [rotated])
  then show ?case using Cons.IH [of "w @ x"] Cons.prems(1) by simp
qed simp

section \<open>The snapshot and the whole text\<close>

text \<open>Two cuts of texts that end alike give the same suffix.\<close>

lemma cut_unique:
  assumes "i \<le> length s" and "j \<le> length s" and "int (utf8_len (drop i s)) \<le> mb" and "int (utf8_len (drop j s)) \<le> mb"
    and "0 < i \<longrightarrow> int (utf8_len (drop (i - 1) s)) > mb" and "0 < j \<longrightarrow> int (utf8_len (drop (j - 1) s)) > mb"
  shows "i = j"
proof -
  have mono: "utf8_len (drop b s) \<le> utf8_len (drop a s)" if "a \<le> b" for a b
  proof -
    have "drop a s = take (b - a) (drop a s) @ drop b s" using that by (metis append_take_drop_id drop_drop le_add_diff_inverse2)
    then show ?thesis by (metis le_add2 utf8_len_simps(3))
  qed
  have "\<not> i < j" using mono [of i "j - 1"] assms(3,6) by (cases j) auto
  moreover have "\<not> j < i" using mono [of j "i - 1"] assms(4,5) by (cases i) auto
  ultimately show ?thesis by linarith
qed

lemma cut_of_suffix:
  assumes "scalar_text (q @ t)" and "0 \<le> mb" and "int (utf8_len t) > mb"
  shows "truncate_string_to_bytes_from_end (q @ t) mb = truncate_string_to_bytes_from_end t mb"
proof -
  have st: "scalar_text t" using assms(1) by (simp add: scalar_text_def)
  obtain i where i: "i \<le> length (q @ t)" "truncate_string_to_bytes_from_end (q @ t) mb = drop i (q @ t)"
    "int (utf8_len (drop i (q @ t))) \<le> mb" "0 < i \<longrightarrow> int (utf8_len (drop (i - 1) (q @ t))) > mb"
    using cut_from_end [OF assms(1,2)] by blast
  obtain j where j: "j \<le> length t" "truncate_string_to_bytes_from_end t mb = drop j t"
    "int (utf8_len (drop j t)) \<le> mb" "0 < j \<longrightarrow> int (utf8_len (drop (j - 1) t)) > mb"
    using cut_from_end [OF st assms(2)] by blast
  have "0 < j" using j(3) assms(3) by (cases j) auto
  then have "i = length q + j" using i j by (intro cut_unique [of i "q @ t" _ mb]) auto
  then show ?thesis using i j by simp
qed

lemma snapshot_same_lines:
  assumes "tail_of w a" and scalar: "scalar_text (w @ open_line)" and "newline \<notin> set open_line"
    and "0 \<le> ac_max_lines a" and "5 \<le> ac_max_bytes a"
    and "snapshot_text a @ open_line \<noteq> [] \<or> w @ open_line = []"
  shows "same_lines (truncate_tail (snapshot_text a @ open_line) (ac_max_lines a) (ac_max_bytes a))
    (truncate_tail (w @ open_line) (ac_max_lines a) (ac_max_bytes a))"
proof -
  let ?ml = "ac_max_lines a" and ?mb = "ac_max_bytes a" and ?o = open_line
  obtain pre where pre: "w = pre @ ac_tail a" "ac_starts_at_line_boundary a = (pre = [] \<or> last pre = newline)"
    "pre \<noteq> [] \<longrightarrow> int (utf8_len (ac_tail a)) + 3 \<ge> 2 * ?mb"
    using assms(1) by (auto simp: tail_of_def max_def split: if_splits)
  show ?thesis
  proof (cases "pre = []")
    case True
    then show ?thesis using pre by (simp add: snapshot_text_def)
  next
    case False
    have long: "int (utf8_len (ac_tail a)) > ?mb + 1" using pre(3) False assms(5) by simp
    have big: "\<not> (int (length (split_lines_for_counting (w @ ?o))) \<le> ?ml \<and> int (utf8_len (w @ ?o)) \<le> ?mb)"
      using long pre(1) by simp
    have nonempty: "snapshot_text a @ ?o \<noteq> []" using assms(6) False pre(1) by auto
    have trailing: "utf8_len s \<le> utf8_len (join_lines (split_lines_for_counting s)) + 1" for s
      using utf8_len_join_lines_of [of s] by (auto split: if_splits)
    consider (line) "last pre = newline" | (inside) "last pre \<noteq> newline" "newline \<notin> set (ac_tail a)"
      | (dropped) "last pre \<noteq> newline" "newline \<in> set (ac_tail a)" by blast
    then show ?thesis
    proof cases
      case line
      then obtain p where "pre = p @ [newline]" using False by (metis append_butlast_last_id)
      moreover have "snapshot_text a = ac_tail a" using pre(2) line by (simp add: snapshot_text_def)
      ultimately show ?thesis using nonempty trailing [of "ac_tail a @ ?o"] long assms(5) big
        by (intro tail_after_newline [of _ p]) (auto simp: pre(1))
    next
      case inside
      then have snap: "snapshot_text a = ac_tail a" using pre(2) by (simp add: snapshot_text_def)
      let ?t = "ac_tail a @ ?o" and ?q = "last (split_on newline pre)"
      have plain: "newline \<notin> set ?t" using inside assms(3) by simp
      have t: "?t \<noteq> []" "\<not> ends_with newline ?t" using nonempty snap plain
        by (auto simp: ends_with_def) (metis last_in_set plain Un_iff append_is_Nil_conv set_append)+
      have whole: "split_lines_for_counting (w @ ?o) = butlast (split_on newline pre) @ [?q @ ?t]"
        using t split_on_append_plain [OF plain, of pre] lines_open [of "pre @ ?t"] by (auto simp: pre(1) ends_with_def)
      have alone: "split_lines_for_counting ?t = [?t]" using t lines_open [of ?t] split_on_plain [OF plain] by simp
      have "set ?q \<subseteq> set pre" by (rule set_split_on [OF last_in_set]) simp
      then have "scalar_text (?q @ ?t)" using scalar pre(1) by (auto simp: scalar_text_def)
      then have cut: "truncate_string_to_bytes_from_end (?q @ ?t) ?mb = truncate_string_to_bytes_from_end ?t ?mb"
        using long assms(5) by (intro cut_of_suffix) auto
      have small: "\<not> (int (length (split_lines_for_counting ?t)) \<le> ?ml \<and> int (utf8_len ?t) \<le> ?mb)"
        using long by simp
      have "tail_loop ?ml ?mb [] 0 (rev (split_lines_for_counting (w @ ?o)))
          = tail_loop ?ml ?mb [] 0 (rev (split_lines_for_counting ?t))"
        using long cut by (simp add: whole alone)
      then show ?thesis using truncate_tail_truncated [OF big] truncate_tail_truncated [OF small]
        by (cases "tail_loop ?ml ?mb [] 0 (rev (split_lines_for_counting ?t))") (auto simp: same_lines_def snap)
    next
      case dropped
      define f r where "f = takeWhile (\<lambda>c. c \<noteq> newline) (ac_tail a)" and "r = tl (dropWhile (\<lambda>c. c \<noteq> newline) (ac_tail a))"
      have "dropWhile (\<lambda>c. c \<noteq> newline) (ac_tail a) = newline # r"
        using dropped(2) hd_dropWhile [of "\<lambda>c. c \<noteq> newline" "ac_tail a"]
        by (cases "dropWhile (\<lambda>c. c \<noteq> newline) (ac_tail a)") (auto simp: r_def)
      then have tail: "ac_tail a = f @ newline # r"
        unfolding f_def by (metis takeWhile_dropWhile_id)
      have snap: "snapshot_text a = r" using dropped pre(2) False by (simp add: snapshot_text_def r_def)
      have last: "last (split_on newline (pre @ f)) = last (split_on newline pre) @ f"
        by (subst split_on_append_plain) (auto simp: f_def dest: set_takeWhileD)
      show ?thesis unfolding snap
        using nonempty snap trailing [of "r @ ?o"] long assms(5) big
        by (intro tail_after_newline [of _ "pre @ f"]) (auto simp: pre(1) tail last)
    qed
  qed
qed

section \<open>Properties\<close>

lemma head_loop_from_start:
  assumes "head_loop mb 0 [] 0 xs = (kept, kb, by')" and "0 \<le> mb"
  shows "\<exists>k\<le>length xs. kept = take k xs \<and> kb = utf8_len (join_lines kept) \<and> int kb \<le> mb
    \<and> (k < length xs \<longrightarrow> int (utf8_len (join_lines (take (Suc k) xs))) > mb)"
  using head_loop_spec [of mb "[]" 0 xs kept kb by'] assms by (auto simp: join_lines_def)

lemma head_result:
  assumes "0 \<le> ml" and "0 \<le> mb" and "c \<noteq> []"
    and "\<not> (int (length (split_lines_for_counting c)) \<le> ml \<and> int (utf8_len c) \<le> mb)"
  shows "\<exists>r n. truncate_head c ml mb = Inr r \<and> tr_truncated r \<and> tr_output_lines r = n
    \<and> tr_content r = join_lines (take n (split_lines_for_counting c)) \<and> n \<le> length (split_lines_for_counting c) \<and> int n \<le> ml
    \<and> tr_output_bytes r = utf8_len (tr_content r) \<and> int (utf8_len (tr_content r)) \<le> mb
    \<and> (int n = min ml (int (length (split_lines_for_counting c)))
       \<or> int (utf8_len (join_lines (take (Suc n) (split_lines_for_counting c)))) > mb)"
proof -
  let ?ls = "split_lines_for_counting c"
  obtain l ls where ls: "?ls = l # ls" using assms(3) by (cases ?ls) auto
  have small: "\<not> (int (length (l # ls)) \<le> ml \<and> int (utf8_len c) \<le> mb)" using assms(4) ls by simp
  show ?thesis
  proof (cases "int (utf8_len l) > mb")
    case True
    then show ?thesis using small assms(1,2) unfolding truncate_head_def Let_def ls if_not_P [OF small]
      by (simp add: join_lines_def)
  next
    case False
    let ?xs = "take (nat ml) (l # ls)"
    obtain kept kb by' where loop: "head_loop mb 0 [] 0 ?xs = (kept, kb, by')" by (metis prod.exhaust)
    obtain k where k: "k \<le> length ?xs" "kept = take k ?xs" "kb = utf8_len (join_lines kept)" "int kb \<le> mb"
      "k < length ?xs \<longrightarrow> int (utf8_len (join_lines (take (Suc k) ?xs))) > mb"
      using head_loop_from_start [OF loop assms(2)] by blast
    have n: "k \<le> length (l # ls)" "int k \<le> ml" "length kept = k" "kept = take k (l # ls)" using k(1,2) assms(1) by auto
    have "k < length ?xs \<Longrightarrow> take (Suc k) ?xs = take (Suc k) (l # ls)"
      by (simp add: min_absorb1 Suc_leI del: take_Suc_Cons)
    moreover have "k = length ?xs \<Longrightarrow> int k = min ml (int (length (l # ls)))" using assms(1) by simp
    ultimately have "int k = min ml (int (length (l # ls))) \<or> int (utf8_len (join_lines (take (Suc k) (l # ls)))) > mb"
      using k(1,5) by (metis le_neq_implies_less)
    moreover have "slice_to ml (l # ls) = ?xs" using assms(1) by (simp add: slice_to_def)
    ultimately show ?thesis using False n k(3,4) loop unfolding truncate_head_def Let_def ls if_not_P [OF small]
      by (auto simp del: take_Suc_Cons)
  qed
qed

text \<open>
  C23: \<open>truncate_head\<close> keeps the longest prefix of whole lines within both limits. With limits that
  are not negative it returns; a text within both limits comes back unchanged, and otherwise
  the content is the first \<open>tr_output_lines\<close> lines, within \<open>max_lines\<close> and \<open>max_bytes\<close>, and one line more
  would be over a limit or past the end.
\<close>

theorem truncate_head_keeps_lines:
  assumes "0 \<le> max_lines" and "0 \<le> max_bytes"
  shows "\<exists>r. truncate_head content max_lines max_bytes = Inr r
    \<and> int (tr_output_lines r) \<le> max_lines \<and> int (utf8_len (tr_content r)) \<le> max_bytes
    \<and> tr_output_bytes r = utf8_len (tr_content r)
    \<and> (if int (length (split_lines_for_counting content)) \<le> max_lines \<and> int (utf8_len content) \<le> max_bytes
       then \<not> tr_truncated r \<and> tr_content r = content
       else tr_truncated r \<and> tr_content r = join_lines (take (tr_output_lines r) (split_lines_for_counting content))
         \<and> (int (tr_output_lines r) = min max_lines (int (length (split_lines_for_counting content)))
            \<or> int (utf8_len (join_lines (take (Suc (tr_output_lines r)) (split_lines_for_counting content)))) > max_bytes))"
proof (cases "int (length (split_lines_for_counting content)) \<le> max_lines \<and> int (utf8_len content) \<le> max_bytes")
  case True
  then show ?thesis by (simp add: truncate_head_def untruncated_def Let_def)
next
  case False
  then have "content \<noteq> []" using assms by (auto simp: split_lines_for_counting_def)
  from head_result [OF assms this False] show ?thesis unfolding if_not_P [OF False] by blast
qed

theorem truncate_head_keeps_lines_witness:
  "case truncate_head (ascii ''ab'' @ [10] @ ascii ''cd'' @ [10] @ ascii ''ef'') 2 4 of
     Inr r \<Rightarrow> tr_content r = ascii ''ab'' \<and> int (tr_output_lines r) \<le> 2 | Inl _ \<Rightarrow> False"
proof -
  have "case truncate_head (ascii ''ab'' @ [10] @ ascii ''cd'' @ [10] @ ascii ''ef'') 2 4 of
     Inr r \<Rightarrow> tr_content r = ascii ''ab'' | Inl _ \<Rightarrow> False" by code_simp
  then show ?thesis
    using truncate_head_keeps_lines [of 2 4 "ascii ''ab'' @ [10] @ ascii ''cd'' @ [10] @ ascii ''ef''"]
    by (auto split: sum.splits)
qed

lemma tail_result:
  assumes "0 \<le> ml" and "0 \<le> mb" and "scalar_text c" and "c \<noteq> []"
    and big: "\<not> (int (length (split_lines_for_counting c)) \<le> ml \<and> int (utf8_len c) \<le> mb)"
  shows "\<exists>n. tr_output_lines (truncate_tail c ml mb) = n \<and> int n \<le> ml \<and> tr_truncated (truncate_tail c ml mb)
    \<and> int (utf8_len (tr_content (truncate_tail c ml mb))) \<le> mb
    \<and> (if tr_last_line_partial (truncate_tail c ml mb)
       then \<exists>k. tr_content (truncate_tail c ml mb) = drop k (last (split_lines_for_counting c))
         \<and> 0 < k \<and> int (utf8_len (drop (k - 1) (last (split_lines_for_counting c)))) > mb
       else tr_content (truncate_tail c ml mb) = join_lines (drop (length (split_lines_for_counting c) - n) (split_lines_for_counting c))
         \<and> (int n = min ml (int (length (split_lines_for_counting c)))
            \<or> int (utf8_len (join_lines (drop (length (split_lines_for_counting c) - Suc n) (split_lines_for_counting c)))) > mb))"
proof -
  let ?ls = "split_lines_for_counting c"
  obtain x xs where ls: "?ls = xs @ [x]" using assms(4) by (cases ?ls rule: rev_cases) auto
  show ?thesis
  proof (cases "0 < ml \<and> int (utf8_len x) > mb")
    case True
    have "set x \<subseteq> set c"
    proof (cases c rule: ends_with_cases)
      case (2 t)
      then have "x \<in> set (split_on newline t)" using ls lines_snoc_newline [of t] by simp
      then show ?thesis using set_split_on 2 by fastforce
    next
      case 3
      then have "x \<in> set (split_on newline c)" using ls lines_open [of c] by simp
      then show ?thesis by (rule set_split_on)
    qed (use assms(4) in simp)
    then have "scalar_text x" using assms(3) by (auto simp: scalar_text_def)
    then obtain k where k: "truncate_string_to_bytes_from_end x mb = drop k x" "int (utf8_len (drop k x)) \<le> mb"
      "0 < k \<longrightarrow> int (utf8_len (drop (k - 1) x)) > mb" using cut_from_end [OF _ assms(2)] by blast
    have "0 < k" using k(2) True by (cases k) auto
    have "tail_loop ml mb [] 0 (rev ?ls) = ([drop k x], utf8_len (drop k x), ByBytes, True)"
      using True k(1) by (simp add: ls Let_def)
    from truncate_tail_truncated [OF big this] show ?thesis
      using k \<open>0 < k\<close> True by (intro exI [of _ 1]) (auto simp: ls join_lines_def)
  next
    case False
    obtain kept kb by' partial where loop: "tail_loop ml mb [] 0 (rev ?ls) = (kept, kb, by', partial)" by (metis prod.exhaust)
    have zero: "(0::nat) = utf8_len (join_lines [])" and mb: "int 0 \<le> mb" and len: "int (length ([] :: utext list)) \<le> ml"
      and first: "\<not> ([] = ([] :: utext list) \<and> rev ?ls \<noteq> [] \<and> 0 < ml \<and> int (utf8_len (hd (rev ?ls))) > mb)"
      using assms(1,2) False ls by (simp_all add: join_lines_def)
    obtain k where k: "k \<le> length (rev ?ls)" "kept = rev (take k (rev ?ls)) @ []" "kb = utf8_len (join_lines kept)" "int kb \<le> mb"
      "int (length kept) \<le> ml" "\<not> partial"
      "k < length (rev ?ls) \<longrightarrow> int (length kept) = ml \<or> int (utf8_len (join_lines (rev ?ls ! k # kept))) > mb"
      using tail_loop_spec [OF loop zero mb len first] by blast
    have kept: "kept = drop (length ?ls - k) ?ls" "length kept = k" using k(1,2) by (auto simp: take_rev)
    have "k < length ?ls \<Longrightarrow> drop (length ?ls - Suc k) ?ls = rev ?ls ! k # kept"
      using kept(1) Cons_nth_drop_Suc [of "length ?ls - Suc k" ?ls] by (simp add: rev_nth Suc_diff_Suc)
    then have "int k = min ml (int (length ?ls)) \<or> int (utf8_len (join_lines (drop (length ?ls - Suc k) ?ls))) > mb"
      using k(1,5,7) kept(2) by (cases "k < length ?ls") auto
    with truncate_tail_truncated [OF big loop] show ?thesis using k kept by auto
  qed
qed

text \<open>
  C24: \<open>truncate_tail\<close> keeps the end of a text without lone surrogates within both limits. A text
  within both limits comes back unchanged. Otherwise the content is the last \<open>tr_output_lines\<close> lines and
  one line more would be over a limit or before the start; only when the last line alone is
  over \<open>max_bytes\<close> is it cut, at a character boundary, to its longest suffix that fits.
\<close>

theorem truncate_tail_keeps_lines:
  assumes "0 \<le> max_lines" and "0 \<le> max_bytes" and "scalar_text content"
  defines "r \<equiv> truncate_tail content max_lines max_bytes" and "ls \<equiv> split_lines_for_counting content"
  shows "int (tr_output_lines r) \<le> max_lines \<and> int (utf8_len (tr_content r)) \<le> max_bytes
    \<and> (if int (length ls) \<le> max_lines \<and> int (utf8_len content) \<le> max_bytes
       then \<not> tr_truncated r \<and> tr_content r = content
       else tr_truncated r
         \<and> (if tr_last_line_partial r
            then \<exists>k>0. tr_content r = drop k (last ls) \<and> int (utf8_len (drop (k - 1) (last ls))) > max_bytes
            else tr_content r = join_lines (drop (length ls - tr_output_lines r) ls)
              \<and> (int (tr_output_lines r) = min max_lines (int (length ls))
                 \<or> int (utf8_len (join_lines (drop (length ls - Suc (tr_output_lines r)) ls))) > max_bytes)))"
proof (cases "int (length ls) \<le> max_lines \<and> int (utf8_len content) \<le> max_bytes")
  case True
  then show ?thesis using truncate_tail_fits [of content max_lines max_bytes] by (simp add: r_def ls_def untruncated_def)
next
  case False
  then have "content \<noteq> []" using assms(1,2) by (auto simp: ls_def split_lines_for_counting_def)
  from tail_result [OF assms(1-3) this False [unfolded ls_def]] show ?thesis
    unfolding if_not_P [OF False] unfolding r_def ls_def by auto
qed

theorem truncate_tail_keeps_lines_witness:
  "tr_content (truncate_tail (ascii ''ab'' @ [10] @ ascii ''cd'') 5 4) = ascii ''cd''
    \<and> int (utf8_len (tr_content (truncate_tail (ascii ''ab'' @ [10] @ ascii ''cd'') 5 4))) \<le> 4"
proof -
  have "scalar_text (ascii ''ab'' @ [10] @ ascii ''cd'')" by (simp add: scalar_text_def ascii_def is_surrogate_def)
  moreover have "tr_content (truncate_tail (ascii ''ab'' @ [10] @ ascii ''cd'') 5 4) = ascii ''cd''" by code_simp
  ultimately show ?thesis using truncate_tail_keeps_lines [of 5 4 "ascii ''ab'' @ [10] @ ascii ''cd''"] by simp
qed

definition accumulate :: "int \<Rightarrow> int \<Rightarrow> utext list \<Rightarrow> accumulator" where
  "accumulate ml mb chunks = fold accumulator_append chunks (new_accumulator ml mb)"

lemma accumulate_limits: "ac_max_lines (accumulate ml mb xs) = ml \<and> ac_max_bytes (accumulate ml mb xs) = mb"
proof -
  have "ac_max_lines (accumulator_append s a) = ac_max_lines a \<and> ac_max_bytes (accumulator_append s a) = ac_max_bytes a" for s a
    by (simp add: accumulator_append_def trim_tail_def Let_def)
  then have "ac_max_lines (fold accumulator_append xs a) = ac_max_lines a \<and> ac_max_bytes (fold accumulator_append xs a) = ac_max_bytes a" for a
    by (induction xs arbitrary: a) simp_all
  then show ?thesis by (simp add: accumulate_def new_accumulator_def)
qed

lemma whole_text_totals:
  assumes "tail_of w a" and "newline \<notin> set open_line"
  shows "ac_completed_lines a + (if ac_has_open_line a \<or> open_line \<noteq> [] then 1 else 0)
      = length (split_lines_for_counting (w @ open_line))"
proof -
  have facts: "ac_completed_lines a = count_list w newline" "ac_has_open_line a = (w \<noteq> [] \<and> \<not> ends_with newline w)"
    using assms(1) by (simp_all add: tail_of_def)
  show ?thesis
  proof (cases "open_line = []")
    case True
    then show ?thesis by (auto simp: facts length_lines)
  next
    case False
    then have "last (w @ open_line) \<noteq> newline" using assms(2) last_in_set by fastforce
    moreover have "count_list open_line newline = 0" using assms(2) by (simp add: count_list_0_iff)
    ultimately show ?thesis using False by (simp add: facts length_lines count_list_append' ends_with_def)
  qed
qed

text \<open>
  C25: the rolling tail answers as the whole output would. However a text without lone
  surrogates is split into appended chunks, the snapshot of the accumulator has the totals
  and the truncation flag of \<open>truncate_tail\<close> on the whole text with the open line, and shows the
  same lines (up to the newline that ends the last of them), with a byte limit of 5 or more
  and provided the dropped part of a line did not take everything with it.
\<close>

theorem accumulator_matches_whole:
  assumes "scalar_text (concat chunks @ open_line)" and "newline \<notin> set open_line" and "0 \<le> max_lines" and "5 \<le> max_bytes"
    and "snapshot_text (accumulate max_lines max_bytes chunks) @ open_line \<noteq> [] \<or> concat chunks @ open_line = []"
  defines "r \<equiv> accumulator_snapshot (accumulate max_lines max_bytes chunks) open_line"
    and "whole \<equiv> truncate_tail (concat chunks @ open_line) max_lines max_bytes"
  shows "same_lines r whole \<and> tr_truncated r = tr_truncated whole \<and> tr_total_lines r = tr_total_lines whole
    \<and> tr_total_bytes r = tr_total_bytes whole"
proof -
  define a where "a = accumulate max_lines max_bytes chunks"
  have w: "tail_of (concat chunks) a"
    using tail_of_run [OF _ tail_of_new] assms(1) unfolding a_def accumulate_def by (fastforce simp: scalar_text_def)
  have limits: "ac_max_lines a = max_lines" "ac_max_bytes a = max_bytes" using accumulate_limits by (simp_all add: a_def)
  let ?tail = "truncate_tail (snapshot_text a @ open_line) max_lines max_bytes"
  have "same_lines ?tail whole"
    using snapshot_same_lines [OF w assms(1,2)] assms(3-5) by (simp add: limits whole_def flip: a_def)
  moreover have "tr_output_lines r = tr_output_lines ?tail" "tr_last_line_partial r = tr_last_line_partial ?tail"
    "tr_content r = tr_content ?tail" by (simp_all add: r_def accumulator_snapshot_def Let_def limits flip: a_def)
  moreover have totals: "tr_total_lines r = length (split_lines_for_counting (concat chunks @ open_line))"
    "tr_total_bytes r = utf8_len (concat chunks @ open_line)"
    "tr_truncated r = (int (tr_total_lines r) > max_lines \<or> int (tr_total_bytes r) > max_bytes)"
    using whole_text_totals [OF w assms(2)] w
    by (simp_all add: r_def accumulator_snapshot_def Let_def limits tail_of_def flip: a_def)
  moreover have "tr_total_lines whole = length (split_lines_for_counting (concat chunks @ open_line))
      \<and> tr_total_bytes whole = utf8_len (concat chunks @ open_line)
      \<and> tr_truncated whole = (\<not> (int (tr_total_lines whole) \<le> max_lines \<and> int (tr_total_bytes whole) \<le> max_bytes))"
    by (auto simp: whole_def truncate_tail_def Let_def untruncated_def split: prod.splits)
  ultimately show ?thesis by (auto simp: same_lines_def)
qed

theorem accumulator_matches_whole_witness:
  "tr_total_bytes (accumulator_snapshot (accumulate 2 5 [ascii ''abcdefghij'', [10], ascii ''klmnopqrstu'', [10], ascii ''vw'']) []) = 25"
proof -
  have "scalar_text (concat [ascii ''abcdefghij'', [10], ascii ''klmnopqrstu'', [10], ascii ''vw''] @ [])"
    by (simp add: scalar_text_def ascii_def is_surrogate_def)
  moreover have "snapshot_text (accumulate 2 5 [ascii ''abcdefghij'', [10], ascii ''klmnopqrstu'', [10], ascii ''vw'']) = ascii ''vw''"
    by code_simp
  ultimately show ?thesis
    using accumulator_matches_whole [of "[ascii ''abcdefghij'', [10], ascii ''klmnopqrstu'', [10], ascii ''vw'']" "[]" 2 5]
    by (simp add: ascii_def truncate_tail_def Let_def untruncated_def utf8_char_def split: prod.splits)
qed

text \<open>A last line over the byte limit is shown by its end.\<close>

lemma tail_of_long_line:
  assumes "1 \<le> ml" and "4 \<le> mb" and "scalar_text x" and "int (utf8_len x) > mb" and "split_lines_for_counting c = xs @ [x]"
    and "int (utf8_len c) > mb"
  shows "tr_content (truncate_tail c ml mb) = truncate_string_to_bytes_from_end x mb"
    and "truncate_string_to_bytes_from_end x mb \<noteq> []"
proof -
  have "tail_loop ml mb [] 0 (rev (split_lines_for_counting c))
      = ([truncate_string_to_bytes_from_end x mb], utf8_len (truncate_string_to_bytes_from_end x mb), ByBytes, True)"
    using assms(1,4,5) by (simp add: Let_def)
  from truncate_tail_truncated [OF _ this] show "tr_content (truncate_tail c ml mb) = truncate_string_to_bytes_from_end x mb"
    using assms(6) by (simp add: join_lines_def)
  obtain k where k: "k \<le> length x" "truncate_string_to_bytes_from_end x mb = drop k x" "int (utf8_len (drop k x)) \<le> mb"
    "0 < k \<longrightarrow> int (utf8_len (drop (k - 1) x)) > mb"
    using cut_from_end [OF assms(3), of mb] assms(2) by auto
  have pos: "0 < k" using k(3) assms(4) by (cases k) auto
  then have "drop (k - 1) x = x ! (k - 1) # drop k x" using k(1) Cons_nth_drop_Suc [of "k - 1" x] by simp
  then have "int (utf8_len (drop k x)) + 4 > mb" using k(4) pos utf8_char_length(2) [of "x ! (k - 1)"] by simp
  then have "0 < utf8_len (drop k x)" using assms(2) by linarith
  then show "truncate_string_to_bytes_from_end x mb \<noteq> []" by (auto simp: k(2))
qed

text \<open>The state after a chunk that ends a line longer than two rolling tails.\<close>

lemma long_line_snapshot:
  assumes "tail_of w a" and "scalar_text (w @ l)" and "newline \<notin> set l" and "1 \<le> ac_max_bytes a"
    and "4 * ac_max_bytes a \<le> int (utf8_len l)"
  shows "snapshot_text (accumulator_append (l @ [newline]) a) = []"
proof -
  let ?s = "l @ [newline]"
  define a1 where "a1 = a\<lparr>ac_total_bytes := ac_total_bytes a + utf8_len ?s, ac_tail := ac_tail a @ ?s,
      ac_tail_bytes := ac_tail_bytes a + utf8_len ?s\<rparr>"
  have bytes: "ac_tail_bytes a = utf8_len (ac_tail a)" and roll: "ac_max_rolling a1 = 2 * ac_max_bytes a"
    using assms(1,4) by (auto simp: tail_of_def a1_def)
  obtain pre where w: "w = pre @ ac_tail a" using assms(1) by (auto simp: tail_of_def)
  have scalar: "scalar_text (ac_tail a1)" using assms(2) w by (auto simp: scalar_text_def a1_def is_surrogate_def)
  have "1 \<le> ac_max_rolling a1" "ac_tail_bytes a1 = utf8_len (ac_tail a1)" using roll assms(4) bytes by (simp_all add: a1_def)
  from trim_tail_keeps [OF scalar this] obtain k where
    trim: "trim_tail a1 = a1\<lparr>ac_starts_at_line_boundary := (if k = 0 then ac_starts_at_line_boundary a1 else ac_tail a1 ! (k - 1) = newline),
      ac_tail := drop k (ac_tail a1), ac_tail_bytes := utf8_len (drop k (ac_tail a1))\<rparr>"
    and k: "k \<le> length (ac_tail a1)" "int (utf8_len (drop k (ac_tail a1))) \<le> ac_max_rolling a1" by blast
  have tail: "ac_tail a1 = ac_tail a @ l @ [newline]" by (simp add: a1_def)
  have "int (ac_tail_bytes a1) > ac_max_rolling a1 * 2" using assms(5) roll by (simp add: a1_def)
  then have "accumulator_append ?s a = (if count_list ?s newline = 0 then (trim_tail a1)\<lparr>ac_has_open_line := True\<rparr>
      else (trim_tail a1)\<lparr>ac_completed_lines := ac_completed_lines (trim_tail a1) + count_list ?s newline, ac_has_open_line := \<not> ends_with newline ?s\<rparr>)"
    by (simp only: accumulator_append_def Let_def a1_def [symmetric] if_True) simp
  then have snap: "snapshot_text (accumulator_append ?s a) = snapshot_text (trim_tail a1)" by (simp add: snapshot_text_def)
  have far: "length (ac_tail a) < k"
  proof (rule ccontr)
    assume "\<not> length (ac_tail a) < k"
    then have "utf8_len l \<le> utf8_len (drop k (ac_tail a1))" by (simp add: tail)
    then show False using k(2) roll assms(4,5) by linarith
  qed
  then obtain j where j: "k = length (ac_tail a) + Suc j" using less_imp_Suc_add by fastforce
  have "j \<le> length l" using k(1) j by (simp add: tail)
  show ?thesis
  proof (cases "j = length l")
    case True
    then have "drop k (ac_tail a1) = []" using j by (simp add: tail)
    then show ?thesis unfolding snap trim by (simp add: snapshot_text_def)
  next
    case False
    then have j': "j < length l" using \<open>j \<le> length l\<close> by simp
    then have "ac_tail a1 ! (k - 1) = l ! j" "drop k (ac_tail a1) = drop (Suc j) l @ [newline]"
      using j by (simp_all add: tail nth_append)
    moreover have "l ! j \<noteq> newline" using assms(3) j' nth_mem by metis
    moreover have "dropWhile (\<lambda>c. c \<noteq> newline) (drop (Suc j) l @ [newline]) = [newline]"
      using assms(3) by (subst dropWhile_append2) (auto dest: in_set_dropD)
    ultimately show ?thesis unfolding snap trim using j by (simp add: snapshot_text_def)
  qed
qed

text \<open>
  C26: an output can be lost from the snapshot. Whatever was appended before, append a chunk
  that ends a line of at least four times \<open>max_bytes\<close>: the tail is trimmed to the end of that
  line, its only newline is its last character, and dropping the unfinished first line
  leaves nothing. The snapshot is empty, although it says that the text was truncated and
  \<open>truncate_tail\<close> of the same text shows the end of the line.
\<close>

theorem accumulator_loses_long_line:
  assumes "scalar_text (concat chunks @ l)" and "newline \<notin> set l" and "1 \<le> max_lines" and "4 \<le> max_bytes"
    and "4 * max_bytes \<le> int (utf8_len l)"
  defines "r \<equiv> accumulator_snapshot (accumulate max_lines max_bytes (chunks @ [l @ [newline]])) []"
    and "whole \<equiv> truncate_tail (concat (chunks @ [l @ [newline]])) max_lines max_bytes"
  shows "tr_content r = [] \<and> tr_truncated r \<and> tr_truncated whole \<and> tr_content whole \<noteq> []"
proof -
  define a where "a = accumulate max_lines max_bytes chunks"
  have w: "tail_of (concat chunks) a"
    using tail_of_run [OF _ tail_of_new] assms(1) unfolding a_def accumulate_def by (fastforce simp: scalar_text_def)
  have mb: "ac_max_bytes a = max_bytes" using accumulate_limits by (simp add: a_def)
  define a' where "a' = accumulator_append (l @ [newline]) a"
  have acc: "accumulate max_lines max_bytes (chunks @ [l @ [newline]]) = a'" by (simp add: a'_def a_def accumulate_def)
  have empty: "snapshot_text a' = []"
    unfolding a'_def by (rule long_line_snapshot [OF w assms(1,2)]) (use assms(4,5) mb in simp_all)
  have scalar: "scalar_text (concat chunks @ l @ [newline])" using assms(1) by (auto simp: scalar_text_def is_surrogate_def)
  have w': "tail_of (concat chunks @ l @ [newline]) a'" unfolding a'_def using tail_of_append [OF w scalar] .
  have limits: "ac_max_lines a' = max_lines" "ac_max_bytes a' = max_bytes"
    using accumulate_limits [of max_lines max_bytes "chunks @ [l @ [newline]]"] acc by simp_all
  have "tr_content (truncate_tail [] max_lines max_bytes) = []"
    using assms(3,4) by (simp add: truncate_tail_def split_lines_for_counting_def untruncated_def Let_def)
  moreover have "ac_total_bytes a' = utf8_len (concat chunks @ l @ [newline])" using w' by (simp add: tail_of_def)
  ultimately have r: "tr_content r = []" "tr_truncated r"
    using assms(4,5) by (simp_all add: r_def acc accumulator_snapshot_def Let_def empty limits)
  let ?c = "concat chunks @ l @ [newline]"
  have "split_on newline (concat chunks @ l) = butlast (split_on newline (concat chunks)) @ [last (split_on newline (concat chunks)) @ l]"
    using split_on_append_plain [OF assms(2)] by simp
  then have lines: "split_lines_for_counting ?c = butlast (split_on newline (concat chunks)) @ [last (split_on newline (concat chunks)) @ l]"
    using lines_snoc_newline [of "concat chunks @ l"] by simp
  have "set (last (split_on newline (concat chunks))) \<subseteq> set (concat chunks)" by (rule set_split_on [of _ newline]) simp
  then have line: "scalar_text (last (split_on newline (concat chunks)) @ l)" using assms(1) by (auto simp: scalar_text_def)
  have big: "int (utf8_len (last (split_on newline (concat chunks)) @ l)) > max_bytes" "int (utf8_len ?c) > max_bytes"
    using assms(4,5) by simp_all
  have "tr_content whole \<noteq> []" using tail_of_long_line [OF assms(3,4) line big(1) lines big(2)] by (simp add: whole_def)
  moreover have "tr_truncated whole" using big(2) by (simp add: whole_def truncate_tail_def Let_def split: prod.splits)
  ultimately show ?thesis using r by simp
qed

theorem accumulator_loses_long_line_witness:
  "tr_content (accumulator_snapshot (accumulate 10 6 ([ascii ''ok''] @ [replicate 30 97 @ [newline]])) []) = []
   \<and> tr_content (truncate_tail (concat ([ascii ''ok''] @ [replicate 30 97 @ [newline]])) 10 6) \<noteq> []"
proof -
  have "utf8_len (replicate 30 97) = 30" by code_simp
  then show ?thesis using accumulator_loses_long_line [of "[ascii ''ok'']" "replicate 30 97" 10 6]
    by (simp add: scalar_text_def ascii_def is_surrogate_def)
qed

text \<open>What decoding with \<open>replace\<close> makes of a character encoded with \<open>surrogatepass\<close>.\<close>

definition replaced_char :: "nat \<Rightarrow> utext" where
  "replaced_char c = (if is_surrogate c then [0xFFFD, 0xFFFD, 0xFFFD] else [c])"

lemma decode_surrogate:
  assumes "is_surrogate c"
  shows "decode_more replace_handler [] (utf8_char c) = ([0xFFFD, 0xFFFD, 0xFFFD], [])"
proof -
  have c: "0xD800 \<le> c" "c \<le> 0xDFFF" using assms by (auto simp: is_surrogate_def)
  then have "c div 4096 = 13" by (intro div_nat_eqI) simp_all
  moreover have "c div 64 mod 64 \<ge> 32"
  proof -
    have "864 \<le> c div 64" "c div 64 \<le> 895" using div_le_mono [OF c(1), of 64] div_le_mono [OF c(2), of 64] by simp_all
    then have "c div 64 - 832 < 64" "c div 64 = c div 64 - 832 + 13 * 64" by linarith+
    then have "c div 64 mod 64 = c div 64 - 832" by (metis mod_less mod_mult_self1)
    then show ?thesis using \<open>864 \<le> c div 64\<close> by linarith
  qed
  moreover have "c div 64 mod 64 < 64" "c mod 64 < 64" by simp_all
  ultimately obtain b2 b3 where u: "utf8_char c = [0xED, b2, b3]" "0xA0 \<le> b2" "b2 < 0xC0" "0x80 \<le> b3" "b3 < 0xC0"
    using c by (simp add: utf8_char_def)
  have one: "decode_byte replace_handler [] 0xED = ([], [0xED])" by (simp add: decode_byte_def first_byte_def)
  have two: "decode_byte replace_handler [0xED] b2 = ([], [0xED, b2])" using u by (simp add: decode_byte_def truncated_surrogate_def)
  have three: "decode_byte replace_handler [0xED, b2] b3 = ([0xFFFD, 0xFFFD, 0xFFFD], [])"
    using u by (simp add: decode_byte_def truncated_surrogate_def first_byte_def decode_flush_def replace_handler_def)
  show ?thesis by (simp add: u(1) one two three)
qed

lemma decode_replaced:
  assumes "\<forall>c\<in>set s. c < 0x110000"
  shows "decode_all replace_handler (encode_surrogatepass s) = concat (map replaced_char s)"
proof -
  have char: "decode_more replace_handler [] (utf8_char c) = (replaced_char c, [])" if "c < 0x110000" for c
    using that decode_surrogate decode_utf8_char by (simp add: replaced_char_def)
  have "decode_more replace_handler [] (encode_surrogatepass s) = (concat (map replaced_char s), [])"
    using assms by (induction s) (auto simp: decode_more_append char)
  then show ?thesis by (simp add: decode_all_def decode_flush_def)
qed

lemma utf8_len_replaced:
  "utf8_len (concat (map replaced_char s)) = utf8_len s + 6 * length (filter is_surrogate s)"
proof (induction s)
  case (Cons c s)
  have "is_surrogate c \<Longrightarrow> length (utf8_char c) = 3" by (auto simp: is_surrogate_def utf8_char_def)
  moreover have "length (utf8_char 0xFFFD) = 3" by (simp add: utf8_char_def)
  ultimately show ?case using Cons by (simp add: replaced_char_def)
qed simp

text \<open>
  C27: what cutting a line to its end does with lone surrogates. Any line over the limit loses
  whole characters from its start, as few as possible, to fit; but the rest, encoded with
  \<open>surrogatepass\<close>, is decoded with \<open>replace\<close>, which turns each of the three bytes of a surrogate
  into U+FFFD. So each surrogate that is kept adds six bytes to the result, and the result
  can exceed the limit.
\<close>

theorem tail_surrogates_exceed_limit:
  assumes "\<forall>c\<in>set s. c < 0x110000" and "0 \<le> max_bytes" and "max_bytes < int (utf8_len s)"
  shows "\<exists>k. 0 < k \<and> k \<le> length s \<and> truncate_string_to_bytes_from_end s max_bytes = concat (map replaced_char (drop k s))
    \<and> int (utf8_len (drop k s)) \<le> max_bytes \<and> int (utf8_len (drop (k - 1) s)) > max_bytes
    \<and> utf8_len (truncate_string_to_bytes_from_end s max_bytes) = utf8_len (drop k s) + 6 * length (filter is_surrogate (drop k s))"
proof -
  let ?i = "nat (int (utf8_len s) - max_bytes)" and ?data = "encode_surrogatepass s"
  have i: "?i \<le> utf8_len s" "int ?i = int (utf8_len s) - max_bytes" "0 < ?i" using assms(2,3) by auto
  have eq: "skip_continuation ?data ?i = ?i + length (takeWhile is_continuation (drop ?i ?data))"
    using i(1) by (intro skip_continuation_eq [OF encode_is_bytes [OF assms(1)]]) (simp add: utf8_len_def)
  obtain k where k: "k \<le> length s" "skip_continuation ?data ?i = utf8_len (take k s)"
    "0 < k \<longrightarrow> utf8_len (take (k - 1) s) < ?i" using utf8_boundary [OF i(1)] eq by auto
  have le: "?i \<le> utf8_len (take k s)" using eq k(2) by linarith
  have pos: "0 < k" using le i(3) by (cases k) auto
  have "?data = encode_surrogatepass (take k s) @ encode_surrogatepass (drop k s)"
    by (metis append_take_drop_id encode_surrogatepass_simps(3))
  then have "drop (utf8_len (take k s)) ?data = encode_surrogatepass (drop k s)" by (simp add: utf8_len_def)
  moreover have "\<forall>c\<in>set (drop k s). c < 0x110000" using assms(1) by (auto dest: in_set_dropD)
  ultimately have "truncate_string_to_bytes_from_end s max_bytes = concat (map replaced_char (drop k s))"
    using assms(3) k(2) decode_replaced by (simp add: truncate_string_to_bytes_from_end_def utf8_len_def [symmetric] Let_def)
  moreover have "int (utf8_len (drop k s)) \<le> max_bytes" using le i assms(2) unfolding utf8_len_drop by linarith
  moreover have "int (utf8_len (drop (k - 1) s)) > max_bytes" using k(3) pos i assms(3) unfolding utf8_len_drop by linarith
  ultimately show ?thesis using k(1) pos utf8_len_replaced by (intro exI [of _ k]) simp
qed

theorem tail_surrogates_exceed_limit_witness:
  "utf8_len (truncate_string_to_bytes_from_end [0xD800, 0xD801] 3) = 9"
proof -
  have len: "utf8_len [0xD800, 0xD801] = 6" by (simp add: utf8_char_def)
  obtain k where k: "0 < k" "k \<le> 2" "int (utf8_len (drop k [0xD800, 0xD801])) \<le> 3" "int (utf8_len (drop (k - 1) [0xD800, 0xD801])) > 3"
    "utf8_len (truncate_string_to_bytes_from_end [0xD800, 0xD801] 3)
      = utf8_len (drop k [0xD800, 0xD801]) + 6 * length (filter is_surrogate (drop k [0xD800, 0xD801]))"
    using tail_surrogates_exceed_limit [of "[0xD800, 0xD801]" 3] len by auto
  then have "k = 1 \<or> k = 2" by linarith
  then have "k = 1" using k(4) by (auto simp: utf8_char_def)
  then show ?thesis using k(5) by (simp add: utf8_char_def is_surrogate_def)
qed

text \<open>
  C28: file text round-trips. Bytes that \<open>decode_file\<close> turned into text are written back
  unchanged by \<open>encode_file\<close>, invalid UTF-8 included, and the view shown to the model has one
  character for each character of the text.
\<close>

theorem file_text_roundtrip:
  assumes "is_bytes data"
  shows "encode_file (decode_file data) = Inr data \<and> length (shown (decode_file data)) = length (decode_file data)
    \<and> (\<forall>c\<in>set (shown (decode_file data)). \<not> (0xDC80 \<le> c \<and> c < 0xDD00))"
  using encode_decode_file [OF assms] by (auto simp: shown_def)

theorem file_text_roundtrip_witness:
  "is_bytes [0x61, 0xC3, 0xA9, 0xFF, 0xE2, 0x82] \<and> encode_file (decode_file [0x61, 0xC3, 0xA9, 0xFF, 0xE2, 0x82]) = Inr [0x61, 0xC3, 0xA9, 0xFF, 0xE2, 0x82]"
  using file_text_roundtrip [of "[0x61, 0xC3, 0xA9, 0xFF, 0xE2, 0x82]"] by (simp add: is_bytes_def)

end
