(* ===== verification/Sse.thy ===== *)
theory Sse
  imports Unicode "HOL-Library.Code_Target_Nat"
begin

text \<open>
  The incremental Server-Sent Events parser (\<open>src/core/agent_core/ai/sse.py\<close>). The parser keeps a
  buffer with two positions in it (the start of the current line and where the search for a
  line end resumes), an incremental UTF-8 decoder and the event being collected. The
  specification it is compared with works on the pending text alone: decode the chunk, append
  it, split off every complete line, handle each. The refinement shows that the positions
  never change what the parser answers, and from it that the answer does not depend on how
  the stream was cut into chunks.
\<close>

section \<open>Events and the parser state\<close>

record sse_event =
  ev_data :: utext
  ev_event :: "utext option"
  ev_event_id :: "utext option"
  ev_retry :: "nat option"

text \<open>The attributes of the parser that do not concern the buffer.\<close>

record sse_fields =
  sf_max_line_size :: int
  sf_max_event_size :: int
  sf_decoder :: bytes
  sf_data :: "utext list"
  sf_data_size :: nat
  sf_event :: "utext option"
  sf_event_id :: "utext option"
  sf_retry :: "nat option"
  sf_at_stream_start :: bool

record sse_parser =
  sp_fields :: sse_fields
  sp_buffer :: utext
  sp_line_start :: nat
  sp_scan_position :: nat

datatype sse_chunk = Bytes bytes | Str utext

abbreviation CR :: nat where "CR \<equiv> 13"
abbreviation LF :: nat where "LF \<equiv> 10"

definition DEFAULT_MAX_PENDING_LINE_SIZE :: int where
  "DEFAULT_MAX_PENDING_LINE_SIZE = 8 * 1024 * 1024"

definition DEFAULT_MAX_PENDING_EVENT_SIZE :: int where
  "DEFAULT_MAX_PENDING_EVENT_SIZE = 32 * 1024 * 1024"

definition new_parser :: "int option \<Rightarrow> int option \<Rightarrow> sse_parser result" where
  "new_parser max_line_size max_event_size =
     (let ml = (case max_line_size of None \<Rightarrow> DEFAULT_MAX_PENDING_LINE_SIZE | Some n \<Rightarrow> n);
          me = (case max_event_size of None \<Rightarrow> DEFAULT_MAX_PENDING_EVENT_SIZE | Some n \<Rightarrow> n) in
      if ml \<le> 0 \<or> me \<le> 0 then Inl (ValueError ''SSE parser limits must be positive'')
      else Inr \<lparr>sp_fields = \<lparr>sf_max_line_size = ml, sf_max_event_size = me, sf_decoder = [], sf_data = [],
                 sf_data_size = 0, sf_event = None, sf_event_id = None, sf_retry = None, sf_at_stream_start = True\<rparr>,
               sp_buffer = [], sp_line_start = 0, sp_scan_position = 0\<rparr>)"

section \<open>Decoding, limits and fields\<close>

definition strip_bom :: "utext \<Rightarrow> sse_fields \<Rightarrow> utext \<times> sse_fields" where
  "strip_bom s f =
     (if sf_at_stream_start f \<and> s \<noteq> []
      then (if hd s = 0xFEFF then tl s else s, f\<lparr>sf_at_stream_start := False\<rparr>)
      else (s, f))"

definition sse_decode :: "sse_chunk \<Rightarrow> sse_fields \<Rightarrow> utext \<times> sse_fields" where
  "sse_decode chunk f =
     (case chunk of
        Bytes bs \<Rightarrow> (case decode_more replace_handler (sf_decoder f) bs of (s, p) \<Rightarrow> strip_bom s (f\<lparr>sf_decoder := p\<rparr>))
      | Str s \<Rightarrow> strip_bom (decode_flush replace_handler (sf_decoder f) @ s) (f\<lparr>sf_decoder := []\<rparr>))"

definition line_too_long :: "int \<Rightarrow> py_error" where
  "line_too_long n = SSEParseError (''SSE pending line exceeds '' @ int_str n @ '' characters'')"

definition event_too_long :: "int \<Rightarrow> py_error" where
  "event_too_long n = SSEParseError (''SSE pending event exceeds '' @ int_str n @ '' characters'')"

definition check_line_size :: "utext \<Rightarrow> sse_fields \<Rightarrow> unit result" where
  "check_line_size line f =
     (if int (length line) > sf_max_line_size f then Inl (line_too_long (sf_max_line_size f)) else Inr ())"

definition check_pending_line_size :: "sse_parser \<Rightarrow> unit result" where
  "check_pending_line_size p =
     (if int (length (sp_buffer p)) - int (sp_line_start p) > sf_max_line_size (sp_fields p)
      then Inl (line_too_long (sf_max_line_size (sp_fields p))) else Inr ())"

text \<open>The field name and value of a line: \<open>line.split(":", 1)\<close> with one leading space of the value dropped.\<close>

definition field_and_value :: "utext \<Rightarrow> utext \<times> utext" where
  "field_and_value line =
     (if of_char CHR '':'' \<in> set line
      then let field = takeWhile (\<lambda>c. c \<noteq> of_char CHR '':'') line;
               v = tl (dropWhile (\<lambda>c. c \<noteq> of_char CHR '':'') line) in
           (field, if v \<noteq> [] \<and> hd v = of_char CHR '' '' then tl v else v)
      else (line, []))"

definition parse_line :: "utext \<Rightarrow> sse_fields \<Rightarrow> sse_fields result" where
  "parse_line line f =
     (if line \<noteq> [] \<and> hd line = of_char CHR '':'' then Inr f
      else case field_and_value line of (field, v) \<Rightarrow>
        if field = ascii ''data'' then
          (let new_size = sf_data_size f + length v + (if sf_data f \<noteq> [] then 1 else 0) in
           if int new_size > sf_max_event_size f then Inl (event_too_long (sf_max_event_size f))
           else Inr (f\<lparr>sf_data := sf_data f @ [v], sf_data_size := new_size\<rparr>))
        else if field = ascii ''event'' then Inr (f\<lparr>sf_event := Some v\<rparr>)
        else if field = ascii ''id'' \<and> 0 \<notin> set v then Inr (f\<lparr>sf_event_id := Some v\<rparr>)
        else if field = ascii ''retry'' \<and> py_isdigit v
          then bind_result (py_int_of_digits v) (\<lambda>n. Inr (f\<lparr>sf_retry := Some n\<rparr>))
        else Inr f)"

definition dispatch :: "sse_fields \<Rightarrow> sse_event option \<times> sse_fields" where
  "dispatch f =
     (if sf_data f = [] then (None, f\<lparr>sf_event := None, sf_retry := None\<rparr>)
      else (Some \<lparr>ev_data = join [LF] (sf_data f), ev_event = sf_event f, ev_event_id = sf_event_id f, ev_retry = sf_retry f\<rparr>,
            f\<lparr>sf_data := [], sf_data_size := 0, sf_event := None, sf_retry := None\<rparr>))"

section \<open>Taking lines from the buffer\<close>

definition line_end_from :: "utext \<Rightarrow> nat \<Rightarrow> nat option" where
  "line_end_from buffer pos = find (\<lambda>i. buffer ! i = CR \<or> buffer ! i = LF) [pos..<length buffer]"

definition take_line :: "sse_parser \<Rightarrow> utext option \<times> sse_parser" where
  "take_line p =
     (case line_end_from (sp_buffer p) (sp_scan_position p) of
        None \<Rightarrow> (None, p\<lparr>sp_scan_position := length (sp_buffer p)\<rparr>)
      | Some index \<Rightarrow>
         if sp_buffer p ! index = CR \<and> index + 1 = length (sp_buffer p)
         then (None, p\<lparr>sp_scan_position := index\<rparr>)
         else
           let line = drop (sp_line_start p) (take index (sp_buffer p));
               start = (if sp_buffer p ! index = CR \<and> index + 1 < length (sp_buffer p) \<and> sp_buffer p ! (index + 1) = LF
                        then index + 2 else index + 1) in
           (Some line, p\<lparr>sp_line_start := start, sp_scan_position := start\<rparr>))"

definition compact_buffer :: "sse_parser \<Rightarrow> sse_parser" where
  "compact_buffer p =
     (if sp_line_start p \<noteq> 0
      then p\<lparr>sp_buffer := drop (sp_line_start p) (sp_buffer p), sp_line_start := 0, sp_scan_position := 0\<rparr>
      else p)"

text \<open>What \<open>feed\<close> and \<open>finish\<close> do with one complete line.\<close>

definition handle_line :: "utext \<Rightarrow> sse_event list \<times> sse_fields \<Rightarrow> (sse_event list \<times> sse_fields) result" where
  "handle_line line = (\<lambda>(events, f).
     if line = [] then
       (case dispatch f of (None, f') \<Rightarrow> Inr (events, f') | (Some e, f') \<Rightarrow> Inr (events @ [e], f'))
     else bind_result (check_line_size line f) (\<lambda>_. bind_result (parse_line line f) (\<lambda>f'. Inr (events, f'))))"

lemma take_line_progress:
  assumes "take_line p = (Some line, p')"
  shows "length (sp_buffer p') - sp_scan_position p' < length (sp_buffer p) - sp_scan_position p"
proof -
  obtain i where i: "line_end_from (sp_buffer p) (sp_scan_position p) = Some i"
    using assms by (cases "line_end_from (sp_buffer p) (sp_scan_position p)") (auto simp: take_line_def)
  then have "sp_scan_position p \<le> i" "i < length (sp_buffer p)"
    by (auto simp: line_end_from_def find_Some_iff)
  then show ?thesis using assms i by (auto simp: take_line_def Let_def split: if_splits)
qed

function take_lines :: "sse_event list \<Rightarrow> sse_parser \<Rightarrow> (sse_event list \<times> sse_parser) result" where
  "take_lines events p =
     (case take_line p of
        (None, p') \<Rightarrow> Inr (events, p')
      | (Some line, p') \<Rightarrow>
         bind_result (handle_line line (events, sp_fields p')) (\<lambda>(events', f). take_lines events' (p'\<lparr>sp_fields := f\<rparr>)))"
  by auto
termination
  by (relation "measure (\<lambda>(events, p). length (sp_buffer p) - sp_scan_position p)") (auto dest: take_line_progress [OF sym])

declare take_lines.simps [simp del]

section \<open>The operations\<close>

definition sse_feed :: "sse_chunk \<Rightarrow> sse_parser \<Rightarrow> (sse_event list \<times> sse_parser) result" where
  "sse_feed chunk p =
     (case sse_decode chunk (sp_fields p) of (s, f) \<Rightarrow>
        let p1 = p\<lparr>sp_fields := f\<rparr> in
        if s = [] then Inr ([], p1)
        else bind_result (take_lines [] (p1\<lparr>sp_buffer := sp_buffer p1 @ s\<rparr>)) (\<lambda>(events, p2).
               let p3 = compact_buffer p2 in
               bind_result (check_pending_line_size p3) (\<lambda>_. Inr (events, p3))))"

definition finish_pending :: "sse_parser \<Rightarrow> sse_parser result" where
  "finish_pending p =
     (if sp_buffer p \<noteq> [] then
        bind_result (check_pending_line_size p) (\<lambda>_.
        let line = (if last (sp_buffer p) = CR then butlast (sp_buffer p) else sp_buffer p) in
        bind_result (parse_line line (sp_fields p)) (\<lambda>f.
        Inr (p\<lparr>sp_fields := f, sp_buffer := [], sp_line_start := 0, sp_scan_position := 0\<rparr>)))
      else Inr p)"

definition sse_finish :: "sse_parser \<Rightarrow> (sse_event list \<times> sse_parser) result" where
  "sse_finish p =
     (let decoded_tail = decode_flush replace_handler (sf_decoder (sp_fields p));
          p1 = p\<lparr>sp_fields := (sp_fields p)\<lparr>sf_decoder := []\<rparr>, sp_buffer := sp_buffer p @ decoded_tail\<rparr> in
      bind_result (take_lines [] p1) (\<lambda>(events, p2).
      bind_result (finish_pending (compact_buffer p2)) (\<lambda>p3.
      case dispatch (sp_fields p3) of
        (None, f) \<Rightarrow> Inr (events, p3\<lparr>sp_fields := f\<rparr>)
      | (Some e, f) \<Rightarrow> Inr (events @ [e], p3\<lparr>sp_fields := f\<rparr>))))"

text \<open>The loop of \<open>parse_sse\<close>, with the parser as a parameter.\<close>

definition feed_next :: "sse_chunk \<Rightarrow> sse_event list \<times> sse_parser \<Rightarrow> (sse_event list \<times> sse_parser) result" where
  "feed_next chunk = (\<lambda>(events, p). bind_result (sse_feed chunk p) (\<lambda>(new, p'). Inr (events @ new, p')))"

definition parse_with :: "sse_parser \<Rightarrow> sse_chunk list \<Rightarrow> sse_event list result" where
  "parse_with p chunks =
     bind_result (fold_result feed_next chunks ([], p)) (\<lambda>(events, p').
     bind_result (sse_finish p') (\<lambda>(last_events, _). Inr (events @ last_events)))"

definition parse_sse :: "sse_chunk list \<Rightarrow> sse_event list result" where
  "parse_sse chunks = bind_result (new_parser None None) (\<lambda>p. parse_with p chunks)"

section \<open>The specification on the pending text\<close>

text \<open>The first complete line of a text and what follows it; a final CR may still become CRLF.\<close>

fun next_line :: "utext \<Rightarrow> (utext \<times> utext) option" where
  "next_line [] = None"
| "next_line (c # s) =
     (if c = LF then Some ([], s)
      else if c = CR then (case s of [] \<Rightarrow> None | d # s' \<Rightarrow> Some ([], if d = LF then s' else s))
      else map_option (\<lambda>(l, r). (c # l, r)) (next_line s))"

lemma next_line_shorter: "next_line s = Some (l, r) \<Longrightarrow> length r < length s"
  by (induction s arbitrary: l) (auto split: if_splits list.splits)

function lines_of :: "utext \<Rightarrow> utext list \<times> utext" where
  "lines_of s = (case next_line s of None \<Rightarrow> ([], s) | Some (l, r) \<Rightarrow> (case lines_of r of (ls, t) \<Rightarrow> (l # ls, t)))"
  by auto
termination by (relation "measure length") (auto dest: next_line_shorter)

declare lines_of.simps [simp del]

text \<open>The specification of \<open>feed\<close> and \<open>finish\<close> on the fields and the pending text.\<close>

definition spec_feed :: "sse_chunk \<Rightarrow> sse_fields \<times> utext \<Rightarrow> (sse_event list \<times> sse_fields \<times> utext) result" where
  "spec_feed chunk = (\<lambda>(f, pending).
     case sse_decode chunk f of (s, f1) \<Rightarrow>
       if s = [] then Inr ([], f1, pending)
       else case lines_of (pending @ s) of (ls, rest) \<Rightarrow>
         bind_result (fold_result handle_line ls ([], f1)) (\<lambda>(events, f2).
         bind_result (check_line_size rest f2) (\<lambda>_. Inr (events, f2, rest))))"

definition spec_finish :: "sse_fields \<times> utext \<Rightarrow> sse_event list result" where
  "spec_finish = (\<lambda>(f, pending).
     case lines_of (pending @ decode_flush replace_handler (sf_decoder f)) of (ls, rest) \<Rightarrow>
       bind_result (fold_result handle_line ls ([], f\<lparr>sf_decoder := []\<rparr>)) (\<lambda>(events, f1).
       bind_result (if rest = [] then Inr f1
                    else bind_result (check_line_size rest f1) (\<lambda>_.
                      parse_line (if last rest = CR then butlast rest else rest) f1)) (\<lambda>f2.
       Inr (events @ (case fst (dispatch f2) of None \<Rightarrow> [] | Some e \<Rightarrow> [e])))))"

section \<open>The parser refines the specification\<close>

text \<open>The positions are in order, and the part of the current line already searched holds no line end.\<close>

definition parser_ok :: "sse_parser \<Rightarrow> bool" where
  "parser_ok p \<longleftrightarrow> sp_line_start p \<le> sp_scan_position p \<and> sp_scan_position p \<le> length (sp_buffer p)
     \<and> (\<forall>i. sp_line_start p \<le> i \<and> i < sp_scan_position p \<longrightarrow> sp_buffer p ! i \<noteq> CR \<and> sp_buffer p ! i \<noteq> LF)"

definition pending :: "sse_parser \<Rightarrow> utext" where
  "pending p = drop (sp_line_start p) (sp_buffer p)"

definition abs_parser :: "sse_parser \<Rightarrow> sse_fields \<times> utext" where
  "abs_parser p = (sp_fields p, pending p)"

lemma next_line_plain: "\<forall>c\<in>set s. c \<noteq> CR \<and> c \<noteq> LF \<Longrightarrow> next_line (s @ t) = map_option (\<lambda>(l, r). (s @ l, r)) (next_line t)"
  by (cases "next_line t"; induction s) auto

lemma next_line_None_cases:
  "next_line s = None \<Longrightarrow> \<exists>t. (s = t \<or> s = t @ [CR]) \<and> (\<forall>c\<in>set t. c \<noteq> CR \<and> c \<noteq> LF)"
proof (induction s)
  case (Cons c s)
  then show ?case
  proof (cases "c = CR")
    case True
    then show ?thesis using Cons.prems by (intro exI [of _ "[]"]) (auto split: list.splits)
  next
    case False
    then obtain t where "s = t \<or> s = t @ [CR]" "\<forall>c\<in>set t. c \<noteq> CR \<and> c \<noteq> LF" using Cons by (auto split: if_splits)
    then show ?thesis using False Cons.prems by (intro exI [of _ "c # t"]) (auto split: if_splits)
  qed
qed simp

lemma line_end_found:
  assumes "line_end_from b sc = Some i"
  shows "sc \<le> i \<and> i < length b \<and> (b ! i = CR \<or> b ! i = LF) \<and> (\<forall>j. sc \<le> j \<and> j < i \<longrightarrow> b ! j \<noteq> CR \<and> b ! j \<noteq> LF)"
proof -
  obtain k where k: "k < length b - sc" "i = sc + k" "b ! i = CR \<or> b ! i = LF"
    and no: "\<forall>j<k. \<not> (b ! (sc + j) = CR \<or> b ! (sc + j) = LF)"
    using assms by (auto simp: line_end_from_def find_Some_iff)
  have "b ! j \<noteq> CR \<and> b ! j \<noteq> LF" if "sc \<le> j" "j < i" for j
    using no [rule_format, of "j - sc"] that k(2) by simp
  then show ?thesis using k by simp
qed

lemma take_line_next_line:
  assumes "parser_ok p"
  shows "case take_line p of
      (None, p') \<Rightarrow> next_line (pending p) = None \<and> parser_ok p' \<and> pending p' = pending p \<and> sp_fields p' = sp_fields p
    | (Some line, p') \<Rightarrow> next_line (pending p) = Some (line, pending p') \<and> parser_ok p' \<and> sp_fields p' = sp_fields p"
proof -
  let ?b = "sp_buffer p" and ?ls = "sp_line_start p" and ?sc = "sp_scan_position p"
  have ok: "?ls \<le> ?sc" "?sc \<le> length ?b" "\<forall>i. ?ls \<le> i \<and> i < ?sc \<longrightarrow> ?b ! i \<noteq> CR \<and> ?b ! i \<noteq> LF"
    using assms by (auto simp: parser_ok_def)
  show ?thesis
  proof (cases "line_end_from ?b ?sc")
    case None
    then have none: "\<forall>i. ?ls \<le> i \<and> i < length ?b \<longrightarrow> ?b ! i \<noteq> CR \<and> ?b ! i \<noteq> LF"
      using ok(3) by (auto simp: line_end_from_def find_None_iff)
    then have "\<forall>c\<in>set (pending p). c \<noteq> CR \<and> c \<noteq> LF" by (auto simp: pending_def in_set_conv_nth)
    then have "next_line (pending p) = None" using next_line_plain [of "pending p" "[]"] by simp
    then show ?thesis using None none ok by (simp add: take_line_def parser_ok_def pending_def)
  next
    case (Some i)
    then have i: "?sc \<le> i" "i < length ?b" "?b ! i = CR \<or> ?b ! i = LF"
      and before: "\<forall>j. ?sc \<le> j \<and> j < i \<longrightarrow> ?b ! j \<noteq> CR \<and> ?b ! j \<noteq> LF"
      using line_end_found [of ?b ?sc i] by auto
    have plain: "\<forall>j. ?ls \<le> j \<and> j < i \<longrightarrow> ?b ! j \<noteq> CR \<and> ?b ! j \<noteq> LF"
      using before ok(3) by (metis not_le)
    let ?line = "drop ?ls (take i ?b)"
    have split: "pending p = ?line @ ?b ! i # drop (Suc i) ?b"
      using i(1,2) ok(1) by (simp add: pending_def Cons_nth_drop_Suc) (metis append_take_drop_id drop_append diff_is_0_eq drop_0 le_trans length_take min_absorb2 less_imp_le)
    have "\<forall>c\<in>set ?line. c \<noteq> CR \<and> c \<noteq> LF" using plain i(2) by (auto simp: in_set_conv_nth)
    then have line: "next_line (pending p) = map_option (\<lambda>(l, r). (?line @ l, r)) (next_line (?b ! i # drop (Suc i) ?b))"
      unfolding split by (rule next_line_plain)
    let ?next = "if ?b ! i = CR \<and> i + 1 < length ?b \<and> ?b ! (i + 1) = LF then i + 2 else i + 1"
    show ?thesis
    proof (cases "?b ! i = CR \<and> i + 1 = length ?b")
      case True
      then have "take_line p = (None, p\<lparr>sp_scan_position := i\<rparr>)" by (simp add: take_line_def Some)
      then show ?thesis using True line plain i ok by (simp add: parser_ok_def pending_def)
    next
      case False
      then have "take_line p = (Some ?line, p\<lparr>sp_line_start := ?next, sp_scan_position := ?next\<rparr>)"
        by (auto simp: take_line_def Some Let_def)
      moreover have "next_line (?b ! i # drop (Suc i) ?b) = Some ([], drop ?next ?b)"
        using False i by (cases "Suc i < length ?b") (auto simp: Cons_nth_drop_Suc [of "Suc i" ?b, symmetric])
      ultimately show ?thesis using line i ok by (auto simp: parser_ok_def pending_def)
    qed
  qed
qed

lemma parser_ok_fields [simp]: "parser_ok (p\<lparr>sp_fields := f\<rparr>) = parser_ok p"
  by (simp add: parser_ok_def)

lemma pending_fields [simp]: "pending (p\<lparr>sp_fields := f\<rparr>) = pending p"
  by (simp add: pending_def)

lemma parser_ok_append:
  assumes "parser_ok p"
  shows "parser_ok (p\<lparr>sp_buffer := sp_buffer p @ s\<rparr>) \<and> pending (p\<lparr>sp_buffer := sp_buffer p @ s\<rparr>) = pending p @ s"
  using assms by (auto simp: parser_ok_def pending_def nth_append)

lemma compact_ok:
  assumes "parser_ok p"
  shows "parser_ok (compact_buffer p) \<and> pending (compact_buffer p) = pending p \<and> sp_fields (compact_buffer p) = sp_fields p
    \<and> sp_line_start (compact_buffer p) = 0 \<and> sp_buffer (compact_buffer p) = pending p"
  using assms by (auto simp: compact_buffer_def parser_ok_def pending_def)

lemma check_pending_eq: "parser_ok p \<Longrightarrow> check_pending_line_size p = check_line_size (pending p) (sp_fields p)"
  by (auto simp: check_pending_line_size_def check_line_size_def pending_def parser_ok_def of_nat_diff)

lemma take_lines_spec:
  assumes "parser_ok p"
  shows "case take_lines events p of
      Inl e \<Rightarrow> fold_result handle_line (fst (lines_of (pending p))) (events, sp_fields p) = Inl e
    | Inr (events', p') \<Rightarrow> fold_result handle_line (fst (lines_of (pending p))) (events, sp_fields p) = Inr (events', sp_fields p')
        \<and> parser_ok p' \<and> pending p' = snd (lines_of (pending p))"
  using assms
proof (induction events p rule: take_lines.induct)
  case (1 events p)
  note step = take_line_next_line [OF 1(2)]
  obtain l p1 where one: "take_line p = (l, p1)" by fastforce
  show ?case
  proof (cases l)
    case None
    then show ?thesis using step one by (simp add: take_lines.simps [of events p] lines_of.simps [of "pending p"])
  next
    case (Some line)
    then have next_l: "next_line (pending p) = Some (line, pending p1)" "parser_ok p1" "sp_fields p1 = sp_fields p"
      using step one by simp_all
    then have lines: "fst (lines_of (pending p)) = line # fst (lines_of (pending p1))"
      "snd (lines_of (pending p)) = snd (lines_of (pending p1))"
      by (simp_all add: lines_of.simps [of "pending p"] case_prod_beta)
    show ?thesis
    proof (cases "handle_line line (events, sp_fields p1)")
      case (Inl e)
      then show ?thesis using one Some next_l(3) lines by (simp add: take_lines.simps [of events p])
    next
      case (Inr r)
      obtain events' f where r: "r = (events', f)" by fastforce
      have "take_lines events p = take_lines events' (p1\<lparr>sp_fields := f\<rparr>)"
        using one Some Inr r by (simp add: take_lines.simps [of events p])
      moreover note 1(1) [OF one [symmetric] Some Inr r [symmetric]]
      moreover have "fold_result handle_line (fst (lines_of (pending p))) (events, sp_fields p)
          = fold_result handle_line (fst (lines_of (pending p1))) (events', f)"
        using Inr r next_l(3) by (simp add: lines)
      ultimately show ?thesis using next_l(2) lines(2) by (auto split: sum.splits)
    qed
  qed
qed

lemma sse_feed_spec:
  assumes "parser_ok p"
  shows "case sse_feed chunk p of
      Inl e \<Rightarrow> spec_feed chunk (abs_parser p) = Inl e
    | Inr (events, p') \<Rightarrow> spec_feed chunk (abs_parser p) = Inr (events, abs_parser p') \<and> parser_ok p'"
proof -
  obtain s f where dec: "sse_decode chunk (sp_fields p) = (s, f)" by fastforce
  show ?thesis
  proof (cases "s = []")
    case True
    then show ?thesis using dec assms by (simp add: sse_feed_def spec_feed_def abs_parser_def)
  next
    case False
    define q where "q = p\<lparr>sp_fields := f, sp_buffer := sp_buffer p @ s\<rparr>"
    have q: "parser_ok q" "pending q = pending p @ s" "sp_fields q = f"
      using parser_ok_append [of "p\<lparr>sp_fields := f\<rparr>" s] assms by (simp_all add: q_def)
    have feed: "sse_feed chunk p = bind_result (take_lines [] q) (\<lambda>(events, p2).
        bind_result (check_pending_line_size (compact_buffer p2)) (\<lambda>_. Inr (events, compact_buffer p2)))"
      using dec False by (simp add: sse_feed_def q_def Let_def)
    have spec: "spec_feed chunk (sp_fields p, pending p) = bind_result (fold_result handle_line (fst (lines_of (pending q))) ([], f)) (\<lambda>(events, f2).
        bind_result (check_line_size (snd (lines_of (pending q))) f2) (\<lambda>_. Inr (events, f2, snd (lines_of (pending q)))))"
      using dec False by (simp add: spec_feed_def abs_parser_def q(2) case_prod_beta)
    show ?thesis
    proof (cases "take_lines [] q")
      case (Inl e)
      then show ?thesis using take_lines_spec [OF q(1), of "[]"] by (simp add: feed spec abs_parser_def q(3))
    next
      case (Inr r)
      obtain events p2 where r: "r = (events, p2)" by fastforce
      have ok: "parser_ok p2" "pending p2 = snd (lines_of (pending q))"
        "fold_result handle_line (fst (lines_of (pending q))) ([], f) = Inr (events, sp_fields p2)"
        using take_lines_spec [OF q(1), of "[]"] Inr r q(3) by simp_all
      show ?thesis using Inr r ok(3) compact_ok [OF ok(1)] check_pending_eq [of "compact_buffer p2"]
        by (cases "check_line_size (pending p2) (sp_fields p2)") (simp_all add: feed spec abs_parser_def ok(2))
    qed
  qed
qed

lemma sse_finish_spec:
  assumes "parser_ok p"
  shows "bind_result (sse_finish p) (\<lambda>(events, _). Inr events) = spec_finish (abs_parser p)"
proof -
  define q where "q = p\<lparr>sp_fields := (sp_fields p)\<lparr>sf_decoder := []\<rparr>, sp_buffer := sp_buffer p @ decode_flush replace_handler (sf_decoder (sp_fields p))\<rparr>"
  have q: "parser_ok q" "pending q = pending p @ decode_flush replace_handler (sf_decoder (sp_fields p))"
    "sp_fields q = (sp_fields p)\<lparr>sf_decoder := []\<rparr>"
    using parser_ok_append [of "p\<lparr>sp_fields := (sp_fields p)\<lparr>sf_decoder := []\<rparr>\<rparr>"] assms by (simp_all add: q_def)
  have fin: "sse_finish p = bind_result (take_lines [] q) (\<lambda>(events, p2).
      bind_result (finish_pending (compact_buffer p2)) (\<lambda>p3.
      case dispatch (sp_fields p3) of
        (None, f) \<Rightarrow> Inr (events, p3\<lparr>sp_fields := f\<rparr>)
      | (Some e, f) \<Rightarrow> Inr (events @ [e], p3\<lparr>sp_fields := f\<rparr>)))"
    by (simp add: sse_finish_def Let_def q_def)
  have pend: "bind_result (finish_pending (compact_buffer p2)) (\<lambda>p3. Inr (sp_fields p3))
      = (if pending p2 = [] then Inr (sp_fields p2) else bind_result (check_line_size (pending p2) (sp_fields p2)) (\<lambda>_.
           parse_line (if last (pending p2) = CR then butlast (pending p2) else pending p2) (sp_fields p2)))"
    if "parser_ok p2" for p2
    using compact_ok [OF that] check_pending_eq [of "compact_buffer p2"]
    by (auto simp: finish_pending_def Let_def bind_result_def split: sum.splits)
  show ?thesis
  proof (cases "take_lines [] q")
    case (Inl e)
    then show ?thesis using take_lines_spec [OF q(1), of "[]"]
      by (simp add: fin spec_finish_def abs_parser_def q(2,3) [symmetric] case_prod_beta)
  next
    case (Inr r)
    obtain events p2 where r: "r = (events, p2)" by fastforce
    have ok: "parser_ok p2" "pending p2 = snd (lines_of (pending q))"
      "fold_result handle_line (fst (lines_of (pending q))) ([], sp_fields q) = Inr (events, sp_fields p2)"
      using take_lines_spec [OF q(1), of "[]"] Inr r by simp_all
    have "spec_finish (abs_parser p) = bind_result (bind_result (finish_pending (compact_buffer p2)) (\<lambda>p3. Inr (sp_fields p3)))
        (\<lambda>f2. Inr (events @ (case fst (dispatch f2) of None \<Rightarrow> [] | Some e \<Rightarrow> [e])))"
      unfolding pend [OF ok(1)] using ok(3)
      by (simp add: spec_finish_def abs_parser_def case_prod_beta ok(2) flip: q(2,3))
    then show ?thesis using Inr r
      by (auto simp: fin bind_result_def case_prod_beta split: sum.splits option.splits prod.splits)
  qed
qed

section \<open>Cutting a stream into chunks\<close>

lemma next_line_append: "next_line s = Some (l, r) \<Longrightarrow> next_line (s @ t) = Some (l, r @ t)"
  by (induction s arbitrary: l) (auto split: if_splits list.splits)

lemma lines_of_append:
  "lines_of (s @ t) = (fst (lines_of s) @ fst (lines_of (snd (lines_of s) @ t)), snd (lines_of (snd (lines_of s) @ t)))"
proof (induction s rule: lines_of.induct)
  case (1 s)
  show ?case
  proof (cases "next_line s")
    case None
    then show ?thesis by (simp add: lines_of.simps [of s])
  next
    case (Some lr)
    obtain l r where lr: "lr = (l, r)" by fastforce
    have "lines_of (s @ t) = (l # fst (lines_of (r @ t)), snd (lines_of (r @ t)))"
      using next_line_append [of s l r t] Some lr by (simp add: lines_of.simps [of "s @ t"] case_prod_beta)
    moreover have "lines_of s = (l # fst (lines_of r), snd (lines_of r))"
      using Some lr by (simp add: lines_of.simps [of s] case_prod_beta)
    ultimately show ?thesis using 1 [OF Some lr [symmetric]] by simp
  qed
qed

lemma rest_has_no_line: "next_line (snd (lines_of s)) = None"
proof (induction s rule: lines_of.induct)
  case (1 s)
  then show ?case by (cases "next_line s") (auto simp: lines_of.simps [of s] split: prod.splits)
qed

text \<open>The unfinished line of a prefix is at most one character longer than the line it becomes.\<close>

lemma rest_length:
  assumes "\<forall>l\<in>set (fst (lines_of (s @ t))). int (length l) < m" and "int (length (snd (lines_of (s @ t)))) \<le> m"
  shows "int (length (snd (lines_of s))) \<le> m"
proof -
  let ?r = "snd (lines_of s)"
  obtain u where u: "?r = u \<or> ?r = u @ [CR]" "\<forall>c\<in>set u. c \<noteq> CR \<and> c \<noteq> LF"
    using next_line_None_cases [OF rest_has_no_line [of s]] by blast
  show ?thesis
  proof (cases "next_line (?r @ t)")
    case None
    then have "lines_of (?r @ t) = ([], ?r @ t)" by (simp add: lines_of.simps)
    then show ?thesis using assms(2) by (simp add: lines_of_append [of s t])
  next
    case (Some lr)
    obtain l r where lr: "lr = (l, r)" by fastforce
    then have "l \<in> set (fst (lines_of (?r @ t)))" using Some by (simp add: lines_of.simps [of "?r @ t"] case_prod_beta)
    then have "int (length l) < m" using assms(1) by (simp add: lines_of_append [of s t])
    moreover obtain v where "next_line (u @ v) = Some (l, r)" using Some lr u(1) by (metis append.assoc)
    then have "length u \<le> length l" using next_line_plain [OF u(2), of v] by auto
    ultimately show ?thesis using u(1) by auto
  qed
qed

lemma handle_line_keeps:
  assumes "handle_line l (events, f) = Inr (events', f')"
  shows "sf_max_line_size f' = sf_max_line_size f \<and> sf_max_event_size f' = sf_max_event_size f
    \<and> sf_decoder f' = sf_decoder f \<and> sf_at_stream_start f' = sf_at_stream_start f"
  using assms
  by (auto simp: handle_line_def dispatch_def parse_line_def Let_def bind_result_eq_Inr split: if_splits prod.splits option.splits)

lemma handle_lines_keep:
  assumes "fold_result handle_line ls (events, f) = Inr (events', f')"
  shows "sf_max_line_size f' = sf_max_line_size f \<and> sf_max_event_size f' = sf_max_event_size f
    \<and> sf_decoder f' = sf_decoder f \<and> sf_at_stream_start f' = sf_at_stream_start f"
  using assms
proof (induction ls arbitrary: events f)
  case (Cons l ls)
  then obtain events1 f1 where "handle_line l (events, f) = Inr (events1, f1)" "fold_result handle_line ls (events1, f1) = Inr (events', f')"
    by (auto simp: bind_result_eq_Inr)
  then show ?case using Cons.IH handle_line_keeps by fastforce
qed simp

text \<open>Events found before a line are carried along.\<close>

lemma handle_line_carry:
  "handle_line l (pre @ events, f) = map_sum id (\<lambda>(events', f'). (pre @ events', f')) (handle_line l (events, f))"
  by (auto simp: handle_line_def bind_result_def split: prod.splits option.splits sum.splits)

lemma handle_lines_carry:
  "fold_result handle_line ls (pre @ events, f)
     = map_sum id (\<lambda>(events', f'). (pre @ events', f')) (fold_result handle_line ls (events, f))"
proof (induction ls arbitrary: events f)
  case (Cons l ls)
  show ?case
    by (cases "handle_line l (events, f)") (auto simp: handle_line_carry [of l pre events f] Cons.IH split: prod.splits)
qed simp

text \<open>The text a run of bytes adds to the stream, and what it leaves in the decoder.\<close>

definition decode_stream :: "bytes \<Rightarrow> bytes \<times> bool \<Rightarrow> utext \<times> bytes \<times> bool" where
  "decode_stream bs = (\<lambda>(d, start).
     case decode_more replace_handler d bs of (s, d') \<Rightarrow>
       if start \<and> s \<noteq> [] then (if hd s = 0xFEFF then tl s else s, d', False) else (s, d', start))"

lemma sse_decode_Bytes:
  "sse_decode (Bytes bs) f =
     (case decode_stream bs (sf_decoder f, sf_at_stream_start f) of (s, d, start) \<Rightarrow>
        (s, f\<lparr>sf_decoder := d, sf_at_stream_start := start\<rparr>))"
  by (cases f) (auto simp: sse_decode_def decode_stream_def strip_bom_def split: prod.splits)

lemma decode_stream_append:
  "decode_stream (a @ b) x = (case decode_stream a x of (s, y) \<Rightarrow> case decode_stream b y of (t, z) \<Rightarrow> (s @ t, z))"
  by (cases x) (auto simp: decode_stream_def decode_more_append hd_append split: prod.splits)

lemma handle_line_frame:
  "handle_line l (events, f\<lparr>sf_decoder := d, sf_at_stream_start := b\<rparr>)
     = map_sum id (\<lambda>(events', f'). (events', f'\<lparr>sf_decoder := d, sf_at_stream_start := b\<rparr>)) (handle_line l (events, f))"
  by (cases f) (auto simp: handle_line_def dispatch_def check_line_size_def parse_line_def Let_def bind_result_def
    split: prod.splits option.splits sum.splits)

lemma handle_lines_frame:
  "fold_result handle_line ls (events, f\<lparr>sf_decoder := d, sf_at_stream_start := b\<rparr>)
     = map_sum id (\<lambda>(events', f'). (events', f'\<lparr>sf_decoder := d, sf_at_stream_start := b\<rparr>)) (fold_result handle_line ls (events, f))"
proof (induction ls arbitrary: events f)
  case (Cons l ls)
  show ?case
    by (cases "handle_line l (events, f)") (auto simp: handle_line_frame Cons.IH split: prod.splits)
qed simp

text \<open>\<open>spec_feed\<close> of bytes, without the case of an empty text: what is pending holds no complete line.\<close>

lemma spec_feed_Bytes:
  assumes "next_line pend = None" and "int (length pend) \<le> sf_max_line_size f"
    and "decode_stream bs (sf_decoder f, sf_at_stream_start f) = (s, d, start)"
  shows "spec_feed (Bytes bs) (f, pend) =
     bind_result (fold_result handle_line (fst (lines_of (pend @ s))) ([], f)) (\<lambda>(events, f').
       bind_result (check_line_size (snd (lines_of (pend @ s))) f') (\<lambda>_.
         Inr (events, f'\<lparr>sf_decoder := d, sf_at_stream_start := start\<rparr>, snd (lines_of (pend @ s)))))"
proof (cases "s = []")
  case True
  moreover have "lines_of pend = ([], pend)" using assms(1) by (simp add: lines_of.simps [of pend])
  ultimately show ?thesis using assms(2,3) by (simp add: spec_feed_def sse_decode_Bytes check_line_size_def)
next
  case False
  then show ?thesis using assms(3)
    by (auto simp: spec_feed_def sse_decode_Bytes handle_lines_frame case_prod_beta check_line_size_def bind_result_def
      split: sum.splits)
qed

definition short_lines :: "int \<Rightarrow> utext \<Rightarrow> bool" where
  "short_lines m s \<longleftrightarrow> (\<forall>l\<in>set (fst (lines_of s)). int (length l) < m) \<and> int (length (snd (lines_of s))) \<le> m"

lemma short_lines_append:
  assumes "short_lines m (s @ t)"
  shows "int (length (snd (lines_of s))) \<le> m" and "short_lines m (snd (lines_of s) @ t)"
  using assms rest_length [of s t m] by (auto simp: short_lines_def lines_of_append [of s t])

lemma spec_feed_append:
  assumes pend: "next_line pend = None" "int (length pend) \<le> sf_max_line_size f"
    and short: "short_lines (sf_max_line_size f) (pend @ fst (decode_stream (a @ b) (sf_decoder f, sf_at_stream_start f)))"
  shows "spec_feed (Bytes (a @ b)) (f, pend) =
     bind_result (spec_feed (Bytes a) (f, pend)) (\<lambda>(e1, st).
       bind_result (spec_feed (Bytes b) st) (\<lambda>(e2, st'). Inr (e1 @ e2, st')))"
proof -
  obtain s1 d1 st1 where dec1: "decode_stream a (sf_decoder f, sf_at_stream_start f) = (s1, d1, st1)" by (metis prod.exhaust)
  obtain s2 d2 st2 where dec2: "decode_stream b (d1, st1) = (s2, d2, st2)" by (metis prod.exhaust)
  have dec: "decode_stream (a @ b) (sf_decoder f, sf_at_stream_start f) = (s1 @ s2, d2, st2)"
    by (simp add: decode_stream_append dec1 dec2)
  let ?r = "snd (lines_of (pend @ s1))"
  have short': "short_lines (sf_max_line_size f) ((pend @ s1) @ s2)" using short by (simp add: dec)
  have r: "int (length ?r) \<le> sf_max_line_size f" by (rule short_lines_append [OF short'])
  have lines: "lines_of (pend @ s1 @ s2) = (fst (lines_of (pend @ s1)) @ fst (lines_of (?r @ s2)), snd (lines_of (?r @ s2)))"
    using lines_of_append [of "pend @ s1" s2] by simp
  note feed1 = spec_feed_Bytes [OF pend dec1] and feed12 = spec_feed_Bytes [OF pend dec]
  show ?thesis
  proof (cases "fold_result handle_line (fst (lines_of (pend @ s1))) ([], f)")
    case (Inl e)
    then show ?thesis by (simp add: feed1 feed12 lines fold_result_append)
  next
    case (Inr res)
    obtain e1 f1 where res: "res = (e1, f1)" by fastforce
    have keep: "sf_max_line_size f1 = sf_max_line_size f" using handle_lines_keep Inr res by blast
    let ?f1 = "f1\<lparr>sf_decoder := d1, sf_at_stream_start := st1\<rparr>"
    have "spec_feed (Bytes a) (f, pend) = Inr (e1, ?f1, ?r)"
      using Inr res r keep by (simp add: feed1 check_line_size_def)
    moreover have "spec_feed (Bytes b) (?f1, ?r) =
       bind_result (fold_result handle_line (fst (lines_of (?r @ s2))) ([], ?f1)) (\<lambda>(events, f').
         bind_result (check_line_size (snd (lines_of (?r @ s2))) f') (\<lambda>_.
           Inr (events, f'\<lparr>sf_decoder := d2, sf_at_stream_start := st2\<rparr>, snd (lines_of (?r @ s2)))))"
      using rest_has_no_line r keep dec2 by (intro spec_feed_Bytes) simp_all
    moreover have "fold_result handle_line (fst (lines_of (?r @ s2))) (e1, f1)
        = map_sum id (\<lambda>(events', f'). (e1 @ events', f')) (fold_result handle_line (fst (lines_of (?r @ s2))) ([], f1))"
      using handle_lines_carry [of _ e1 "[]"] by simp
    ultimately show ?thesis using Inr res
      by (cases "fold_result handle_line (fst (lines_of (?r @ s2))) ([], f1)") (auto simp: feed12 lines fold_result_append handle_lines_frame check_line_size_def bind_result_def
        split: sum.splits prod.splits)
  qed
qed

definition spec_next :: "sse_chunk \<Rightarrow> sse_event list \<times> sse_fields \<times> utext \<Rightarrow> (sse_event list \<times> sse_fields \<times> utext) result" where
  "spec_next chunk = (\<lambda>(events, st). bind_result (spec_feed chunk st) (\<lambda>(new, st'). Inr (events @ new, st')))"

lemma feed_all_spec:
  assumes "parser_ok p"
  shows "case fold_result feed_next chunks (events, p) of
      Inl e \<Rightarrow> fold_result spec_next chunks (events, abs_parser p) = Inl e
    | Inr (events', p') \<Rightarrow> fold_result spec_next chunks (events, abs_parser p) = Inr (events', abs_parser p') \<and> parser_ok p'"
  using assms
proof (induction chunks arbitrary: events p)
  case (Cons c chunks)
  show ?case
  proof (cases "sse_feed c p")
    case (Inl e)
    then show ?thesis using sse_feed_spec [OF Cons.prems, of c] by (simp add: feed_next_def spec_next_def)
  next
    case (Inr r)
    obtain new p1 where r: "r = (new, p1)" by fastforce
    then have "spec_feed c (abs_parser p) = Inr (new, abs_parser p1)" "parser_ok p1" using sse_feed_spec [OF Cons.prems, of c] Inr by simp_all
    moreover from this have "feed_next c (events, p) = Inr (events @ new, p1)"
      "spec_next c (events, abs_parser p) = Inr (events @ new, abs_parser p1)"
      using Inr r by (simp_all add: feed_next_def spec_next_def)
    ultimately show ?thesis using Cons.IH [of p1 "events @ new"] by (auto split: sum.splits)
  qed
qed simp

lemma parse_with_spec:
  assumes "parser_ok p"
  shows "parse_with p chunks = bind_result (fold_result spec_next chunks ([], abs_parser p)) (\<lambda>(events, st).
    bind_result (spec_finish st) (\<lambda>l. Inr (events @ l)))"
proof (cases "fold_result feed_next chunks ([], p)")
  case (Inl e)
  then show ?thesis using feed_all_spec [OF assms, of chunks "[]"] by (simp add: parse_with_def)
next
  case (Inr r)
  obtain events q where r: "r = (events, q)" by fastforce
  then have q: "fold_result spec_next chunks ([], abs_parser p) = Inr (events, abs_parser q)" "parser_ok q"
    using feed_all_spec [OF assms, of chunks "[]"] Inr by simp_all
  show ?thesis using Inr r q(1) sse_finish_spec [OF q(2), symmetric]
    by (auto simp: parse_with_def bind_result_def split: sum.splits prod.splits)
qed

lemma spec_feed_keeps:
  assumes "spec_feed (Bytes bs) (f, pend) = Inr (events, f', pend')" and "next_line pend = None"
    and "int (length pend) \<le> sf_max_line_size f"
  shows "sf_max_line_size f' = sf_max_line_size f \<and> next_line pend' = None \<and> int (length pend') \<le> sf_max_line_size f'
    \<and> pend' = snd (lines_of (pend @ fst (decode_stream bs (sf_decoder f, sf_at_stream_start f))))
    \<and> (sf_decoder f', sf_at_stream_start f') = snd (decode_stream bs (sf_decoder f, sf_at_stream_start f))"
proof -
  obtain s d st where dec: "decode_stream bs (sf_decoder f, sf_at_stream_start f) = (s, d, st)" by (metis prod.exhaust)
  obtain f1 where fold: "fold_result handle_line (fst (lines_of (pend @ s))) ([], f) = Inr (events, f1)"
    and check: "check_line_size (snd (lines_of (pend @ s))) f1 = Inr ()"
    and f': "f' = f1\<lparr>sf_decoder := d, sf_at_stream_start := st\<rparr>" "pend' = snd (lines_of (pend @ s))"
    using assms(1) by (auto simp: spec_feed_Bytes [OF assms(2,3) dec] bind_result_eq_Inr)
  have "int (length pend') \<le> sf_max_line_size f1" using check f'(2) by (simp add: check_line_size_def split: if_splits)
  then show ?thesis using handle_lines_keep [OF fold] f' dec rest_has_no_line by simp
qed

lemma spec_chunks:
  assumes "next_line pend = None" and "int (length pend) \<le> sf_max_line_size f"
    and "short_lines (sf_max_line_size f) (pend @ fst (decode_stream (concat cs) (sf_decoder f, sf_at_stream_start f)))"
  shows "fold_result spec_next (map Bytes cs) (events, f, pend)
     = bind_result (spec_feed (Bytes (concat cs)) (f, pend)) (\<lambda>(new, st). Inr (events @ new, st))"
  using assms
proof (induction cs arbitrary: events f pend)
  case Nil
  moreover have "lines_of pend = ([], pend)" using Nil(1) by (simp add: lines_of.simps [of pend])
  ultimately show ?case by (simp add: spec_feed_def sse_decode_Bytes decode_stream_def)
next
  case (Cons c cs)
  have split: "spec_feed (Bytes (c @ concat cs)) (f, pend) = bind_result (spec_feed (Bytes c) (f, pend)) (\<lambda>(e1, st).
       bind_result (spec_feed (Bytes (concat cs)) st) (\<lambda>(e2, st'). Inr (e1 @ e2, st')))"
    using Cons.prems by (intro spec_feed_append) simp_all
  show ?case
  proof (cases "spec_feed (Bytes c) (f, pend)")
    case (Inl e)
    then show ?thesis by (simp add: split spec_next_def)
  next
    case (Inr r)
    obtain new f1 pend1 where r: "r = (new, f1, pend1)" by (metis prod.exhaust)
    obtain s1 d1 st1 where dec: "decode_stream c (sf_decoder f, sf_at_stream_start f) = (s1, d1, st1)" by (metis prod.exhaust)
    note kept = spec_feed_keeps [OF Inr [unfolded r] Cons.prems(1,2)]
    have "short_lines (sf_max_line_size f) ((pend @ s1) @ fst (decode_stream (concat cs) (d1, st1)))"
      using Cons.prems(3) by (simp add: decode_stream_append dec case_prod_beta)
    then have "short_lines (sf_max_line_size f1) (pend1 @ fst (decode_stream (concat cs) (sf_decoder f1, sf_at_stream_start f1)))"
      using short_lines_append(2) kept dec by simp
    then have "fold_result spec_next (map Bytes cs) (events @ new, f1, pend1)
        = bind_result (spec_feed (Bytes (concat cs)) (f1, pend1)) (\<lambda>(new', st). Inr ((events @ new) @ new', st))"
      using kept by (intro Cons.IH) blast+
    moreover have "spec_next (Bytes c) (events, f, pend) = Inr (events @ new, f1, pend1)"
      using Inr r by (simp add: spec_next_def)
    ultimately show ?thesis using Inr r
      by (auto simp: split bind_result_def split: sum.splits prod.splits)
  qed
qed

lemma new_parser_ok:
  assumes "new_parser ml me = Inr p"
  shows "parser_ok p" and "pending p = []" and "sf_data (sp_fields p) = []" and "sf_data_size (sp_fields p) = 0"
    and "0 < sf_max_line_size (sp_fields p)" and "0 < sf_max_event_size (sp_fields p)"
    and "sf_decoder (sp_fields p) = []" and "sf_at_stream_start (sp_fields p)"
  using assms by (auto simp: new_parser_def parser_ok_def pending_def Let_def split: if_splits)

section \<open>Sizes\<close>

definition sizes_ok :: "sse_fields \<Rightarrow> bool" where
  "sizes_ok f \<longleftrightarrow> sf_data_size f = length (join [LF] (sf_data f)) \<and> int (sf_data_size f) \<le> sf_max_event_size f"

definition events_ok :: "sse_fields \<Rightarrow> sse_event list \<Rightarrow> bool" where
  "events_ok f events \<longleftrightarrow> (\<forall>e\<in>set events. int (length (ev_data e)) \<le> sf_max_event_size f)"

lemma length_join_snoc: "length (join [sep] (xs @ [v])) = length (join [sep] xs) + length v + (if xs = [] then 0 else 1)"
  by (induction xs rule: induct_list012) auto

lemma parse_line_sizes:
  assumes "parse_line l f = Inr f'" and "sizes_ok f"
  shows "sizes_ok f' \<and> sf_max_event_size f' = sf_max_event_size f"
  using assms
  by (auto simp: parse_line_def sizes_ok_def Let_def length_join_snoc bind_result_eq_Inr split: if_splits prod.splits)

lemma handle_line_sizes:
  assumes "handle_line l (events, f) = Inr (events', f')" and "sizes_ok f" and "0 \<le> sf_max_event_size f" and "events_ok f events"
  shows "sizes_ok f' \<and> events_ok f' events' \<and> sf_max_event_size f' = sf_max_event_size f"
proof (cases "l = []")
  case True
  then show ?thesis using assms by (auto simp: handle_line_def dispatch_def sizes_ok_def events_ok_def split: if_splits)
next
  case False
  then have "parse_line l f = Inr f'" "events' = events" using assms(1) by (auto simp: handle_line_def bind_result_eq_Inr)
  then show ?thesis using parse_line_sizes [of l f f'] assms(2,4) by (simp add: events_ok_def)
qed

lemma handle_lines_sizes:
  assumes "fold_result handle_line ls (events, f) = Inr (events', f')" and "sizes_ok f" and "0 \<le> sf_max_event_size f"
    and "events_ok f events"
  shows "sizes_ok f' \<and> events_ok f' events' \<and> sf_max_event_size f' = sf_max_event_size f"
  using assms
proof (induction ls arbitrary: events f)
  case (Cons l ls)
  then obtain events1 f1 where one: "handle_line l (events, f) = Inr (events1, f1)"
    and rest: "fold_result handle_line ls (events1, f1) = Inr (events', f')" by (auto simp: bind_result_eq_Inr)
  from handle_line_sizes [OF one] Cons.prems Cons.IH [OF rest] show ?case by simp
qed simp

text \<open>What a parser holds between two calls is within the limits.\<close>

definition within_limits :: "sse_event list \<times> sse_parser \<Rightarrow> bool" where
  "within_limits = (\<lambda>(events, p). parser_ok p \<and> 0 < sf_max_event_size (sp_fields p) \<and> sizes_ok (sp_fields p)
     \<and> events_ok (sp_fields p) events \<and> int (length (pending p)) \<le> sf_max_line_size (sp_fields p))"

lemma sse_decode_limits:
  "sse_decode c f = (s, f') \<Longrightarrow> sizes_ok f' = sizes_ok f \<and> sf_max_event_size f' = sf_max_event_size f
    \<and> sf_max_line_size f' = sf_max_line_size f"
  by (auto simp: sse_decode_def strip_bom_def sizes_ok_def split: sse_chunk.splits prod.splits if_splits)

lemma feed_within_limits:
  assumes "within_limits (events, p)" and "feed_next c (events, p) = Inr (events', p')"
  shows "within_limits (events', p')"
proof -
  have ok: "parser_ok p" "0 < sf_max_event_size (sp_fields p)" "sizes_ok (sp_fields p)" "events_ok (sp_fields p) events"
    "int (length (pending p)) \<le> sf_max_line_size (sp_fields p)" using assms(1) by (auto simp: within_limits_def)
  obtain new where feed: "sse_feed c p = Inr (new, p')" and events': "events' = events @ new"
    using assms(2) by (auto simp: feed_next_def bind_result_eq_Inr)
  then have spec: "spec_feed c (sp_fields p, pending p) = Inr (new, sp_fields p', pending p')" and ok': "parser_ok p'"
    using sse_feed_spec [OF ok(1), of c] by (simp_all add: abs_parser_def)
  obtain s f1 where dec: "sse_decode c (sp_fields p) = (s, f1)" by fastforce
  note limits = sse_decode_limits [OF dec]
  show ?thesis
  proof (cases "s = []")
    case True
    then show ?thesis using spec dec limits ok ok' events' by (auto simp: spec_feed_def within_limits_def events_ok_def)
  next
    case False
    let ?ls = "lines_of (pending p @ s)"
    have fold: "fold_result handle_line (fst ?ls) ([], f1) = Inr (new, sp_fields p')"
      and "int (length (pending p')) \<le> sf_max_line_size (sp_fields p')"
      using spec dec False by (auto simp: spec_feed_def bind_result_eq_Inr check_line_size_def case_prod_beta split: if_splits)
    moreover from handle_lines_sizes [OF fold] limits ok(2,3)
    have "sizes_ok (sp_fields p') \<and> events_ok (sp_fields p') new \<and> sf_max_event_size (sp_fields p') = sf_max_event_size (sp_fields p)"
      by (auto simp: events_ok_def)
    ultimately show ?thesis using ok ok' events' by (auto simp: within_limits_def events_ok_def)
  qed
qed

section \<open>Properties\<close>

text \<open>
  C29: the parser refines its specification. From a state whose positions are in order, \<open>feed\<close>
  returns the events and leaves the fields and pending text that the specification on the
  pending text gives, raises exactly when it raises, and keeps the positions in order;
  \<open>finish\<close> returns the specified last events.
\<close>

theorem parser_refines_spec:
  assumes "parser_ok p"
  shows "map_sum id (\<lambda>(events, p'). (events, abs_parser p')) (sse_feed chunk p) = spec_feed chunk (abs_parser p)
    \<and> (\<forall>events p'. sse_feed chunk p = Inr (events, p') \<longrightarrow> parser_ok p')
    \<and> bind_result (sse_finish p) (\<lambda>(events, _). Inr events) = spec_finish (abs_parser p)"
  using sse_feed_spec [OF assms, of chunk] sse_finish_spec [OF assms] by (auto split: sum.splits)

definition demo_parser :: sse_parser where
  "demo_parser = (case new_parser (Some 20) (Some 20) of Inr p \<Rightarrow> p | Inl _ \<Rightarrow> undefined)"

lemma demo_parser_new: "new_parser (Some 20) (Some 20) = Inr demo_parser"
  by (simp add: demo_parser_def new_parser_def)

theorem parser_refines_spec_witness:
  "map_sum id (\<lambda>(events, p'). (events, abs_parser p')) (sse_feed (Str (ascii ''data: hi'' @ [CR])) demo_parser)
     = spec_feed (Str (ascii ''data: hi'' @ [CR])) (abs_parser demo_parser)"
  using parser_refines_spec [OF new_parser_ok(1) [OF demo_parser_new], of "Str (ascii ''data: hi'' @ [CR])"] by simp

text \<open>
  C30: the events do not depend on how the stream was cut. However a byte stream is split into
  chunks, even inside a character or between CR and LF, \<open>parse_sse\<close> answers what it answers
  for the stream in one piece, errors included, as long as the complete lines are shorter than the
  line limit and the last line is within it.
\<close>

theorem chunks_do_not_matter:
  assumes "new_parser max_line_size max_event_size = Inr p"
    and "short_lines (sf_max_line_size (sp_fields p)) (fst (sse_decode (Bytes (concat chunks)) (sp_fields p)))"
  shows "parse_with p (map Bytes chunks) = parse_with p [Bytes (concat chunks)]"
proof -
  note ok = new_parser_ok [OF assms(1)]
  have dec: "fst (sse_decode (Bytes bs) (sp_fields p)) = fst (decode_stream bs (sf_decoder (sp_fields p), sf_at_stream_start (sp_fields p)))" for bs
    by (simp add: sse_decode_Bytes split: prod.splits)
  have "fold_result spec_next (map Bytes cs) ([], sp_fields p, []) = bind_result (spec_feed (Bytes (concat cs)) (sp_fields p, [])) (\<lambda>(new, st). Inr ([] @ new, st))"
    if "concat cs = concat chunks" for cs
    using assms(2) ok(5) that by (intro spec_chunks) (simp_all add: dec)
  from this [of chunks] this [of "[concat chunks]"] show ?thesis
    by (simp add: parse_with_spec [OF ok(1)] abs_parser_def ok(2))
qed

definition demo_chunks :: "bytes list" where
  "demo_chunks = [[0xEF, 0xBB], [0xBF] @ ascii ''data'', ascii '': '' @ [0xC3], [0xA9, CR], [LF, CR], [LF]]"

theorem chunks_do_not_matter_witness:
  "parse_with demo_parser (map Bytes demo_chunks) = parse_with demo_parser [Bytes (concat demo_chunks)]
   \<and> parse_with demo_parser [Bytes (concat demo_chunks)] = Inr [\<lparr>ev_data = [0xE9], ev_event = None, ev_event_id = None, ev_retry = None\<rparr>]"
proof -
  have "short_lines (sf_max_line_size (sp_fields demo_parser)) (fst (sse_decode (Bytes (concat demo_chunks)) (sp_fields demo_parser)))"
    by code_simp
  moreover have "parse_with demo_parser [Bytes (concat demo_chunks)] = Inr [\<lparr>ev_data = [0xE9], ev_event = None, ev_event_id = None, ev_retry = None\<rparr>]"
    by code_simp
  ultimately show ?thesis using chunks_do_not_matter [OF demo_parser_new, of demo_chunks] by simp
qed

text \<open>
  C31: memory stays bounded. Whatever was fed to a new parser, text or bytes, every event it
  returned and the event it is collecting hold at most \<open>max_event_size\<close> characters, and the
  unfinished line at most \<open>max_line_size\<close>.
\<close>

theorem parser_is_bounded:
  assumes "new_parser max_line_size max_event_size = Inr p" and "fold_result feed_next chunks ([], p) = Inr (events, p')"
  shows "(\<forall>e\<in>set events. int (length (ev_data e)) \<le> sf_max_event_size (sp_fields p'))
    \<and> int (length (join [LF] (sf_data (sp_fields p')))) \<le> sf_max_event_size (sp_fields p')
    \<and> int (length (pending p')) \<le> sf_max_line_size (sp_fields p')"
proof -
  have "within_limits ([], p)"
    using new_parser_ok [OF assms(1)] by (simp add: within_limits_def sizes_ok_def events_ok_def)
  then have "within_limits (events, p')"
    by (rule fold_result_invariant [OF assms(2)]) (use feed_within_limits in \<open>auto\<close>)
  then show ?thesis by (auto simp: within_limits_def sizes_ok_def events_ok_def)
qed

theorem parser_is_bounded_witness:
  "\<exists>events p'. fold_result feed_next [Str (ascii ''data: hi'' @ [LF, LF])] ([], demo_parser) = Inr (events, p')
     \<and> (\<forall>e\<in>set events. int (length (ev_data e)) \<le> sf_max_event_size (sp_fields p'))"
proof -
  have "\<not> isl (fold_result feed_next [Str (ascii ''data: hi'' @ [LF, LF])] ([], demo_parser))" by code_simp
  then obtain events p' where "fold_result feed_next [Str (ascii ''data: hi'' @ [LF, LF])] ([], demo_parser) = Inr (events, p')"
    by (cases "fold_result feed_next [Str (ascii ''data: hi'' @ [LF, LF])] ([], demo_parser)") auto
  then show ?thesis using parser_is_bounded [OF demo_parser_new] by blast
qed

text \<open>A chunk that brings one line to a parser between lines.\<close>

lemma feed_one_line:
  assumes "parser_ok p" and "pending p = []" and "sse_decode chunk (sp_fields p) = (line @ ending, f)"
    and "ending = [LF] \<or> ending = [CR, LF]" and "line \<noteq> []" and "\<forall>c\<in>set line. c \<noteq> CR \<and> c \<noteq> LF"
    and "int (length line) \<le> sf_max_line_size (sp_fields p)"
  shows "map_sum id (\<lambda>(events, p'). (events, abs_parser p')) (sse_feed chunk p)
    = bind_result (parse_line line f) (\<lambda>f'. Inr ([], f', []))"
proof -
  have limit: "sf_max_line_size f = sf_max_line_size (sp_fields p)" using sse_decode_limits [OF assms(3)] by simp
  have "next_line (line @ ending) = Some (line, [])" using next_line_plain [OF assms(6), of ending] assms(4) by auto
  then have lines: "lines_of (line @ ending) = ([line], [])" by (simp add: lines_of.simps [of "line @ ending"] lines_of.simps [of "[]"])
  have keep: "sf_max_line_size f' = sf_max_line_size f" if "parse_line line f = Inr f'" for f'
    using handle_line_keeps [of line "[]" f "[]" f'] that assms(5,7) limit by (simp add: handle_line_def check_line_size_def)
  have "spec_feed chunk (abs_parser p) = bind_result (parse_line line f) (\<lambda>f'. Inr ([], f', []))"
  proof -
    have short: "check_line_size line f = Inr ()" using assms(7) limit by (simp add: check_line_size_def)
    have none: "check_line_size [] f' = Inr ()" if "parse_line line f = Inr f'" for f'
      using keep [OF that] assms(7) limit by (simp add: check_line_size_def)
    have "spec_feed chunk (abs_parser p) = bind_result (fold_result handle_line [line] ([], f)) (\<lambda>(events, f2).
        bind_result (check_line_size [] f2) (\<lambda>_. Inr (events, f2, [])))"
      using assms(2,3,5) lines by (simp add: spec_feed_def abs_parser_def)
    then show ?thesis using short none assms(5) by (cases "parse_line line f") (simp_all add: handle_line_def)
  qed
  then show ?thesis using sse_feed_spec [OF assms(1), of chunk] by (auto split: sum.splits)
qed

text \<open>
  C32: a line at the limit is refused or not depending on where the stream was cut. The CR that
  may begin a CRLF is counted with the pending line. So to any parser between two lines, bring
  a line of exactly \<open>max_line_size\<close> characters: when the chunk ends right after its CR, \<open>feed\<close>
  raises the line limit error; when the same chunk goes on with LF, the limit does not matter
  and the line is parsed like every other.
\<close>

theorem limit_depends_on_chunks:
  assumes "parser_ok p" and "pending p = []" and "line \<noteq> []" and "\<forall>c\<in>set line. c \<noteq> CR \<and> c \<noteq> LF"
    and "int (length line) = sf_max_line_size (sp_fields p)"
    and "sse_decode cut_chunk (sp_fields p) = (line @ [CR], f1)" and "sse_decode whole_chunk (sp_fields p) = (line @ [CR, LF], f2)"
  shows "sse_feed cut_chunk p = Inl (line_too_long (sf_max_line_size (sp_fields p)))
    \<and> map_sum id (\<lambda>(events, p'). (events, abs_parser p')) (sse_feed whole_chunk p)
        = bind_result (parse_line line f2) (\<lambda>f'. Inr ([], f', []))"
proof
  have "next_line (line @ [CR]) = None" using next_line_plain [OF assms(4), of "[CR]"] by simp
  then have "lines_of (line @ [CR]) = ([], line @ [CR])" by (simp add: lines_of.simps [of "line @ [CR]"])
  then have "spec_feed cut_chunk (abs_parser p) = Inl (line_too_long (sf_max_line_size (sp_fields p)))"
    using assms(2,5,6) sse_decode_limits [OF assms(6)] by (simp add: spec_feed_def abs_parser_def check_line_size_def)
  then show "sse_feed cut_chunk p = Inl (line_too_long (sf_max_line_size (sp_fields p)))"
    using sse_feed_spec [OF assms(1), of cut_chunk] by (auto split: sum.splits)
  show "map_sum id (\<lambda>(events, p'). (events, abs_parser p')) (sse_feed whole_chunk p)
      = bind_result (parse_line line f2) (\<lambda>f'. Inr ([], f', []))"
    by (rule feed_one_line [OF assms(1,2,7) _ assms(3,4)]) (use assms(5) in simp_all)
qed

definition demo_line :: utext where
  "demo_line = ascii ''data: 12345678901234''"

theorem limit_depends_on_chunks_witness:
  "sse_feed (Bytes (demo_line @ [CR])) demo_parser = Inl (line_too_long 20)
   \<and> map_sum id (\<lambda>(events, p'). (events, abs_parser p')) (sse_feed (Bytes (demo_line @ [CR, LF])) demo_parser)
       = bind_result (parse_line demo_line (snd (sse_decode (Bytes (demo_line @ [CR, LF])) (sp_fields demo_parser)))) (\<lambda>f'. Inr ([], f', []))"
proof -
  have dec: "sse_decode (Bytes (demo_line @ e)) (sp_fields demo_parser)
      = (demo_line @ e, snd (sse_decode (Bytes (demo_line @ e)) (sp_fields demo_parser)))" if "e = [CR] \<or> e = [CR, LF]" for e
  proof -
    have "fst (sse_decode (Bytes (demo_line @ [CR])) (sp_fields demo_parser)) = demo_line @ [CR]"
      "fst (sse_decode (Bytes (demo_line @ [CR, LF])) (sp_fields demo_parser)) = demo_line @ [CR, LF]" by code_simp+
    with that show ?thesis by (auto intro: prod_eqI)
  qed
  have "demo_line \<noteq> [] \<and> list_all (\<lambda>c. c \<noteq> CR \<and> c \<noteq> LF) demo_line \<and> length demo_line = 20"
    "sf_max_line_size (sp_fields demo_parser) = 20" by code_simp+
  then show ?thesis
    using limit_depends_on_chunks [OF new_parser_ok(1,2) [OF demo_parser_new], of demo_line, OF _ _ _ dec dec]
    by (simp add: list_all_iff)
qed

lemma digits_plain:
  assumes "py_isdigit v"
  shows "\<forall>c\<in>set v. c \<noteq> CR \<and> c \<noteq> LF \<and> c \<noteq> 32" and "v \<noteq> []"
proof -
  have "\<not> is_digit_char CR" "\<not> is_digit_char LF" "\<not> is_digit_char 32" by code_simp+
  then show "\<forall>c\<in>set v. c \<noteq> CR \<and> c \<noteq> LF \<and> c \<noteq> 32" using assms by (auto simp: py_isdigit_def list_all_iff)
  show "v \<noteq> []" using assms by (simp add: py_isdigit_def)
qed

lemma parse_retry_line:
  assumes "pad = [] \<or> pad = [32]" and "py_isdigit v"
  shows "parse_line (ascii ''retry:'' @ pad @ v) f = bind_result (py_int_of_digits v) (\<lambda>n. Inr (f\<lparr>sf_retry := Some n\<rparr>))"
proof -
  have "hd v \<noteq> 32" "v \<noteq> []" using digits_plain [OF assms(2)] by auto
  then have "field_and_value (ascii ''retry:'' @ pad @ v) = (ascii ''retry'', v)"
    using assms(1) by (auto simp: field_and_value_def ascii_def)
  moreover have "hd (ascii ''retry:'' @ pad @ v) \<noteq> of_char CHR '':''" by (simp add: ascii_def)
  ultimately show ?thesis using assms(2) by (simp add: parse_line_def ascii_def)
qed

text \<open>
  C33: what a reconnection time of digits does. To any parser between two lines, bring a \<open>retry\<close>
  line within the limit whose value passes \<open>str.isdigit\<close>. When every character is a decimal
  digit and there are at most 4300, the time is stored. Otherwise \<open>feed\<close> raises a plain
  \<open>ValueError\<close>: \<open>isdigit\<close> accepts digits that \<open>int\<close> refuses, such as a superscript two, so the line
  is neither ignored nor reported as a stream over its limits.
\<close>

theorem malformed_retry_raises:
  assumes "parser_ok p" and "pending p = []" and "pad = [] \<or> pad = [32]" and "py_isdigit v"
    and "sse_decode chunk (sp_fields p) = (ascii ''retry:'' @ pad @ v @ [LF], f)"
    and "int (length (ascii ''retry:'' @ pad @ v)) \<le> sf_max_line_size (sp_fields p)"
  shows "(if list_all (\<lambda>c. decimal_value c \<noteq> None) v \<and> length v \<le> 4300
      then \<exists>p'. sse_feed chunk p = Inr ([], p')
             \<and> sf_retry (sp_fields p') = Some (fold (\<lambda>c n. n * 10 + the (decimal_value c)) v 0)
      else \<exists>message. sse_feed chunk p = Inl (ValueError message))"
proof -
  have "\<forall>c\<in>set (ascii ''retry:'' @ pad @ v). c \<noteq> CR \<and> c \<noteq> LF"
    using digits_plain(1) [OF assms(4)] assms(3) by (auto simp: ascii_def)
  moreover have "sse_decode chunk (sp_fields p) = ((ascii ''retry:'' @ pad @ v) @ [LF], f)" using assms(5) by simp
  ultimately have "map_sum id (\<lambda>(events, p'). (events, abs_parser p')) (sse_feed chunk p)
      = bind_result (parse_line (ascii ''retry:'' @ pad @ v) f) (\<lambda>f'. Inr ([], f', []))"
    using assms(6) by (intro feed_one_line [OF assms(1,2)]) (auto simp: ascii_def)
  then have fed: "map_sum id (\<lambda>(events, p'). (events, abs_parser p')) (sse_feed chunk p)
      = bind_result (py_int_of_digits v) (\<lambda>n. Inr ([], f\<lparr>sf_retry := Some n\<rparr>, []))"
    by (simp add: parse_retry_line [OF assms(3,4)] bind_result_def split: sum.splits)
  show ?thesis
    using fed by (cases "sse_feed chunk p") (auto simp: py_int_of_digits_def abs_parser_def split: if_splits)
qed

theorem malformed_retry_raises_witness:
  "\<exists>message. sse_feed (Str (ascii ''retry: 1'' @ [178, LF])) demo_parser = Inl (ValueError message)"
proof -
  obtain f where dec: "sse_decode (Str (ascii ''retry:'' @ [32] @ [49, 178] @ [LF])) (sp_fields demo_parser)
      = (ascii ''retry:'' @ [32] @ [49, 178] @ [LF], f)"
  proof -
    have "fst (sse_decode (Str (ascii ''retry:'' @ [32] @ [49, 178] @ [LF])) (sp_fields demo_parser))
        = ascii ''retry:'' @ [32] @ [49, 178] @ [LF]" by code_simp
    then show ?thesis using that by (metis prod.collapse)
  qed
  have "py_isdigit [49, 178]" "decimal_value 178 = None" "sf_max_line_size (sp_fields demo_parser) = 20" by code_simp+
  with malformed_retry_raises [OF new_parser_ok(1,2) [OF demo_parser_new] _ _ dec] show ?thesis by (simp add: ascii_def)
qed

end
