(* ===== verification/Generations.thy ===== *)
theory Generations
  imports Prelude "HOL-Library.Code_Target_Nat"
begin

text \<open>
  Runtime generations (\<open>src/modules/agents/runtime_generations.py\<close>): the processes of one runtime
  unit across launch changes. Generations are objects the code shares by reference, so the
  state holds them in a store indexed by their serial; a binding is the index of its record.
  Every method runs to its next await in one synchronous step. The reconciler task is the
  program counter \<open>rs_reconciler\<close>: not running, created, or awaiting the stop of a generation; a
  step resumes it with the outcome of the stop. A start in flight holds the start lock. The
  interleavings of all the methods with the reconciler are the step relation \<open>gen_step\<close>.
\<close>

section \<open>State\<close>

record generation =
  g_digest :: string
  g_runtime :: nat
  g_retiring :: bool
  g_stopped :: bool
  g_bindings :: int
  g_closed :: bool
  g_deferred :: bool
  g_failed :: bool

record runtime_binding =
  b_generation :: nat
  b_released :: bool

datatype reconciler = NotRunning | Created | Awaiting nat bool nat

datatype stop_outcome = StopDone | StopDeclined | StopFailed | StopCancelled

record runtime_set =
  rs_cap :: int
  rs_gens :: "nat \<Rightarrow> generation"
  rs_bindings :: "runtime_binding list"
  rs_next_serial :: nat
  rs_starting :: "string option"
  rs_current :: "nat option"
  rs_retiring :: "nat list"
  rs_stopping :: bool
  rs_force_all :: bool
  rs_reconciler :: reconciler
  rs_tried_forced :: "nat set"
  rs_tried_graceful :: "nat set"
  rs_retry_requests :: nat

definition DEFAULT_GENERATION_CAP :: int where
  "DEFAULT_GENERATION_CAP = 3"

definition new_generation :: "string \<Rightarrow> nat \<Rightarrow> generation" where
  "new_generation digest runtime =
     \<lparr>g_digest = digest, g_runtime = runtime, g_retiring = False, g_stopped = False, g_bindings = 0,
      g_closed = False, g_deferred = False, g_failed = False\<rparr>"

definition new_set :: "int \<Rightarrow> runtime_set result" where
  "new_set cap =
     (if cap < 2 then Inl (ValueError ''a runtime unit needs room for a current and a retiring generation'')
      else Inr \<lparr>rs_cap = cap, rs_gens = (\<lambda>_. new_generation [] 0), rs_bindings = [], rs_next_serial = 1, rs_starting = None,
                rs_current = None, rs_retiring = [], rs_stopping = False, rs_force_all = False,
                rs_reconciler = NotRunning, rs_tried_forced = {}, rs_tried_graceful = {}, rs_retry_requests = 0\<rparr>)"

definition unit_stopping :: py_error where
  "unit_stopping = RuntimeError ''runtime unit is stopping''"

definition upd_gen :: "nat \<Rightarrow> (generation \<Rightarrow> generation) \<Rightarrow> runtime_set \<Rightarrow> runtime_set" where
  "upd_gen g f s = s\<lparr>rs_gens := (rs_gens s)(g := f (rs_gens s g))\<rparr>"

definition generations :: "runtime_set \<Rightarrow> nat list" where
  "generations s = rs_retiring s @ (case rs_current s of None \<Rightarrow> [] | Some c \<Rightarrow> [c])"

section \<open>Bookkeeping\<close>

definition admitting :: "runtime_set \<Rightarrow> unit result" where
  "admitting s = (if rs_stopping s then Inl unit_stopping else Inr ())"

definition kick :: "runtime_set \<Rightarrow> runtime_set" where
  "kick s = (if rs_reconciler s = NotRunning then s\<lparr>rs_reconciler := Created\<rparr> else s)"

definition add_retiring :: "nat \<Rightarrow> runtime_set \<Rightarrow> runtime_set" where
  "add_retiring g s = (upd_gen g (\<lambda>r. r\<lparr>g_retiring := True\<rparr>) s)\<lparr>rs_retiring := sort (rs_retiring s @ [g])\<rparr>"

definition detach :: "nat \<Rightarrow> runtime_set \<Rightarrow> runtime_set" where
  "detach g s =
     upd_gen g (\<lambda>r. r\<lparr>g_retiring := False, g_stopped := True\<rparr>)
       (s\<lparr>rs_retiring := remove1 g (rs_retiring s), rs_current := (if rs_current s = Some g then None else rs_current s)\<rparr>)"

definition bind_to :: "nat \<Rightarrow> runtime_set \<Rightarrow> nat \<times> runtime_set" where
  "bind_to g s =
     (length (rs_bindings s),
      (upd_gen g (\<lambda>r. r\<lparr>g_bindings := g_bindings r + 1\<rparr>) s)
        \<lparr>rs_bindings := rs_bindings s @ [\<lparr>b_generation = g, b_released = False\<rparr>]\<rparr>)"

definition install_current :: "nat \<Rightarrow> runtime_set \<Rightarrow> runtime_set" where
  "install_current g s =
     (let s1 = s\<lparr>rs_current := Some g\<rparr>;
          s2 = (case rs_current s of None \<Rightarrow> s1 | Some previous \<Rightarrow> if previous \<noteq> g then add_retiring previous s1 else s1) in
      kick s2)"

text \<open>A live retiring generation that serves again.\<close>

definition promote :: "nat \<Rightarrow> runtime_set \<Rightarrow> runtime_set" where
  "promote g s =
     install_current g (upd_gen g (\<lambda>r. r\<lparr>g_retiring := False, g_deferred := False\<rparr>)
       (s\<lparr>rs_retiring := remove1 g (rs_retiring s)\<rparr>))"

definition serves :: "string \<Rightarrow> runtime_set \<Rightarrow> nat \<Rightarrow> bool" where
  "serves digest s g \<longleftrightarrow> g_digest (rs_gens s g) = digest \<and> \<not> g_closed (rs_gens s g)"

definition bind_serving :: "string \<Rightarrow> runtime_set \<Rightarrow> (nat option \<times> runtime_set) result" where
  "bind_serving digest s =
     bind_result (admitting s) (\<lambda>_.
       case (case rs_current s of None \<Rightarrow> None | Some c \<Rightarrow> if g_digest (rs_gens s c) = digest then Some c else None) of
         Some c \<Rightarrow> (case bind_to c s of (b, s') \<Rightarrow> Inr (Some b, s'))
       | None \<Rightarrow>
          (case find (serves digest s) (rev (rs_retiring s)) of
             None \<Rightarrow> Inr (None, s)
           | Some g \<Rightarrow> (case bind_to g (promote g s) of (b, s') \<Rightarrow> Inr (Some b, s'))))"

definition new_serial :: "string \<Rightarrow> nat \<Rightarrow> runtime_set \<Rightarrow> nat \<times> runtime_set" where
  "new_serial digest runtime s =
     (rs_next_serial s,
      s\<lparr>rs_gens := (rs_gens s)(rs_next_serial s := new_generation digest runtime), rs_next_serial := rs_next_serial s + 1\<rparr>)"

definition request_retry :: "runtime_set \<Rightarrow> runtime_set" where
  "request_retry s =
     s\<lparr>rs_retry_requests := rs_retry_requests s + 1, rs_tried_forced := {}, rs_tried_graceful := {},
       rs_gens := (\<lambda>g. if g \<in> set (rs_retiring s) then (rs_gens s g)\<lparr>g_deferred := False, g_failed := False\<rparr> else rs_gens s g)\<rparr>"

section \<open>The methods\<close>

text \<open>
  \<open>acquire\<close> in its three synchronous parts: serving from a live generation (before and after
  the start lock is taken), beginning a start, and what follows a start that returned.
\<close>

definition acquire_begin :: "string \<Rightarrow> runtime_set \<Rightarrow> (nat option \<times> runtime_set) result" where
  "acquire_begin digest s =
     bind_result (bind_serving digest s) (\<lambda>(binding, s').
       case binding of Some b \<Rightarrow> Inr (Some b, s') | None \<Rightarrow> Inr (None, s'\<lparr>rs_starting := Some digest\<rparr>))"

definition acquire_started :: "string \<Rightarrow> nat \<Rightarrow> runtime_set \<Rightarrow> nat result \<times> runtime_set" where
  "acquire_started digest runtime s =
     (case new_serial digest runtime (s\<lparr>rs_starting := None\<rparr>) of (g, s1) \<Rightarrow>
        if rs_stopping s1
        then (Inl unit_stopping, kick (add_retiring g (upd_gen g (\<lambda>r. r\<lparr>g_closed := True\<rparr>) s1)))
        else (case bind_to g (install_current g s1) of (b, s2) \<Rightarrow> (Inr b, s2)))"

definition bind_generation :: "nat \<Rightarrow> runtime_set \<Rightarrow> (nat \<times> runtime_set) result" where
  "bind_generation g s =
     bind_result (admitting s) (\<lambda>_.
       if g_stopped (rs_gens s g) then Inl (RuntimeError ''cannot bind work to a stopped runtime generation'')
       else Inr (bind_to g s))"

definition adopt :: "string \<Rightarrow> nat \<Rightarrow> bool \<Rightarrow> runtime_set \<Rightarrow> (nat \<times> runtime_set) result" where
  "adopt digest runtime current s =
     bind_result (admitting s) (\<lambda>_.
       case new_serial digest runtime s of (g, s1) \<Rightarrow>
         Inr (g, if current then install_current g s1 else kick (add_retiring g s1)))"

definition retire :: "nat \<Rightarrow> runtime_set \<Rightarrow> runtime_set" where
  "retire g s =
     (if g_stopped (rs_gens s g) then s
      else
        let s1 = upd_gen g (\<lambda>r. r\<lparr>g_closed := True\<rparr>) s;
            s2 = (if rs_current s1 = Some g then s1\<lparr>rs_current := None\<rparr> else s1);
            s3 = (if g \<notin> set (rs_retiring s2) then add_retiring g s2 else s2) in
        kick s3)"

definition retire_current :: "runtime_set \<Rightarrow> runtime_set" where
  "retire_current s = (case rs_current s of None \<Rightarrow> s | Some c \<Rightarrow> retire c s)"

definition discard :: "nat \<Rightarrow> runtime_set \<Rightarrow> runtime_set" where
  "discard g s = detach g s"

definition reap :: "runtime_set \<Rightarrow> runtime_set" where
  "reap s = kick (request_retry s)"

fun close_each :: "nat list \<Rightarrow> runtime_set \<Rightarrow> runtime_set" where
  "close_each [] s = s"
| "close_each (g # gs) s =
     (let s1 = upd_gen g (\<lambda>r. r\<lparr>g_closed := True\<rparr>) s in
      close_each gs (if rs_current s1 = Some g then add_retiring g (s1\<lparr>rs_current := None\<rparr>) else s1))"

text \<open>
  The synchronous part of \<open>stop_all\<close>. A stop that is under way stays with the running task, and a
  start that is under way still attaches its process later (\<open>acquire_started\<close>).
\<close>

definition stop_all :: "bool \<Rightarrow> runtime_set \<Rightarrow> runtime_set" where
  "stop_all force s =
     (let s1 = s\<lparr>rs_stopping := True, rs_force_all := rs_force_all s \<or> force\<rparr> in
      kick (request_retry (close_each (generations s1) s1)))"

definition release :: "nat \<Rightarrow> runtime_set \<Rightarrow> runtime_set" where
  "release b s =
     (if b_released (rs_bindings s ! b) then s
      else
        let g = b_generation (rs_bindings s ! b);
            s1 = upd_gen g (\<lambda>r. r\<lparr>g_bindings := g_bindings r - 1\<rparr>)
                   (s\<lparr>rs_bindings := (rs_bindings s)[b := (rs_bindings s ! b)\<lparr>b_released := True\<rparr>]\<rparr>) in
        if g_retiring (rs_gens s1 g) \<and> g_bindings (rs_gens s1 g) = 0
        then kick ((upd_gen g (\<lambda>r. r\<lparr>g_deferred := False\<rparr>) s1)\<lparr>rs_tried_graceful := rs_tried_graceful s1 - {g}\<rparr>)
        else s1)"

section \<open>The reconciler\<close>

definition next_victim :: "runtime_set \<Rightarrow> (nat \<times> bool) option" where
  "next_victim s =
     (let unforced = filter (\<lambda>g. g \<notin> rs_tried_forced s) (rs_retiring s) in
      if rs_force_all s \<and> unforced \<noteq> [] then Some (hd unforced, True)
      else if \<not> rs_stopping s
          \<and> int (length (rs_retiring s)) + (if rs_current s \<noteq> None then 1 else 0) > rs_cap s \<and> unforced \<noteq> []
        then Some (hd unforced, True)
      else map_option (\<lambda>g. (g, False))
        (find (\<lambda>g. g \<notin> rs_tried_graceful s \<and> g_bindings (rs_gens s g) = 0 \<and> \<not> g_deferred (rs_gens s g)
                    \<and> \<not> g_failed (rs_gens s g)) unforced))"

definition reattach :: "nat \<Rightarrow> bool \<Rightarrow> bool \<Rightarrow> runtime_set \<Rightarrow> runtime_set" where
  "reattach g failed retry s =
     (let s1 = upd_gen g (\<lambda>r. r\<lparr>g_stopped := False\<rparr>) s;
          s2 = (if failed then upd_gen g (\<lambda>r. r\<lparr>g_closed := True\<rparr>) s1 else s1);
          s3 = (if \<not> retry
                then if failed then upd_gen g (\<lambda>r. r\<lparr>g_failed := True\<rparr>) s2 else upd_gen g (\<lambda>r. r\<lparr>g_deferred := True\<rparr>) s2
                else s2) in
      if g \<notin> set (rs_retiring s3) then add_retiring g s3 else s3)"

text \<open>The loop head: choose a victim and call its stop, or end the task.\<close>

definition reconcile_next :: "runtime_set \<Rightarrow> runtime_set" where
  "reconcile_next s =
     (case next_victim s of
        None \<Rightarrow> s\<lparr>rs_reconciler := NotRunning\<rparr>
      | Some (g, force) \<Rightarrow>
         (detach g (if force then s\<lparr>rs_tried_forced := insert g (rs_tried_forced s)\<rparr>
                    else s\<lparr>rs_tried_graceful := insert g (rs_tried_graceful s)\<rparr>))
           \<lparr>rs_reconciler := Awaiting g force (rs_retry_requests s)\<rparr>)"

definition reconcile_begin :: "runtime_set \<Rightarrow> runtime_set" where
  "reconcile_begin s = reconcile_next (s\<lparr>rs_tried_forced := {}, rs_tried_graceful := {}\<rparr>)"

text \<open>What the loop does with the outcome of a stop, before it looks for the next victim.\<close>

definition settle_stop :: "stop_outcome \<Rightarrow> nat \<Rightarrow> bool \<Rightarrow> nat \<Rightarrow> runtime_set \<Rightarrow> runtime_set" where
  "settle_stop outcome g force requests s =
     (case outcome of
        StopCancelled \<Rightarrow> reattach g True False s
      | StopFailed \<Rightarrow> reattach g True (rs_retry_requests s \<noteq> requests) s
      | StopDeclined \<Rightarrow> reattach g force (rs_retry_requests s \<noteq> requests) s
      | StopDone \<Rightarrow> s)"

definition reconcile_resume :: "stop_outcome \<Rightarrow> runtime_set \<Rightarrow> runtime_set" where
  "reconcile_resume outcome s =
     (case rs_reconciler s of
        Awaiting g force requests \<Rightarrow>
          (let s1 = settle_stop outcome g force requests s in
           if outcome = StopCancelled then s1\<lparr>rs_reconciler := NotRunning\<rparr> else reconcile_next s1)
      | _ \<Rightarrow> s)"

section \<open>Interleavings\<close>

definition known :: "runtime_set \<Rightarrow> nat \<Rightarrow> bool" where
  "known s g \<longleftrightarrow> 1 \<le> g \<and> g < rs_next_serial s"

text \<open>
  The steps: every method up to its next await, a start that returns or fails, and the
  reconciler task, which begins, resumes with the outcome of the stop it awaits (a cancelled
  one included), or is cancelled before it first ran. Waiting changes nothing: what \<open>stop_all\<close>
  and \<open>reap\<close> do after their synchronous part is to wait for the start lock and for the task,
  and their later return is no step of the unit.
\<close>

inductive gen_step :: "runtime_set \<Rightarrow> runtime_set \<Rightarrow> bool" where
  serve: "bind_serving d s = Inr (Some b, s') \<Longrightarrow> gen_step s s'"
| start: "rs_starting s = None \<Longrightarrow> acquire_begin d s = Inr (b, s') \<Longrightarrow> gen_step s s'"
| started: "rs_starting s = Some d \<Longrightarrow> acquire_started d r s = (b, s') \<Longrightarrow> gen_step s s'"
| start_failed: "rs_starting s = Some d \<Longrightarrow> gen_step s (s\<lparr>rs_starting := None\<rparr>)"
| bind_known: "known s g \<Longrightarrow> bind_generation g s = Inr (b, s') \<Longrightarrow> gen_step s s'"
| adopted: "adopt d r c s = Inr (g, s') \<Longrightarrow> gen_step s s'"
| retired: "known s g \<Longrightarrow> gen_step s (retire g s)"
| retired_current: "gen_step s (retire_current s)"
| discarded: "known s g \<Longrightarrow> gen_step s (discard g s)"
| reaped: "gen_step s (reap s)"
| stopped_all: "gen_step s (stop_all force s)"
| released: "b < length (rs_bindings s) \<Longrightarrow> gen_step s (release b s)"
| reconciler_begins: "rs_reconciler s = Created \<Longrightarrow> gen_step s (reconcile_begin s)"
| reconciler_dropped: "rs_reconciler s = Created \<Longrightarrow> gen_step s (s\<lparr>rs_reconciler := NotRunning\<rparr>)"
| reconciler_resumes: "rs_reconciler s = Awaiting g force requests \<Longrightarrow> gen_step s (reconcile_resume outcome s)"

section \<open>The invariant\<close>

definition open_bindings :: "runtime_set \<Rightarrow> nat \<Rightarrow> nat" where
  "open_bindings s g = length (filter (\<lambda>b. b_generation b = g \<and> \<not> b_released b) (rs_bindings s))"

definition attached :: "runtime_set \<Rightarrow> nat \<Rightarrow> bool" where
  "attached s g \<longleftrightarrow> g \<in> set (rs_retiring s) \<or> rs_current s = Some g"

text \<open>Everything but the flags of the generations.\<close>

definition frame_ok :: "runtime_set \<Rightarrow> bool" where
  "frame_ok s \<longleftrightarrow>
     2 \<le> rs_cap s \<and> sorted (rs_retiring s) \<and> distinct (rs_retiring s) \<and> 1 \<le> rs_next_serial s
     \<and> (\<forall>g\<in>set (rs_retiring s). known s g)
     \<and> (\<forall>c. rs_current s = Some c \<longrightarrow> known s c \<and> c \<notin> set (rs_retiring s) \<and> \<not> g_closed (rs_gens s c) \<and> \<not> rs_stopping s)
     \<and> (\<forall>g. known s g \<longrightarrow> g_bindings (rs_gens s g) = int (open_bindings s g))
     \<and> (\<forall>b\<in>set (rs_bindings s). known s (b_generation b))
     \<and> (rs_force_all s \<longrightarrow> rs_stopping s)"

definition flags_ok :: "runtime_set \<Rightarrow> nat \<Rightarrow> bool" where
  "flags_ok s g \<longleftrightarrow> g_retiring (rs_gens s g) = (g \<in> set (rs_retiring s)) \<and> g_stopped (rs_gens s g) = (\<not> attached s g)"

definition awaiting_ok :: "runtime_set \<Rightarrow> bool" where
  "awaiting_ok s \<longleftrightarrow>
     (case rs_reconciler s of
        Awaiting g force requests \<Rightarrow> known s g \<and> \<not> attached s g \<and> requests \<le> rs_retry_requests s
          \<and> (force \<or> g_bindings (rs_gens s g) = 0)
      | _ \<Rightarrow> True)"

definition gen_inv :: "runtime_set \<Rightarrow> bool" where
  "gen_inv s \<longleftrightarrow> frame_ok s \<and> (\<forall>g. known s g \<longrightarrow> flags_ok s g) \<and> awaiting_ok s"

text \<open>The invariant with one known generation taken out of the lists.\<close>

definition inv_without :: "nat \<Rightarrow> runtime_set \<Rightarrow> bool" where
  "inv_without g s \<longleftrightarrow> frame_ok s \<and> known s g \<and> \<not> attached s g \<and> (\<forall>h. known s h \<longrightarrow> h \<noteq> g \<longrightarrow> flags_ok s h)
     \<and> (\<forall>h force n. rs_reconciler s = Awaiting h force n \<longrightarrow> h \<noteq> g) \<and> awaiting_ok s"

lemmas inv_defs = gen_inv_def frame_ok_def flags_ok_def awaiting_ok_def attached_def inv_without_def

lemma known_simps [simp]:
  "known (upd_gen g f s) h = known s h"
  "known (s\<lparr>rs_retiring := r\<rparr>) h = known s h"
  "known (s\<lparr>rs_current := c\<rparr>) h = known s h"
  "known (s\<lparr>rs_reconciler := p\<rparr>) h = known s h"
  "known (s\<lparr>rs_tried_forced := t\<rparr>) h = known s h"
  "known (s\<lparr>rs_tried_graceful := t\<rparr>) h = known s h"
  "known (s\<lparr>rs_starting := d\<rparr>) h = known s h"
  "known (s\<lparr>rs_bindings := bs\<rparr>) h = known s h"
  "known (s\<lparr>rs_gens := gs\<rparr>) h = known s h"
  by (simp_all add: known_def upd_gen_def)

lemma upd_gen_simps [simp]:
  "rs_gens (upd_gen g f s) = (rs_gens s)(g := f (rs_gens s g))"
  "rs_cap (upd_gen g f s) = rs_cap s" "rs_bindings (upd_gen g f s) = rs_bindings s"
  "rs_next_serial (upd_gen g f s) = rs_next_serial s" "rs_starting (upd_gen g f s) = rs_starting s"
  "rs_current (upd_gen g f s) = rs_current s" "rs_retiring (upd_gen g f s) = rs_retiring s"
  "rs_stopping (upd_gen g f s) = rs_stopping s" "rs_force_all (upd_gen g f s) = rs_force_all s"
  "rs_reconciler (upd_gen g f s) = rs_reconciler s" "rs_tried_forced (upd_gen g f s) = rs_tried_forced s"
  "rs_tried_graceful (upd_gen g f s) = rs_tried_graceful s" "rs_retry_requests (upd_gen g f s) = rs_retry_requests s"
  by (simp_all add: upd_gen_def)

lemma open_bindings_cong: "rs_bindings s = rs_bindings s' \<Longrightarrow> open_bindings s g = open_bindings s' g"
  by (simp add: open_bindings_def)

lemma gen_inv_upd:
  assumes "gen_inv s"
    and "g_retiring (f (rs_gens s g)) = g_retiring (rs_gens s g)" and "g_stopped (f (rs_gens s g)) = g_stopped (rs_gens s g)"
    and "g_bindings (f (rs_gens s g)) = g_bindings (rs_gens s g)"
    and "g_closed (f (rs_gens s g)) \<Longrightarrow> rs_current s \<noteq> Some g \<or> g_closed (rs_gens s g)"
  shows "gen_inv (upd_gen g f s)"
  using assms open_bindings_cong [of "upd_gen g f s" s]
  by (auto simp: inv_defs split: reconciler.splits)

lemma gen_inv_kick [simp]: "gen_inv (kick s) = gen_inv s"
  by (auto simp: kick_def inv_defs open_bindings_def known_def split: reconciler.splits)

lemma gen_inv_bookkeeping [simp]:
  "gen_inv (s\<lparr>rs_tried_forced := t\<rparr>) = gen_inv s"
  "gen_inv (s\<lparr>rs_tried_graceful := t\<rparr>) = gen_inv s"
  "gen_inv (s\<lparr>rs_starting := d\<rparr>) = gen_inv s"
  by (auto simp: inv_defs open_bindings_def known_def split: reconciler.splits)

lemma gen_inv_not_running: "gen_inv s \<Longrightarrow> gen_inv (s\<lparr>rs_reconciler := NotRunning\<rparr>)"
  by (auto simp: inv_defs open_bindings_def known_def split: reconciler.splits)

section \<open>Every operation keeps the invariant\<close>

lemma inv_without_upd:
  assumes "inv_without g s" and "g_bindings (f (rs_gens s g)) = g_bindings (rs_gens s g)"
  shows "inv_without g (upd_gen g f s)"
  using assms open_bindings_cong [of "upd_gen g f s" s] by (auto simp: inv_defs split: reconciler.splits)

lemma add_retiring_simps [simp]:
  "rs_gens (add_retiring g s) = (rs_gens s)(g := (rs_gens s g)\<lparr>g_retiring := True\<rparr>)"
  "rs_retiring (add_retiring g s) = sort (rs_retiring s @ [g])"
  "rs_current (add_retiring g s) = rs_current s" "rs_bindings (add_retiring g s) = rs_bindings s"
  "rs_stopping (add_retiring g s) = rs_stopping s" "rs_force_all (add_retiring g s) = rs_force_all s"
  "rs_reconciler (add_retiring g s) = rs_reconciler s" "rs_next_serial (add_retiring g s) = rs_next_serial s"
  "rs_cap (add_retiring g s) = rs_cap s" "rs_retry_requests (add_retiring g s) = rs_retry_requests s"
  "known (add_retiring g s) h = known s h" "open_bindings (add_retiring g s) h = open_bindings s h"
  by (simp_all add: add_retiring_def known_def open_bindings_def)

lemma add_retiring_inv:
  assumes "inv_without g s" and "\<not> g_stopped (rs_gens s g)"
  shows "gen_inv (add_retiring g s)"
  using assms by (auto simp: inv_defs split: reconciler.splits)

lemma set_current_inv:
  assumes "inv_without g s" and "rs_current s = None" and "\<not> g_stopped (rs_gens s g)" and "\<not> g_retiring (rs_gens s g)"
    and "\<not> g_closed (rs_gens s g)" and "\<not> rs_stopping s"
  shows "gen_inv (s\<lparr>rs_current := Some g\<rparr>)"
  using assms open_bindings_cong [of "s\<lparr>rs_current := Some g\<rparr>" s] by (auto simp: inv_defs split: reconciler.splits)

lemma without_current:
  assumes "gen_inv s" and "rs_current s = Some c"
  shows "inv_without c (s\<lparr>rs_current := None\<rparr>)"
  using assms open_bindings_cong [of "s\<lparr>rs_current := None\<rparr>" s] by (auto simp: inv_defs split: reconciler.splits)

lemma without_retiring:
  assumes "gen_inv s" and "g \<in> set (rs_retiring s)"
  shows "inv_without g (s\<lparr>rs_retiring := remove1 g (rs_retiring s)\<rparr>)"
  using assms open_bindings_cong [of "s\<lparr>rs_retiring := remove1 g (rs_retiring s)\<rparr>" s]
  by (auto simp: inv_defs sorted_remove1 set_remove1_eq split: reconciler.splits)

lemma inv_without_predecessor:
  assumes "inv_without g s" and "rs_current s = Some c"
  shows "inv_without g (add_retiring c (s\<lparr>rs_current := None\<rparr>))"
proof -
  have "open_bindings (s\<lparr>rs_current := None\<rparr>) h = open_bindings s h" for h by (simp add: open_bindings_def)
  with assms show ?thesis by (auto simp: inv_defs split: reconciler.splits)
qed

lemma install_current_inv:
  assumes "inv_without g s" and "\<not> g_stopped (rs_gens s g)" and "\<not> g_retiring (rs_gens s g)"
    and "\<not> g_closed (rs_gens s g)" and "\<not> rs_stopping s"
  shows "gen_inv (install_current g s)"
proof (cases "rs_current s")
  case None
  then show ?thesis using set_current_inv [OF assms(1) None assms(2-5)] by (simp add: install_current_def)
next
  case (Some c)
  have ne: "c \<noteq> g" using assms(1) Some by (auto simp: inv_without_def attached_def)
  have "add_retiring c (s\<lparr>rs_current := Some g\<rparr>) = (add_retiring c (s\<lparr>rs_current := None\<rparr>))\<lparr>rs_current := Some g\<rparr>"
    by (simp add: add_retiring_def upd_gen_def)
  moreover have "gen_inv ((add_retiring c (s\<lparr>rs_current := None\<rparr>))\<lparr>rs_current := Some g\<rparr>)"
    using assms ne by (intro set_current_inv [OF inv_without_predecessor [OF assms(1) Some]]) auto
  ultimately show ?thesis using Some ne by (simp add: install_current_def)
qed

lemma detach_inv:
  assumes "gen_inv s" and "known s g"
  shows "gen_inv (detach g s)"
proof -
  have "open_bindings (detach g s) h = open_bindings s h" for h by (simp add: detach_def open_bindings_def)
  moreover have "g \<notin> set (remove1 g (rs_retiring s))" using assms(1) by (simp add: gen_inv_def frame_ok_def set_remove1_eq)
  ultimately show ?thesis using assms
    by (auto simp: inv_defs detach_def sorted_remove1 set_remove1_eq split: reconciler.splits)
qed

lemma bind_to_inv:
  assumes "gen_inv s" and "attached s g" and "bind_to g s = (b, s')"
  shows "gen_inv s'"
proof -
  have s': "s' = (upd_gen g (\<lambda>r. r\<lparr>g_bindings := g_bindings r + 1\<rparr>) s)
      \<lparr>rs_bindings := rs_bindings s @ [\<lparr>b_generation = g, b_released = False\<rparr>]\<rparr>"
    using assms(3) by (simp add: bind_to_def)
  have "open_bindings s' h = open_bindings s h + (if h = g then 1 else 0)" for h by (simp add: s' open_bindings_def)
  then show ?thesis using assms(1,2) by (auto simp: inv_defs s' split: reconciler.splits)
qed

lemma new_serial_inv:
  assumes "gen_inv s" and "new_serial d r s = (g, s')"
  shows "inv_without g s'" and "rs_gens s' g = new_generation d r" and "rs_stopping s' = rs_stopping s"
proof -
  have s': "g = rs_next_serial s" "s' = s\<lparr>rs_gens := (rs_gens s)(rs_next_serial s := new_generation d r), rs_next_serial := rs_next_serial s + 1\<rparr>"
    using assms(2) by (auto simp: new_serial_def)
  have "open_bindings s (rs_next_serial s) = 0"
    using assms(1) by (auto simp: open_bindings_def gen_inv_def frame_ok_def known_def filter_empty_conv)
  moreover have "open_bindings s' h = open_bindings s h" for h by (simp add: s' open_bindings_def)
  moreover have "known s' h \<longleftrightarrow> known s h \<or> h = rs_next_serial s" for h
    using assms(1) by (auto simp: s' known_def gen_inv_def frame_ok_def)
  moreover have "\<not> known s (rs_next_serial s)" by (simp add: known_def)
  ultimately show "inv_without g s'" using assms(1)
    by (auto simp: inv_defs s' new_generation_def split: reconciler.splits)
  show "rs_gens s' g = new_generation d r" "rs_stopping s' = rs_stopping s" by (simp_all add: s')
qed

lemma length_filter_list_update:
  assumes "i < length xs" and "P (xs ! i)" and "\<not> P y"
  shows "length (filter P (xs[i := y])) + 1 = length (filter P xs)"
  using assms by (induction xs arbitrary: i) (auto split: nat.splits)

lemma filter_list_update_other:
  assumes "\<not> P (xs ! i)" and "\<not> P y" and "i < length xs"
  shows "filter P (xs[i := y]) = filter P xs"
  using assms by (induction xs arbitrary: i) (auto split: nat.splits)

lemma release_bindings_inv:
  assumes "gen_inv s" and "b < length (rs_bindings s)" and "\<not> b_released (rs_bindings s ! b)"
    and "g = b_generation (rs_bindings s ! b)"
  shows "gen_inv (upd_gen g (\<lambda>r. r\<lparr>g_bindings := g_bindings r - 1\<rparr>)
    (s\<lparr>rs_bindings := (rs_bindings s)[b := (rs_bindings s ! b)\<lparr>b_released := True\<rparr>]\<rparr>))" (is "gen_inv ?s'")
proof -
  have count: "int (open_bindings ?s' h) = int (open_bindings s h) - (if h = g then 1 else 0)" for h
    using length_filter_list_update [OF assms(2), of "\<lambda>x. b_generation x = h \<and> \<not> b_released x" "(rs_bindings s ! b)\<lparr>b_released := True\<rparr>"]
      filter_list_update_other [of "\<lambda>x. b_generation x = h \<and> \<not> b_released x" "rs_bindings s" b "(rs_bindings s ! b)\<lparr>b_released := True\<rparr>"]
      assms(2-4) by (auto simp: open_bindings_def)
  have "rs_bindings s ! b \<in> set (filter (\<lambda>x. b_generation x = g \<and> \<not> b_released x) (rs_bindings s))" using assms(2-4) by simp
  then have "0 < open_bindings s g" by (auto simp: open_bindings_def simp del: set_filter)
  moreover have "known s (b_generation x)" if "x \<in> set ((rs_bindings s)[b := (rs_bindings s ! b)\<lparr>b_released := True\<rparr>])" for x
    using that set_update_subset_insert assms(1,2) nth_mem [OF assms(2)] by (fastforce simp: gen_inv_def frame_ok_def)
  moreover have "known s g" using assms(1,2,4) nth_mem [OF assms(2)] by (auto simp: gen_inv_def frame_ok_def)
  ultimately show ?thesis using assms(1) count by (auto simp: inv_defs split: reconciler.splits)
qed

lemma bind_to_current: "bind_to g s = (b, s') \<Longrightarrow> rs_current s' = rs_current s \<and> rs_retiring s' = rs_retiring s"
  by (auto simp: bind_to_def)

lemma install_current_current [simp]: "rs_current (install_current g s) = Some g"
  by (auto simp: install_current_def kick_def Let_def split: option.splits)

lemma promote_inv:
  assumes "gen_inv s" and "g \<in> set (rs_retiring s)" and "\<not> g_closed (rs_gens s g)" and "\<not> rs_stopping s"
  shows "gen_inv (promote g s)"
proof -
  have "\<not> g_stopped (rs_gens s g)" using assms(1,2) by (auto simp: inv_defs)
  then show ?thesis unfolding promote_def using assms
    by (intro install_current_inv inv_without_upd without_retiring) auto
qed

lemma find_SomeD: "find P xs = Some x \<Longrightarrow> x \<in> set xs \<and> P x"
  by (induction xs) (auto split: if_splits)

lemma serving_found:
  "find (serves digest s) (rev (rs_retiring s)) = Some g \<Longrightarrow> g \<in> set (rs_retiring s) \<and> serves digest s g"
  by (auto dest: find_SomeD)

text \<open>The two ways a turn is bound to a live generation.\<close>

lemma bind_serving_cases:
  assumes "bind_serving digest s = Inr (x, s')"
  obtains (current) c b where "x = Some b" "rs_current s = Some c" "g_digest (rs_gens s c) = digest" "bind_to c s = (b, s')" "\<not> rs_stopping s"
  | (promoted) g b where "x = Some b" "g \<in> set (rs_retiring s)" "serves digest s g" "bind_to g (promote g s) = (b, s')" "\<not> rs_stopping s"
  | (none) "x = None" "s' = s" "\<not> rs_stopping s"
  using assms
  by (auto simp: bind_serving_def admitting_def bind_result_eq_Inr split: option.splits if_splits prod.splits dest!: serving_found)

lemma bind_serving_inv:
  assumes "bind_serving digest s = Inr (x, s')" and "gen_inv s"
  shows "gen_inv s'"
  using assms(1)
proof (cases rule: bind_serving_cases)
  case (current c b)
  then show ?thesis using bind_to_inv [OF assms(2) _ current(4)] by (simp add: attached_def)
next
  case (promoted g b)
  then have "gen_inv (promote g s)" using assms(2) by (intro promote_inv) (auto simp: serves_def)
  then show ?thesis using bind_to_inv [OF _ _ promoted(4)] by (simp add: attached_def promote_def)
qed (use assms(2) in simp)

lemma acquire_begin_inv:
  assumes "acquire_begin digest s = Inr (x, s')" and "gen_inv s"
  shows "gen_inv s'"
  using assms by (auto simp: acquire_begin_def bind_result_eq_Inr dest: bind_serving_inv split: option.splits)

lemma acquire_started_inv:
  assumes "acquire_started digest r s = (x, s')" and "gen_inv s"
  shows "gen_inv s'"
proof -
  obtain g s1 where fresh: "new_serial digest r (s\<lparr>rs_starting := None\<rparr>) = (g, s1)" by fastforce
  note new = new_serial_inv [OF _ fresh]
  have inv: "inv_without g s1" "rs_gens s1 g = new_generation digest r" using new assms(2) by simp_all
  show ?thesis
  proof (cases "rs_stopping s1")
    case True
    then have "s' = kick (add_retiring g (upd_gen g (\<lambda>r. r\<lparr>g_closed := True\<rparr>) s1))"
      using assms(1) fresh by (simp add: acquire_started_def)
    then show ?thesis using add_retiring_inv [OF inv_without_upd [OF inv(1)]] inv(2) by (simp add: new_generation_def)
  next
    case False
    then obtain b where b: "bind_to g (install_current g s1) = (b, s')"
      using assms(1) fresh by (auto simp: acquire_started_def split: prod.splits)
    have "gen_inv (install_current g s1)"
      using inv False by (intro install_current_inv) (simp_all add: new_generation_def)
    then show ?thesis using bind_to_inv [OF _ _ b] by (simp add: attached_def)
  qed
qed

lemma bind_generation_inv:
  assumes "bind_generation g s = Inr (b, s')" and "gen_inv s" and "known s g"
  shows "gen_inv s'"
proof -
  have b: "bind_to g s = (b, s')" and "\<not> g_stopped (rs_gens s g)"
    using assms(1) by (auto simp: bind_generation_def bind_result_eq_Inr split: if_splits)
  then show ?thesis using assms(2,3) bind_to_inv [OF assms(2) _ b] by (simp add: gen_inv_def flags_ok_def)
qed

lemma adopt_inv:
  assumes "adopt d r c s = Inr (g, s')" and "gen_inv s"
  shows "gen_inv s'"
proof -
  obtain s1 where fresh: "new_serial d r s = (g, s1)" and ns: "\<not> rs_stopping s"
    and s': "s' = (if c then install_current g s1 else kick (add_retiring g s1))"
    using assms(1) by (auto simp: adopt_def admitting_def bind_result_eq_Inr split: prod.splits if_splits)
  note new = new_serial_inv [OF assms(2) fresh]
  show ?thesis using new ns s' install_current_inv [OF new(1)] add_retiring_inv [OF new(1)] by (simp add: new_generation_def)
qed

lemma retire_inv:
  assumes "gen_inv s" and "known s g"
  shows "gen_inv (retire g s)"
proof (cases "g_stopped (rs_gens s g)")
  case False
  then consider "g \<in> set (rs_retiring s)" | "rs_current s = Some g" "g \<notin> set (rs_retiring s)"
    using assms by (auto simp: inv_defs)
  then show ?thesis
  proof cases
    case 1
    then have "rs_current s \<noteq> Some g" using assms(1) by (auto simp: inv_defs)
    then show ?thesis using 1 False gen_inv_upd [OF assms(1), of "\<lambda>r. r\<lparr>g_closed := True\<rparr>" g] by (simp add: retire_def Let_def)
  next
    case 2
    then have "inv_without g (upd_gen g (\<lambda>r. r\<lparr>g_closed := True\<rparr>) (s\<lparr>rs_current := None\<rparr>))"
      using assms(1) by (intro inv_without_upd without_current) simp_all
    then have "gen_inv (add_retiring g (upd_gen g (\<lambda>r. r\<lparr>g_closed := True\<rparr>) (s\<lparr>rs_current := None\<rparr>)))"
      using False by (intro add_retiring_inv) simp_all
    moreover have eq: "(upd_gen g (\<lambda>r. r\<lparr>g_closed := True\<rparr>) s)\<lparr>rs_current := None\<rparr> = upd_gen g (\<lambda>r. r\<lparr>g_closed := True\<rparr>) (s\<lparr>rs_current := None\<rparr>)"
      by (simp add: upd_gen_def)
    ultimately show ?thesis using 2 False unfolding retire_def Let_def by (simp add: eq)
  qed
qed (use assms in \<open>simp add: retire_def\<close>)

lemma request_retry_inv: "gen_inv s \<Longrightarrow> gen_inv (request_retry s)"
proof -
  have "open_bindings (request_retry s) h = open_bindings s h" "known (request_retry s) h = known s h" for h
    by (simp_all add: request_retry_def open_bindings_def known_def)
  then show "gen_inv s \<Longrightarrow> gen_inv (request_retry s)"
    by (auto simp: inv_defs request_retry_def split: reconciler.splits)
qed

lemma release_inv:
  assumes "gen_inv s" and "b < length (rs_bindings s)"
  shows "gen_inv (release b s)"
proof (cases "b_released (rs_bindings s ! b)")
  case True
  then show ?thesis using assms(1) by (simp add: release_def)
next
  case False
  note inv = release_bindings_inv [OF assms False refl]
  show ?thesis using False inv gen_inv_upd [OF inv, of "\<lambda>r. r\<lparr>g_deferred := False\<rparr>"] by (simp add: release_def Let_def)
qed

lemma close_each_retiring:
  assumes "gen_inv s" and "set gs \<subseteq> set (rs_retiring s)"
  shows "gen_inv (close_each gs s) \<and> rs_current (close_each gs s) = rs_current s \<and> rs_retiring (close_each gs s) = rs_retiring s"
  using assms
proof (induction gs arbitrary: s)
  case (Cons g gs)
  then have "rs_current s \<noteq> Some g" by (auto simp: inv_defs)
  moreover from this have "gen_inv (upd_gen g (\<lambda>r. r\<lparr>g_closed := True\<rparr>) s)" using Cons.prems(1) by (intro gen_inv_upd) auto
  ultimately show ?case using Cons.IH [of "upd_gen g (\<lambda>r. r\<lparr>g_closed := True\<rparr>) s"] Cons.prems(2) by (simp add: Let_def)
qed simp

lemma close_each_append: "close_each (xs @ ys) s = close_each ys (close_each xs s)"
  by (induction xs arbitrary: s) (simp_all add: Let_def)

definition closing :: "bool \<Rightarrow> runtime_set \<Rightarrow> runtime_set" where
  "closing f s = s\<lparr>rs_stopping := True, rs_force_all := f\<rparr>"

lemma closing_commutes:
  "upd_gen g h (closing f s) = closing f (upd_gen g h s)"
  "add_retiring g (closing f s) = closing f (add_retiring g s)"
  "(closing f s)\<lparr>rs_current := c\<rparr> = closing f (s\<lparr>rs_current := c\<rparr>)"
  "rs_current (closing f s) = rs_current s" "generations (closing f s) = generations s"
  by (simp_all add: closing_def upd_gen_def add_retiring_def generations_def)

lemma close_each_stopping: "close_each gs (closing f s) = closing f (close_each gs s)"
  by (induction gs arbitrary: s) (simp_all add: Let_def closing_commutes)

lemma close_current_inv:
  assumes "gen_inv s" and "rs_current s = Some c"
  shows "gen_inv (close_each [c] s) \<and> rs_current (close_each [c] s) = None"
proof -
  have eq: "(upd_gen c (\<lambda>r. r\<lparr>g_closed := True\<rparr>) s)\<lparr>rs_current := None\<rparr> = upd_gen c (\<lambda>r. r\<lparr>g_closed := True\<rparr>) (s\<lparr>rs_current := None\<rparr>)"
    by (simp add: upd_gen_def)
  have "\<not> g_stopped (rs_gens s c)" using assms by (auto simp: inv_defs)
  then have "gen_inv (add_retiring c (upd_gen c (\<lambda>r. r\<lparr>g_closed := True\<rparr>) (s\<lparr>rs_current := None\<rparr>)))"
    using assms by (intro add_retiring_inv inv_without_upd without_current) simp_all
  then show ?thesis using assms(2) by (simp add: Let_def eq)
qed

lemma close_all_inv:
  assumes "gen_inv s"
  shows "gen_inv (close_each (generations s) s) \<and> rs_current (close_each (generations s) s) = None"
  using close_each_retiring [OF assms, of "rs_retiring s"] assms close_current_inv
  by (cases "rs_current s") (auto simp: generations_def close_each_append simp del: close_each.simps(2))

lemma stopping_inv:
  assumes "gen_inv s" and "rs_current s = None"
  shows "gen_inv (closing f s)"
  using assms by (auto simp: closing_def inv_defs open_bindings_def known_def split: reconciler.splits)

lemma stop_all_closing: "stop_all force s = kick (request_retry (closing (rs_force_all s \<or> force) (close_each (generations s) s)))"
  by (simp add: stop_all_def Let_def closing_commutes close_each_stopping flip: closing_def)

lemma stop_all_inv: "gen_inv s \<Longrightarrow> gen_inv (stop_all force s)"
  using close_all_inv [of s] by (simp add: stop_all_closing request_retry_inv stopping_inv)

lemma next_victim_retiring:
  assumes "next_victim s = Some (g, force)"
  shows "g \<in> set (rs_retiring s) \<and> g \<notin> rs_tried_forced s
    \<and> (\<not> force \<longrightarrow> g_bindings (rs_gens s g) = 0 \<and> g \<notin> rs_tried_graceful s \<and> \<not> g_deferred (rs_gens s g) \<and> \<not> g_failed (rs_gens s g))"
proof -
  let ?u = "filter (\<lambda>g. g \<notin> rs_tried_forced s) (rs_retiring s)"
  consider "?u \<noteq> []" "g = hd ?u" "force"
    | "\<not> force" "find (\<lambda>g. g \<notin> rs_tried_graceful s \<and> g_bindings (rs_gens s g) = 0 \<and> \<not> g_deferred (rs_gens s g)
        \<and> \<not> g_failed (rs_gens s g)) ?u = Some g"
    using assms by (auto simp: next_victim_def Let_def split: if_splits)
  then show ?thesis
  proof cases
    case 1
    then have "g \<in> set ?u" by (metis hd_in_set)
    then show ?thesis using 1 by simp
  next
    case 2
    from find_SomeD [OF 2(2)] show ?thesis using 2(1) by simp
  qed
qed

lemma detach_simps [simp]:
  "rs_retry_requests (detach g s) = rs_retry_requests s" "g_bindings (rs_gens (detach g s) h) = g_bindings (rs_gens s h)"
  "known (detach g s) h = known s h" "rs_retiring (detach g s) = remove1 g (rs_retiring s)"
  by (simp_all add: detach_def known_def)

lemma not_attached_detach: "gen_inv s \<Longrightarrow> \<not> attached (detach g s) g"
  by (auto simp: detach_def attached_def gen_inv_def frame_ok_def set_remove1_eq)

lemma awaiting_inv:
  assumes "gen_inv s" and "known s g" and "\<not> attached s g" and "force \<or> g_bindings (rs_gens s g) = 0"
  shows "gen_inv (s\<lparr>rs_reconciler := Awaiting g force (rs_retry_requests s)\<rparr>)"
  using assms by (auto simp: inv_defs open_bindings_def known_def split: reconciler.splits)

lemma reconcile_next_inv:
  assumes "gen_inv s"
  shows "gen_inv (reconcile_next s)"
proof (cases "next_victim s")
  case None
  then show ?thesis using gen_inv_not_running [OF assms] by (simp add: reconcile_next_def)
next
  case (Some v)
  obtain g force where v: "v = (g, force)" by fastforce
  note victim = next_victim_retiring [OF Some [unfolded v]]
  define t where "t = (if force then s\<lparr>rs_tried_forced := insert g (rs_tried_forced s)\<rparr>
      else s\<lparr>rs_tried_graceful := insert g (rs_tried_graceful s)\<rparr>)"
  have "known s g" using assms victim by (simp add: gen_inv_def frame_ok_def)
  then have t: "gen_inv t" "known t g" "rs_retry_requests t = rs_retry_requests s" "rs_gens t = rs_gens s"
    using assms by (simp_all add: t_def)
  have "gen_inv ((detach g t)\<lparr>rs_reconciler := Awaiting g force (rs_retry_requests (detach g t))\<rparr>)"
    using t victim by (intro awaiting_inv detach_inv not_attached_detach) auto
  then show ?thesis using Some v t by (simp add: reconcile_next_def t_def)
qed

lemma reconcile_next_reconciler: "reconcile_next (s\<lparr>rs_reconciler := p\<rparr>) = reconcile_next s"
proof -
  have "next_victim (s\<lparr>rs_reconciler := p\<rparr>) = next_victim s" by (simp add: next_victim_def Let_def)
  then show ?thesis by (auto simp: reconcile_next_def detach_def upd_gen_def split: option.splits)
qed

lemma reattach_reconciler: "reattach g failed retry (s\<lparr>rs_reconciler := p\<rparr>) = (reattach g failed retry s)\<lparr>rs_reconciler := p\<rparr>"
  by (simp add: reattach_def Let_def add_retiring_def upd_gen_def)

lemma reattach_inv:
  assumes "inv_without g s"
  shows "gen_inv (reattach g failed retry s)"
proof -
  have "g \<notin> set (rs_retiring s)" using assms by (simp add: inv_without_def attached_def)
  then show ?thesis unfolding reattach_def Let_def
    by (cases failed; cases retry) (auto intro!: add_retiring_inv inv_without_upd assms)
qed

lemma awaiting_without:
  assumes "gen_inv s" and "rs_reconciler s = Awaiting g force requests"
  shows "inv_without g (s\<lparr>rs_reconciler := NotRunning\<rparr>)"
  using assms by (auto simp: inv_defs open_bindings_def known_def)

lemma reconcile_resume_inv:
  assumes "gen_inv s" and "rs_reconciler s = Awaiting g force requests"
  shows "gen_inv (reconcile_resume outcome s)"
proof -
  have kept: "gen_inv ((reattach g failed retry s)\<lparr>rs_reconciler := NotRunning\<rparr>)" for failed retry
    using reattach_inv [OF awaiting_without [OF assms]] by (simp add: reattach_reconciler)
  then have "gen_inv (reconcile_next (reattach g failed retry s))" for failed retry
    using reconcile_next_inv reconcile_next_reconciler by metis
  then show ?thesis using kept reconcile_next_inv [OF assms(1)] assms(2)
    by (cases outcome) (simp_all add: reconcile_resume_def settle_stop_def)
qed

lemma gen_step_inv:
  assumes "gen_step s s'" and "gen_inv s"
  shows "gen_inv s'"
  using assms
proof (induction rule: gen_step.induct)
  case (retired_current s)
  then show ?case using retire_inv [of s] by (auto simp: retire_current_def inv_defs split: option.splits)
next
  case (reaped s)
  then show ?case by (simp add: reap_def request_retry_inv)
next
  case (reconciler_begins s)
  then show ?case by (simp add: reconcile_begin_def reconcile_next_inv)
next
  case (discarded s g)
  then show ?case by (simp add: discard_def detach_inv)
qed (auto intro: bind_serving_inv acquire_begin_inv acquire_started_inv bind_generation_inv adopt_inv retire_inv
  stop_all_inv release_inv reconcile_resume_inv gen_inv_not_running)

section \<open>What never changes back\<close>

definition gen_evolves :: "runtime_set \<Rightarrow> runtime_set \<Rightarrow> bool" where
  "gen_evolves s s' \<longleftrightarrow>
     rs_next_serial s \<le> rs_next_serial s' \<and> (rs_stopping s \<longrightarrow> rs_stopping s') \<and> (rs_force_all s \<longrightarrow> rs_force_all s')
     \<and> (\<forall>g. known s g \<longrightarrow> g_digest (rs_gens s' g) = g_digest (rs_gens s g)
          \<and> (g_closed (rs_gens s g) \<longrightarrow> g_closed (rs_gens s' g)))
     \<and> length (rs_bindings s) \<le> length (rs_bindings s')
     \<and> (\<forall>b<length (rs_bindings s). b_generation (rs_bindings s' ! b) = b_generation (rs_bindings s ! b)
          \<and> (b_released (rs_bindings s ! b) \<longrightarrow> b_released (rs_bindings s' ! b)))"

lemma evolves_refl [simp]: "gen_evolves s s"
  by (simp add: gen_evolves_def)

lemma evolves_trans [trans]:
  assumes "gen_evolves s s'" and "gen_evolves s' s''"
  shows "gen_evolves s s''"
proof -
  have "known s g \<Longrightarrow> known s' g" for g using assms(1) by (auto simp: gen_evolves_def known_def)
  then show ?thesis using assms by (auto simp: gen_evolves_def)
qed

lemma evolves_same:
  assumes "rs_gens s' = rs_gens s" and "rs_bindings s' = rs_bindings s" and "rs_next_serial s' = rs_next_serial s"
    and "rs_stopping s' = rs_stopping s" and "rs_force_all s' = rs_force_all s"
  shows "gen_evolves s s'"
  using assms by (simp add: gen_evolves_def)

lemma evolves_upd:
  assumes "\<And>r. g_digest (f r) = g_digest r" and "\<And>r. g_closed r \<Longrightarrow> g_closed (f r)"
  shows "gen_evolves s (upd_gen g f s)"
  using assms by (simp add: gen_evolves_def)

lemma evolves_add_retiring: "gen_evolves s (add_retiring g s)"
  by (simp add: gen_evolves_def)

lemma evolves_kick: "gen_evolves s (kick s)"
  by (rule evolves_same) (simp_all add: kick_def)

lemma evolves_detach: "gen_evolves s (detach g s)"
  by (simp add: gen_evolves_def detach_def)

lemma evolves_bind_to: "bind_to g s = (b, s') \<Longrightarrow> gen_evolves s s'"
  by (auto simp: bind_to_def gen_evolves_def nth_append)

lemma evolves_install_current: "gen_evolves s (install_current g s)"
  by (auto simp: install_current_def kick_def Let_def gen_evolves_def split: option.splits)

lemma evolves_new_serial: "new_serial d r s = (g, s') \<Longrightarrow> gen_evolves s s'"
  by (auto simp: new_serial_def gen_evolves_def known_def)

lemma evolves_promote: "gen_evolves s (promote g s)"
proof -
  have "gen_evolves s (upd_gen g (\<lambda>r. r\<lparr>g_retiring := False, g_deferred := False\<rparr>) (s\<lparr>rs_retiring := remove1 g (rs_retiring s)\<rparr>))"
    by (simp add: gen_evolves_def)
  then show ?thesis unfolding promote_def using evolves_install_current evolves_trans by blast
qed

lemma evolves_request_retry: "gen_evolves s (request_retry s)"
  by (simp add: gen_evolves_def request_retry_def)

lemma evolves_retire: "gen_evolves s (retire g s)"
  by (simp add: gen_evolves_def retire_def Let_def kick_def)

lemma evolves_close_each: "gen_evolves s (close_each gs s)"
proof (induction gs arbitrary: s)
  case (Cons g gs)
  let ?s1 = "upd_gen g (\<lambda>r. r\<lparr>g_closed := True\<rparr>) s"
  have "gen_evolves s (if rs_current ?s1 = Some g then add_retiring g (?s1\<lparr>rs_current := None\<rparr>) else ?s1)"
    by (simp add: gen_evolves_def)
  then show ?case using Cons.IH evolves_trans by (simp add: Let_def)
qed simp

lemma evolves_stop_all: "gen_evolves s (stop_all force s)"
proof -
  let ?c = "close_each (generations s) s"
  have "gen_evolves s ?c" by (rule evolves_close_each)
  also have "gen_evolves ?c (closing (rs_force_all s \<or> force) ?c)"
  proof -
    have "rs_force_all ?c \<Longrightarrow> rs_force_all s" for gs
    proof -
      have "rs_force_all (close_each gs s) = rs_force_all s" for gs s by (induction gs arbitrary: s) (simp_all add: Let_def)
      then show "rs_force_all ?c \<Longrightarrow> rs_force_all s" by simp
    qed
    then show ?thesis by (simp add: gen_evolves_def closing_def)
  qed
  also have "gen_evolves \<dots> (request_retry \<dots>)" by (rule evolves_request_retry)
  also have "gen_evolves \<dots> (kick \<dots>)" by (rule evolves_kick)
  finally show ?thesis by (simp add: stop_all_closing)
qed

lemma evolves_release: "b < length (rs_bindings s) \<Longrightarrow> gen_evolves s (release b s)"
  by (auto simp: gen_evolves_def release_def Let_def kick_def nth_list_update)

lemma evolves_reattach: "gen_evolves s (reattach g failed retry s)"
  by (simp add: gen_evolves_def reattach_def Let_def)

lemma evolves_settle_stop: "gen_evolves s (settle_stop outcome g force requests s)"
  by (cases outcome) (simp_all add: settle_stop_def evolves_reattach)

lemma evolves_reconcile_next: "gen_evolves s (reconcile_next s)"
  by (auto simp: gen_evolves_def reconcile_next_def detach_def split: option.splits)

lemma evolves_reconcile_resume: "gen_evolves s (reconcile_resume outcome s)"
proof (cases "rs_reconciler s")
  case (Awaiting g force requests)
  have "gen_evolves s (settle_stop outcome g force requests s)" by (rule evolves_settle_stop)
  moreover have "gen_evolves t (t\<lparr>rs_reconciler := NotRunning\<rparr>)" for t by (rule evolves_same) simp_all
  ultimately show ?thesis using Awaiting evolves_reconcile_next evolves_trans by (auto simp: reconcile_resume_def Let_def)
qed (simp_all add: reconcile_resume_def)

lemma bind_serving_evolves: "bind_serving d s = Inr (x, s') \<Longrightarrow> gen_evolves s s'"
  by (erule bind_serving_cases) (auto intro: evolves_bind_to evolves_trans [OF evolves_promote])

lemma acquire_started_evolves:
  assumes "acquire_started d r s = (x, s')"
  shows "gen_evolves s s'"
proof -
  obtain g s1 where fresh: "new_serial d r (s\<lparr>rs_starting := None\<rparr>) = (g, s1)" by fastforce
  have "gen_evolves s (s\<lparr>rs_starting := None\<rparr>)" by (rule evolves_same) simp_all
  also have "gen_evolves \<dots> s1" by (rule evolves_new_serial [OF fresh])
  also have "gen_evolves s1 s'"
  proof (cases "rs_stopping s1")
    case True
    then have "s' = kick (add_retiring g (upd_gen g (\<lambda>r. r\<lparr>g_closed := True\<rparr>) s1))"
      using assms fresh by (simp add: acquire_started_def)
    then show ?thesis by (simp add: gen_evolves_def kick_def)
  next
    case False
    then obtain b where "bind_to g (install_current g s1) = (b, s')"
      using assms fresh by (auto simp: acquire_started_def split: prod.splits)
    then show ?thesis using evolves_bind_to evolves_install_current evolves_trans by blast
  qed
  finally show ?thesis .
qed

lemma gen_step_evolves:
  assumes "gen_step s s'"
  shows "gen_evolves s s'"
  using assms
proof (induction rule: gen_step.induct)
  case (start s d b s')
  then obtain x t where x: "bind_serving d s = Inr (x, t)" and s': "s' = (if x = None then t\<lparr>rs_starting := Some d\<rparr> else t)"
    by (auto simp: acquire_begin_def bind_result_eq_Inr split: option.splits)
  have "gen_evolves t s'" by (rule evolves_same) (simp_all add: s')
  then show ?case using bind_serving_evolves [OF x] evolves_trans by blast
next
  case (start_failed s d)
  show ?case by (rule evolves_same) simp_all
next
  case (reconciler_dropped s)
  show ?case by (rule evolves_same) simp_all
next
  case (bind_known s g b s')
  then show ?case by (auto simp: bind_generation_def bind_result_eq_Inr evolves_bind_to split: if_splits)
next
  case (adopted d r c s g s')
  then obtain s1 where "new_serial d r s = (g, s1)" "s' = (if c then install_current g s1 else kick (add_retiring g s1))"
    by (auto simp: adopt_def bind_result_eq_Inr split: prod.splits)
  moreover have "gen_evolves s1 (if c then install_current g s1 else kick (add_retiring g s1))"
    using evolves_install_current evolves_trans [OF evolves_add_retiring evolves_kick] by simp
  ultimately show ?case using evolves_new_serial evolves_trans by blast
next
  case (retired_current s)
  then show ?case by (simp add: retire_current_def evolves_retire split: option.splits)
next
  case (discarded s g)
  then show ?case by (simp add: discard_def evolves_detach)
next
  case (reaped s)
  then show ?case using evolves_request_retry evolves_kick evolves_trans unfolding reap_def by blast
next
  case (reconciler_begins s)
  have "gen_evolves s (s\<lparr>rs_tried_forced := {}, rs_tried_graceful := {}\<rparr>)" by (rule evolves_same) simp_all
  then show ?case unfolding reconcile_begin_def using evolves_reconcile_next evolves_trans by blast
qed (auto intro: bind_serving_evolves acquire_started_evolves evolves_retire evolves_stop_all evolves_release evolves_reconcile_resume)

interpretation runtime_unit: evolving_system gen_step gen_inv gen_evolves
  by unfold_locales (auto intro: gen_step_inv gen_step_evolves evolves_trans)

section \<open>A pass of the reconciler\<close>

text \<open>
  The loop of \<open>_reconcile\<close> from its head, when no other method runs in between: the stops it
  calls, in order, and the state it ends in. \<open>stop g force\<close> is the outcome of the adapter's stop.
\<close>

lemma reconcile_next_victim:
  assumes "next_victim s = Some (g, force)"
  shows "reconcile_next s = (detach g (if force then s\<lparr>rs_tried_forced := insert g (rs_tried_forced s)\<rparr>
      else s\<lparr>rs_tried_graceful := insert g (rs_tried_graceful s)\<rparr>))\<lparr>rs_reconciler := Awaiting g force (rs_retry_requests s)\<rparr>"
  using assms by (simp add: reconcile_next_def)

lemma settled_state:
  assumes "next_victim s = Some (g, force)" and "s1 = settle_stop outcome g force requests (reconcile_next s)"
  shows "rs_tried_forced s1 = (if force then insert g (rs_tried_forced s) else rs_tried_forced s)"
    and "rs_tried_graceful s1 = (if force then rs_tried_graceful s else insert g (rs_tried_graceful s))"
    and "set (rs_retiring s1) = (if outcome = StopDone then set (remove1 g (rs_retiring s)) else set (rs_retiring s))"
    and "rs_retry_requests s1 = rs_retry_requests s" and "rs_stopping s1 = rs_stopping s" and "rs_force_all s1 = rs_force_all s"
    and "rs_cap s1 = rs_cap s" and "h \<noteq> g \<Longrightarrow> rs_gens s1 h = rs_gens s h" and "g_bindings (rs_gens s1 h) = g_bindings (rs_gens s h)"
proof -
  have g: "g \<in> set (rs_retiring s)" using next_victim_retiring [OF assms(1)] by simp
  have "x \<in> set xs \<Longrightarrow> insert x (set (remove1 x xs)) = set xs" for x :: nat and xs by (induction xs) auto
  with g have insert: "insert g (set (remove1 g (rs_retiring s))) = set (rs_retiring s)" by blast
  show "rs_tried_forced s1 = (if force then insert g (rs_tried_forced s) else rs_tried_forced s)"
    "rs_tried_graceful s1 = (if force then rs_tried_graceful s else insert g (rs_tried_graceful s))"
    "rs_retry_requests s1 = rs_retry_requests s" "rs_stopping s1 = rs_stopping s" "rs_force_all s1 = rs_force_all s"
    "rs_cap s1 = rs_cap s" "h \<noteq> g \<Longrightarrow> rs_gens s1 h = rs_gens s h" "g_bindings (rs_gens s1 h) = g_bindings (rs_gens s h)"
    by (cases outcome; simp add: assms(2) settle_stop_def reconcile_next_victim [OF assms(1)] reattach_def Let_def add_retiring_def detach_def)+
  show "set (rs_retiring s1) = (if outcome = StopDone then set (remove1 g (rs_retiring s)) else set (rs_retiring s))"
    using insert
    by (cases outcome) (auto simp: assms(2) settle_stop_def reconcile_next_victim [OF assms(1)] reattach_def Let_def)
qed

definition untried :: "runtime_set \<Rightarrow> nat" where
  "untried s = card (set (rs_retiring s) - rs_tried_forced s) + card (set (rs_retiring s) - rs_tried_forced s - rs_tried_graceful s)"

lemma untried_decreases:
  assumes "next_victim s = Some (g, force)"
  shows "untried (settle_stop outcome g force requests (reconcile_next s)) < untried s"
proof -
  define s1 where "s1 = settle_stop outcome g force requests (reconcile_next s)"
  note st = settled_state [OF assms s1_def]
  note v = next_victim_retiring [OF assms]
  let ?R = "set (rs_retiring s)" and ?R1 = "set (rs_retiring s1)" and ?F = "rs_tried_forced s" and ?G = "rs_tried_graceful s"
  have sub: "?R1 \<subseteq> ?R" using st(3) set_remove1_subset [of g "rs_retiring s"] by auto
  show ?thesis
  proof (cases force)
    case True
    then have "?R1 - rs_tried_forced s1 \<subset> ?R - ?F" using st(1) sub v by auto
    moreover have "?R1 - rs_tried_forced s1 - rs_tried_graceful s1 \<subseteq> ?R - ?F - ?G" using True st(1,2) sub by auto
    ultimately show ?thesis unfolding untried_def s1_def [symmetric]
      using psubset_card_mono [of "?R - ?F"] card_mono [of "?R - ?F - ?G"] by (meson List.finite_set add_less_le_mono finite_Diff)
  next
    case False
    then have "?R1 - rs_tried_forced s1 - rs_tried_graceful s1 \<subset> ?R - ?F - ?G" using st(1,2) sub v by auto
    moreover have "?R1 - rs_tried_forced s1 \<subseteq> ?R - ?F" using False st(1) sub by auto
    ultimately show ?thesis unfolding untried_def s1_def [symmetric]
      using psubset_card_mono [of "?R - ?F - ?G"] card_mono [of "?R - ?F"] by (meson List.finite_set add_le_less_mono finite_Diff)
  qed
qed

function reconcile_pass :: "(nat \<Rightarrow> bool \<Rightarrow> stop_outcome) \<Rightarrow> runtime_set \<Rightarrow> (nat \<times> bool) list \<times> runtime_set" where
  "reconcile_pass stop s =
     (case next_victim s of
        None \<Rightarrow> ([], reconcile_next s)
      | Some (g, force) \<Rightarrow>
         (let s1 = settle_stop (stop g force) g force (rs_retry_requests s) (reconcile_next s) in
          if stop g force = StopCancelled then ([(g, force)], s1\<lparr>rs_reconciler := NotRunning\<rparr>)
          else case reconcile_pass stop s1 of (calls, s2) \<Rightarrow> ((g, force) # calls, s2)))"
  by auto
termination by (relation "measure (\<lambda>(stop, s). untried s)") (auto simp: untried_decreases)

declare reconcile_pass.simps [simp del]

text \<open>
  The task from its first line, run without interruption: what it does when it is scheduled in
  a state where it was created. A state that awaits a stop is continued by \<open>run_reconciler\<close>.
\<close>

definition fresh_pass :: "(nat \<Rightarrow> bool \<Rightarrow> stop_outcome) \<Rightarrow> runtime_set \<Rightarrow> (nat \<times> bool) list \<times> runtime_set" where
  "fresh_pass stop s = reconcile_pass stop (s\<lparr>rs_tried_forced := {}, rs_tried_graceful := {}\<rparr>)"

text \<open>The pass is a run of the step relation.\<close>

lemma resume_after_next:
  assumes "next_victim s = Some (g, force)"
  shows "reconcile_resume outcome (reconcile_next s) =
    (let s1 = settle_stop outcome g force (rs_retry_requests s) (reconcile_next s) in
     if outcome = StopCancelled then s1\<lparr>rs_reconciler := NotRunning\<rparr> else reconcile_next s1)"
  and "rs_reconciler (reconcile_next s) = Awaiting g force (rs_retry_requests s)"
  using assms by (simp_all add: reconcile_resume_def reconcile_next_victim)

lemma pass_runs: "gen_step\<^sup>*\<^sup>* (reconcile_next s) (snd (reconcile_pass stop s))"
proof (induction stop s rule: reconcile_pass.induct)
  case (1 stop s)
  show ?case
  proof (cases "next_victim s")
    case None
    then show ?thesis by (simp add: reconcile_pass.simps [of stop s])
  next
    case (Some v)
    obtain g force where v: "v = (g, force)" by fastforce
    let ?s1 = "settle_stop (stop g force) g force (rs_retry_requests s) (reconcile_next s)"
    note resume = resume_after_next [OF Some [unfolded v]]
    have step: "gen_step (reconcile_next s) (reconcile_resume (stop g force) (reconcile_next s))"
      by (rule gen_step.reconciler_resumes [OF resume(2)])
    show ?thesis
    proof (cases "stop g force = StopCancelled")
      case True
      then show ?thesis using Some v step resume(1) by (simp add: reconcile_pass.simps [of stop s])
    next
      case False
      then have "gen_step\<^sup>*\<^sup>* (reconcile_next ?s1) (snd (reconcile_pass stop ?s1))" using 1 [OF Some v [symmetric] refl] by simp
      then show ?thesis using False Some v step resume(1)
        by (simp add: reconcile_pass.simps [of stop s] Let_def case_prod_beta converse_rtranclp_into_rtranclp)
    qed
  qed
qed

lemma fresh_pass_runs:
  assumes "rs_reconciler s = Created"
  shows "gen_step\<^sup>*\<^sup>* s (snd (fresh_pass stop s))"
  using pass_runs [of "s\<lparr>rs_tried_forced := {}, rs_tried_graceful := {}\<rparr>" stop] gen_step.reconciler_begins [OF assms]
  unfolding fresh_pass_def reconcile_begin_def by (rule converse_rtranclp_into_rtranclp [rotated])

text \<open>
  What the task does from any state when no other method runs until it ends: nothing when there is
  none, its whole pass when it was just created, and the rest of its pass when it awaits a
  stop, which \<open>answer\<close> settles first. The calls listed are those still to come.
\<close>

definition run_reconciler :: "stop_outcome \<Rightarrow> (nat \<Rightarrow> bool \<Rightarrow> stop_outcome) \<Rightarrow> runtime_set \<Rightarrow> (nat \<times> bool) list \<times> runtime_set" where
  "run_reconciler answer stop s =
     (case rs_reconciler s of
        NotRunning \<Rightarrow> ([], s)
      | Created \<Rightarrow> fresh_pass stop s
      | Awaiting g force requests \<Rightarrow>
         (let s1 = settle_stop answer g force requests s in
          if answer = StopCancelled then ([], s1\<lparr>rs_reconciler := NotRunning\<rparr>) else reconcile_pass stop s1))"

definition in_flight :: "runtime_set \<Rightarrow> nat list" where
  "in_flight s = (case rs_reconciler s of Awaiting g force requests \<Rightarrow> [g] | _ \<Rightarrow> [])"

lemma run_reconciler_runs: "gen_step\<^sup>*\<^sup>* s (snd (run_reconciler answer stop s))"
proof (cases "rs_reconciler s")
  case NotRunning
  then show ?thesis by (simp add: run_reconciler_def)
next
  case Created
  then show ?thesis using fresh_pass_runs by (simp add: run_reconciler_def)
next
  case (Awaiting g force requests)
  have "gen_step s (reconcile_resume answer s)" by (rule gen_step.reconciler_resumes [OF Awaiting])
  then show ?thesis using Awaiting pass_runs [of "settle_stop answer g force requests s" stop]
    by (auto simp: run_reconciler_def reconcile_resume_def Let_def intro: converse_rtranclp_into_rtranclp split: if_splits)
qed

lemma settle_stop_simps [simp]:
  "rs_tried_forced (settle_stop outcome g force requests s) = rs_tried_forced s"
  "rs_tried_graceful (settle_stop outcome g force requests s) = rs_tried_graceful s"
  "rs_force_all (settle_stop outcome g force requests s) = rs_force_all s"
  "rs_stopping (settle_stop outcome g force requests s) = rs_stopping s"
  "rs_current (settle_stop outcome g force requests s) = rs_current s"
  "set (rs_retiring (settle_stop outcome g force requests s))
     = (if outcome = StopDone then set (rs_retiring s) else insert g (set (rs_retiring s)))"
  "h \<noteq> g \<Longrightarrow> rs_gens (settle_stop outcome g force requests s) h = rs_gens s h"
  by (cases outcome; auto simp: settle_stop_def reattach_def Let_def add_retiring_def)+

lemma settle_stop_length: "length (rs_retiring (settle_stop outcome g force requests s)) \<le> Suc (length (rs_retiring s))"
  by (cases outcome) (auto simp: settle_stop_def reattach_def Let_def add_retiring_def)

lemma settled_inv:
  assumes "gen_inv s" and "rs_reconciler s = Awaiting g force requests"
  shows "gen_inv ((settle_stop outcome g force requests s)\<lparr>rs_reconciler := NotRunning\<rparr>)"
  using reattach_inv [OF awaiting_without [OF assms]] gen_inv_not_running [OF assms(1)]
  by (cases outcome) (simp_all add: settle_stop_def reattach_reconciler)

section \<open>What a pass achieves\<close>

lemma pass_calls:
  "distinct (fst (reconcile_pass stop s)) \<and> length (fst (reconcile_pass stop s)) \<le> untried s
   \<and> (\<forall>g. (g, True) \<in> set (fst (reconcile_pass stop s)) \<longrightarrow> g \<notin> rs_tried_forced s)
   \<and> (\<forall>g. (g, False) \<in> set (fst (reconcile_pass stop s)) \<longrightarrow> g \<notin> rs_tried_graceful s)
   \<and> rs_reconciler (snd (reconcile_pass stop s)) = NotRunning"
proof (induction stop s rule: reconcile_pass.induct)
  case (1 stop s)
  show ?case
  proof (cases "next_victim s")
    case None
    then show ?thesis by (simp add: reconcile_pass.simps [of stop s] reconcile_next_def)
  next
    case (Some v)
    obtain g force where v: "v = (g, force)" by fastforce
    define s1 where "s1 = settle_stop (stop g force) g force (rs_retry_requests s) (reconcile_next s)"
    note st = settled_state [OF Some [unfolded v] s1_def] and victim = next_victim_retiring [OF Some [unfolded v]]
    have less: "untried s1 < untried s" using untried_decreases [OF Some [unfolded v]] by (simp add: s1_def)
    have pass: "reconcile_pass stop s = (if stop g force = StopCancelled then ([(g, force)], s1\<lparr>rs_reconciler := NotRunning\<rparr>)
        else ((g, force) # fst (reconcile_pass stop s1), snd (reconcile_pass stop s1)))"
      using Some v by (simp add: reconcile_pass.simps [of stop s] s1_def Let_def case_prod_beta)
    show ?thesis
    proof (cases "stop g force = StopCancelled")
      case True
      then show ?thesis using pass victim less by (cases force) auto
    next
      case False
      from 1 [OF Some v [symmetric] s1_def False] show ?thesis
        using pass False victim less st(1,2) by (cases force) auto
    qed
  qed
qed

text \<open>A pass leaves alone what it does not call.\<close>

lemma pass_other:
  assumes "\<And>f. (g, f) \<notin> set (fst (reconcile_pass stop s))"
  shows "rs_gens (snd (reconcile_pass stop s)) g = rs_gens s g
    \<and> (g \<in> set (rs_retiring s) \<longrightarrow> g \<in> set (rs_retiring (snd (reconcile_pass stop s))))"
  using assms
proof (induction stop s rule: reconcile_pass.induct)
  case (1 stop s)
  show ?case
  proof (cases "next_victim s")
    case None
    then show ?thesis by (simp add: reconcile_pass.simps [of stop s] reconcile_next_def)
  next
    case (Some v)
    obtain h force where v: "v = (h, force)" by fastforce
    define s1 where "s1 = settle_stop (stop h force) h force (rs_retry_requests s) (reconcile_next s)"
    note st = settled_state [OF Some [unfolded v] s1_def]
    have pass: "reconcile_pass stop s = (if stop h force = StopCancelled then ([(h, force)], s1\<lparr>rs_reconciler := NotRunning\<rparr>)
        else ((h, force) # fst (reconcile_pass stop s1), snd (reconcile_pass stop s1)))"
      using Some v by (simp add: reconcile_pass.simps [of stop s] s1_def Let_def case_prod_beta)
    have h: "g \<noteq> h" using 1(2) pass by (auto split: if_splits)
    have keep: "rs_gens s1 g = rs_gens s g" "g \<in> set (rs_retiring s) \<Longrightarrow> g \<in> set (rs_retiring s1)"
      using st(3,8) h by simp_all
    show ?thesis
    proof (cases "stop h force = StopCancelled")
      case True
      then show ?thesis using pass keep by simp
    next
      case False
      then have "\<And>f. (g, f) \<notin> set (fst (reconcile_pass stop s1))" using 1(2) pass by auto
      from 1(1) [OF Some v [symmetric] s1_def False this] show ?thesis using pass False keep by simp
    qed
  qed
qed

lemma untried_bound: "untried s \<le> 2 * length (rs_retiring s)"
proof -
  have "card A \<le> length (rs_retiring s)" if "A \<subseteq> set (rs_retiring s)" for A
    using that by (meson List.finite_set card_length card_mono le_trans)
  from this [of "set (rs_retiring s) - rs_tried_forced s"] this [of "set (rs_retiring s) - rs_tried_forced s - rs_tried_graceful s"]
  show ?thesis by (simp add: untried_def Diff_subset subset_eq)
qed

lemma pass_inv:
  assumes "gen_inv s"
  shows "gen_inv (snd (reconcile_pass stop s))"
  using runtime_unit.run_inv_evolves [OF pass_runs reconcile_next_inv [OF assms]] by simp

lemma settle_keeps:
  assumes "gen_inv s" and "next_victim s = Some (g, force)" and "s1 = settle_stop outcome g force requests (reconcile_next s)"
  shows "gen_inv (s1\<lparr>rs_reconciler := NotRunning\<rparr>)" and "rs_current s1 = rs_current s"
proof -
  have inv: "gen_inv (reconcile_next s)" by (rule reconcile_next_inv [OF assms(1)])
  have await: "rs_reconciler (reconcile_next s) = Awaiting g force (rs_retry_requests s)" by (rule resume_after_next [OF assms(2)])
  note again = reattach_inv [OF awaiting_without [OF inv await]]
  show "gen_inv (s1\<lparr>rs_reconciler := NotRunning\<rparr>)"
    using again gen_inv_not_running [OF inv] by (cases outcome) (simp_all add: assms(3) settle_stop_def reattach_reconciler)
  have "rs_current s \<noteq> Some g" using assms(1) next_victim_retiring [OF assms(2)] by (auto simp: inv_defs)
  then show "rs_current s1 = rs_current s"
    by (cases outcome) (simp_all add: assms(3) settle_stop_def reattach_def Let_def reconcile_next_victim [OF assms(2)] detach_def)
qed

lemma next_victim_reconciler [simp]: "next_victim (s\<lparr>rs_reconciler := p\<rparr>) = next_victim s"
  by (simp add: next_victim_def Let_def)

lemma next_victim_force_all: "next_victim s = Some (g, force) \<Longrightarrow> rs_force_all s \<Longrightarrow> force"
  by (auto simp: next_victim_def Let_def split: if_splits)

definition pass_result :: "(nat \<Rightarrow> bool \<Rightarrow> stop_outcome) \<Rightarrow> runtime_set \<Rightarrow> (nat \<times> bool) list \<Rightarrow> runtime_set \<Rightarrow> bool" where
  "pass_result stop s calls s' \<longleftrightarrow>
     next_victim s' = None \<and> rs_stopping s' = rs_stopping s \<and> rs_force_all s' = rs_force_all s \<and> rs_cap s' = rs_cap s
     \<and> rs_current s' = rs_current s \<and> rs_tried_forced s' = rs_tried_forced s \<union> {g. (g, True) \<in> set calls}
     \<and> set (rs_retiring s') = {g \<in> set (rs_retiring s). \<forall>f. (g, f) \<in> set calls \<longrightarrow> stop g f \<noteq> StopDone}
     \<and> (\<forall>g f. (g, f) \<in> set calls \<longrightarrow> g \<in> set (rs_retiring s) \<and> (rs_force_all s \<longrightarrow> f))"

lemma pass_achieves:
  assumes "gen_inv (s\<lparr>rs_reconciler := NotRunning\<rparr>)" and "\<forall>g f. stop g f \<noteq> StopCancelled"
  shows "pass_result stop s (fst (reconcile_pass stop s)) (snd (reconcile_pass stop s))"
  using assms
proof (induction stop s rule: reconcile_pass.induct)
  case (1 stop s)
  show ?case
  proof (cases "next_victim s")
    case None
    then show ?thesis by (simp add: reconcile_pass.simps [of stop s] reconcile_next_def pass_result_def)
  next
    case (Some v)
    obtain g force where v: "v = (g, force)" by fastforce
    define s1 where "s1 = settle_stop (stop g force) g force (rs_retry_requests s) (reconcile_next s)"
    note st = settled_state [OF Some [unfolded v] s1_def] and victim = next_victim_retiring [OF Some [unfolded v]]
    have some: "next_victim (s\<lparr>rs_reconciler := NotRunning\<rparr>) = Some (g, force)" using Some v by simp
    have "s1 = settle_stop (stop g force) g force (rs_retry_requests s) (reconcile_next (s\<lparr>rs_reconciler := NotRunning\<rparr>))"
      by (simp add: s1_def reconcile_next_reconciler)
    note kept = settle_keeps [OF 1(2) some this]
    have nc: "stop g force \<noteq> StopCancelled" using 1(3) by simp
    have pass: "reconcile_pass stop s = ((g, force) # fst (reconcile_pass stop s1), snd (reconcile_pass stop s1))"
      using Some v nc by (simp add: reconcile_pass.simps [of stop s] s1_def Let_def case_prod_beta)
    have "pass_result stop s1 (fst (reconcile_pass stop s1)) (snd (reconcile_pass stop s1))"
      using 1(1) [OF Some v [symmetric] s1_def nc kept(1) 1(3)] .
    moreover have "set (rs_retiring s1) = (if stop g force = StopDone then set (rs_retiring s) - {g} else set (rs_retiring s))"
      using st(3) 1(2) by (simp add: gen_inv_def frame_ok_def set_remove1_eq)
    moreover have "rs_force_all s \<longrightarrow> force" using next_victim_force_all Some v by blast
    ultimately show ?thesis using st(1,5-7) kept(2) victim unfolding pass pass_result_def
      by (auto split: if_splits)
  qed
qed

lemma new_set_inv: "new_set cap = Inr s \<Longrightarrow> gen_inv s"
  by (auto simp: new_set_def inv_defs known_def open_bindings_def split: if_splits)

lemma reachable_inv: "new_set cap = Inr s0 \<Longrightarrow> gen_step\<^sup>*\<^sup>* s0 s \<Longrightarrow> gen_inv s"
  using runtime_unit.run_inv_evolves new_set_inv by blast

section \<open>Properties\<close>

text \<open>A run that reaches a busy unit: generation 1 serves a turn, generation 2 replaced it.\<close>

definition demo0 :: runtime_set where
  "demo0 = (case new_set 2 of Inr s \<Rightarrow> s | Inl _ \<Rightarrow> undefined)"

definition state_of :: "('a \<times> runtime_set) result \<Rightarrow> runtime_set" where
  "state_of r = (case r of Inr (_, s) \<Rightarrow> s | Inl _ \<Rightarrow> undefined)"

definition demo1 :: runtime_set where
  "demo1 = snd (acquire_started ''a'' 7 (state_of (acquire_begin ''a'' demo0)))"

definition demo2 :: runtime_set where
  "demo2 = snd (acquire_started ''b'' 8 (state_of (acquire_begin ''b'' demo1)))"

lemma demo0_new: "new_set 2 = Inr demo0"
  by (simp add: demo0_def new_set_def)

lemma acquire_steps:
  assumes "acquire_begin d s = Inr (None, t)" and "rs_starting s = None"
  shows "gen_step\<^sup>*\<^sup>* s (snd (acquire_started d r t))"
proof -
  have "rs_starting t = Some d" using assms(1) by (auto simp: acquire_begin_def bind_result_eq_Inr split: option.splits)
  then have "gen_step t (snd (acquire_started d r t))" by (rule gen_step.started) (rule prod.collapse [symmetric])
  moreover have "gen_step s t" by (rule gen_step.start [OF assms(2,1)])
  ultimately show ?thesis by simp
qed

lemma begun_state: "acquire_begin d s = Inr (None, t) \<Longrightarrow> state_of (acquire_begin d s) = t"
  by (simp add: state_of_def)

lemma begins:
  assumes "\<not> rs_stopping s" and "\<forall>c. rs_current s = Some c \<longrightarrow> g_digest (rs_gens s c) \<noteq> d"
    and "find (serves d s) (rev (rs_retiring s)) = None"
  shows "acquire_begin d s = Inr (None, s\<lparr>rs_starting := Some d\<rparr>)"
  using assms by (auto simp: acquire_begin_def bind_serving_def admitting_def split: option.splits)

lemma demo1_reached: "gen_step\<^sup>*\<^sup>* demo0 demo1"
proof -
  have "acquire_begin ''a'' demo0 = Inr (None, demo0\<lparr>rs_starting := Some ''a''\<rparr>)"
    by (rule begins) (simp_all add: demo0_def new_set_def)
  moreover have "rs_starting demo0 = None" by (simp add: demo0_def new_set_def)
  ultimately show ?thesis using acquire_steps begun_state by (simp add: demo1_def)
qed

lemma demo2_reached: "gen_step\<^sup>*\<^sup>* demo0 demo2"
proof -
  have "\<not> rs_stopping demo1" "rs_current demo1 = Some 1" "g_digest (rs_gens demo1 1) = ''a''" "rs_retiring demo1 = []"
    "rs_starting demo1 = None" by code_simp+
  then have "acquire_begin ''b'' demo1 = Inr (None, demo1\<lparr>rs_starting := Some ''b''\<rparr>)" "rs_starting demo1 = None"
    by (auto intro!: begins)
  then have "gen_step\<^sup>*\<^sup>* demo1 demo2" using acquire_steps begun_state by (simp add: demo2_def)
  with demo1_reached show ?thesis by simp
qed

text \<open>
  C34: what every reachable state of a runtime unit satisfies, whatever the interleaving. The
  retiring generations are in serial order without repetition, the current one is open and
  is not among them; a generation is marked stopped exactly when the unit no longer holds
  it; its binding count is the number of its unreleased bindings; and a generation whose
  graceful stop is under way has no work.
\<close>

theorem runtime_unit_invariant:
  assumes "new_set cap = Inr s0" and "gen_step\<^sup>*\<^sup>* s0 s"
  shows "sorted (rs_retiring s) \<and> distinct (generations s)
    \<and> (\<forall>c. rs_current s = Some c \<longrightarrow> \<not> g_closed (rs_gens s c))
    \<and> (\<forall>g. known s g \<longrightarrow> g_stopped (rs_gens s g) = (g \<notin> set (generations s)) \<and> g_bindings (rs_gens s g) = int (open_bindings s g))
    \<and> (\<forall>g requests. rs_reconciler s = Awaiting g False requests \<longrightarrow> g_stopped (rs_gens s g) \<and> open_bindings s g = 0)"
proof -
  have inv: "gen_inv s" by (rule reachable_inv [OF assms])
  have att: "g \<in> set (generations s) \<longleftrightarrow> attached s g" for g by (auto simp: generations_def attached_def split: option.splits)
  have "distinct (generations s)" using inv by (auto simp: generations_def inv_defs split: option.splits)
  moreover have "g_stopped (rs_gens s g) \<and> open_bindings s g = 0" if "rs_reconciler s = Awaiting g False requests" for g requests
    using inv that by (auto simp: gen_inv_def awaiting_ok_def flags_ok_def frame_ok_def)
  ultimately show ?thesis using inv by (auto simp: att gen_inv_def frame_ok_def flags_ok_def)
qed

theorem runtime_unit_invariant_witness:
  "sorted (rs_retiring demo2) \<and> distinct (generations demo2) \<and> generations demo2 = [1, 2]"
proof -
  have "generations demo2 = [1, 2]" by code_simp
  then show ?thesis using runtime_unit_invariant [OF demo0_new demo2_reached] by simp
qed

lemma bind_to_result:
  assumes "bind_to g s = (b, s')"
  shows "rs_bindings s' ! b = \<lparr>b_generation = g, b_released = False\<rparr>" and "b < length (rs_bindings s')"
    and "rs_current s' = rs_current s" and "g_digest (rs_gens s' h) = g_digest (rs_gens s h)"
    and "g_closed (rs_gens s' h) = g_closed (rs_gens s h)" and "g_stopped (rs_gens s' h) = g_stopped (rs_gens s h)"
  using assms by (auto simp: bind_to_def split: if_splits)

lemma install_current_gens:
  "g_digest (rs_gens (install_current g s) h) = g_digest (rs_gens s h)"
  "g_closed (rs_gens (install_current g s) h) = g_closed (rs_gens s h)"
  by (auto simp: install_current_def kick_def Let_def split: option.splits)

definition bound_to_open :: "string \<Rightarrow> nat \<Rightarrow> runtime_set \<Rightarrow> bool" where
  "bound_to_open digest b s \<longleftrightarrow>
     b < length (rs_bindings s) \<and> \<not> b_released (rs_bindings s ! b)
     \<and> (let g = b_generation (rs_bindings s ! b) in
        rs_current s = Some g \<and> g_digest (rs_gens s g) = digest \<and> \<not> g_closed (rs_gens s g) \<and> \<not> g_stopped (rs_gens s g))"

lemma current_open: "gen_inv s \<Longrightarrow> rs_current s = Some g \<Longrightarrow> \<not> g_closed (rs_gens s g) \<and> \<not> g_stopped (rs_gens s g)"
  by (auto simp: inv_defs)

lemma bind_serving_open:
  assumes "gen_inv s" and "bind_serving digest s = Inr (Some b, s')"
  shows "bound_to_open digest b s'"
proof -
  have inv: "gen_inv s'" by (rule bind_serving_inv [OF assms(2,1)])
  obtain g t where g: "bind_to g t = (b, s')" "rs_current t = Some g" "g_digest (rs_gens t g) = digest"
    using assms(2) by (cases rule: bind_serving_cases) (auto simp: serves_def promote_def install_current_gens)
  note r = bind_to_result [OF g(1)]
  show ?thesis using g r current_open [OF inv, of g] by (simp add: bound_to_open_def)
qed

text \<open>
  C35: a turn is only ever bound to the open current generation with the launch spec it asked
  for. From every reachable state, when \<open>acquire\<close> returns a binding, whether it was served from
  a live generation or had to start one, that generation is current, has the requested
  digest, and is neither retired on purpose nor stopped; and a stopping unit admits nothing.
\<close>

theorem acquire_binds_open_generation:
  assumes "new_set cap = Inr s0" and "gen_step\<^sup>*\<^sup>* s0 s"
  shows "(\<forall>b s'. bind_serving digest s = Inr (Some b, s') \<longrightarrow> bound_to_open digest b s')
    \<and> (\<forall>b s'. acquire_started digest runtime s = (Inr b, s') \<longrightarrow> bound_to_open digest b s')
    \<and> (rs_stopping s \<longrightarrow> isl (bind_serving digest s) \<and> isl (fst (acquire_started digest runtime s)))"
proof (intro conjI allI impI)
  have inv: "gen_inv s" by (rule reachable_inv [OF assms])
  fix b s'
  show "bound_to_open digest b s'" if "bind_serving digest s = Inr (Some b, s')" using bind_serving_open [OF inv that] .
  show "bound_to_open digest b s'" if run: "acquire_started digest runtime s = (Inr b, s')"
  proof -
    obtain g s1 where fresh: "new_serial digest runtime (s\<lparr>rs_starting := None\<rparr>) = (g, s1)" by fastforce
    then have b: "bind_to g (install_current g s1) = (b, s')"
      using run by (auto simp: acquire_started_def split: if_splits prod.splits)
    have "rs_gens s1 g = new_generation digest runtime" using fresh by (auto simp: new_serial_def)
    then show ?thesis using bind_to_result [OF b] current_open [OF acquire_started_inv [OF run inv], of g]
      by (simp add: bound_to_open_def install_current_gens new_generation_def)
  qed
next
  assume "rs_stopping s"
  then show "isl (bind_serving digest s)" "isl (fst (acquire_started digest runtime s))"
    by (auto simp: bind_serving_def admitting_def acquire_started_def new_serial_def split: prod.splits)
qed

theorem acquire_binds_open_generation_witness:
  "\<exists>b s'. bind_serving ''b'' demo2 = Inr (Some b, s') \<and> bound_to_open ''b'' b s'"
proof -
  have "case bind_serving ''b'' demo2 of Inr (Some b, s') \<Rightarrow> True | _ \<Rightarrow> False" by code_simp
  then show ?thesis using acquire_binds_open_generation [OF demo0_new demo2_reached, of "''b''"]
    by (auto split: sum.splits option.splits prod.splits)
qed

text \<open>
  C36: the reconciler always comes to rest. From any state whatever, whatever the stop that is
  under way and those still to come answer, the task ends once no other method runs between
  its awaits: it calls each stop at most once per kind, at most twice the number of
  generations retiring or being stopped in all, and this is a run of the unit that leaves no
  task. A pass that other methods do interrupt may try a generation again: a retry request or
  the release of its last binding entitles it to that.
\<close>

theorem reconciler_pass_ends:
  "distinct (fst (run_reconciler answer stop s))
   \<and> length (fst (run_reconciler answer stop s)) \<le> 2 * length (rs_retiring s @ in_flight s)
   \<and> gen_step\<^sup>*\<^sup>* s (snd (run_reconciler answer stop s)) \<and> rs_reconciler (snd (run_reconciler answer stop s)) = NotRunning"
proof -
  have calls: "distinct (fst (reconcile_pass stop t)) \<and> length (fst (reconcile_pass stop t)) \<le> 2 * length (rs_retiring t)
      \<and> rs_reconciler (snd (reconcile_pass stop t)) = NotRunning" for t
    using pass_calls [of stop t] untried_bound [of t] by auto
  show ?thesis
  proof (cases "rs_reconciler s")
    case (Awaiting g force requests)
    let ?s1 = "settle_stop answer g force requests s"
    have len: "length (fst (reconcile_pass stop ?s1)) \<le> 2 * Suc (length (rs_retiring s))"
      using calls [of ?s1] settle_stop_length [of answer g force requests s] by auto
    show ?thesis using run_reconciler_runs [of s answer stop] calls [of ?s1] len Awaiting
      by (auto simp: run_reconciler_def in_flight_def Let_def)
  qed (use run_reconciler_runs [of s answer stop] calls [of "s\<lparr>rs_tried_forced := {}, rs_tried_graceful := {}\<rparr>"] in
    \<open>auto simp: run_reconciler_def in_flight_def fresh_pass_def\<close>)
qed



lemma close_each_closes:
  "\<forall>g\<in>set gs. g_closed (rs_gens (close_each gs s) g)"
proof (induction gs arbitrary: s)
  case (Cons g gs)
  let ?s1 = "if rs_current s = Some g then add_retiring g ((upd_gen g (\<lambda>r. r\<lparr>g_closed := True\<rparr>) s)\<lparr>rs_current := None\<rparr>)
      else upd_gen g (\<lambda>r. r\<lparr>g_closed := True\<rparr>) s"
  have eq: "close_each (g # gs) s = close_each gs ?s1" by (simp add: Let_def)
  have keep: "g_closed (rs_gens t h) \<Longrightarrow> g_closed (rs_gens (close_each hs t) h)" for h hs t
    by (induction hs arbitrary: t) (simp_all add: Let_def)
  have "g_closed (rs_gens ?s1 g)" by simp
  then show ?case using Cons.IH [of ?s1] keep unfolding eq by simp
qed simp

lemma stop_all_generations:
  assumes "gen_inv s"
  shows "set (rs_retiring (stop_all force s)) = set (generations s)" and "rs_current (stop_all force s) = None"
    and "rs_force_all (stop_all True s)" and "rs_stopping (stop_all force s)" and "\<forall>g\<in>set (generations s). g_closed (rs_gens (stop_all force s) g)"
proof -
  have "rs_retiring (close_each [c] t) = sort (rs_retiring t @ [c])" if "rs_current t = Some c" for t c
    using that by (simp add: Let_def)
  then have "set (rs_retiring (close_each (generations s) s)) = set (generations s)"
    using close_each_retiring [OF assms, of "rs_retiring s"]
    by (cases "rs_current s") (simp_all add: generations_def close_each_append del: close_each.simps(2))
  then show "set (rs_retiring (stop_all force s)) = set (generations s)"
    by (simp add: stop_all_closing kick_def request_retry_def closing_def)
  show "rs_current (stop_all force s) = None"
    using close_all_inv [OF assms] by (simp add: stop_all_closing kick_def request_retry_def closing_def)
  show "rs_force_all (stop_all True s)" "rs_stopping (stop_all force s)" by (simp_all add: stop_all_closing kick_def request_retry_def closing_def)
  show "\<forall>g\<in>set (generations s). g_closed (rs_gens (stop_all force s) g)"
    using close_each_closes [of "generations s" s] by (simp add: stop_all_closing kick_def request_retry_def closing_def)
qed

lemma forced_pass:
  assumes "gen_inv (t\<lparr>rs_reconciler := NotRunning\<rparr>)" and "rs_force_all t" and "rs_tried_forced t = {}"
    and "\<forall>g force. stop g force \<noteq> StopCancelled"
  shows "set (rs_retiring (snd (reconcile_pass stop t))) = {g \<in> set (rs_retiring t). stop g True \<noteq> StopDone}"
    and "rs_current (snd (reconcile_pass stop t)) = rs_current t" and "rs_stopping (snd (reconcile_pass stop t)) = rs_stopping t"
proof -
  have res: "pass_result stop t (fst (reconcile_pass stop t)) (snd (reconcile_pass stop t))"
    using pass_achieves [OF assms(1,4)] .
  define calls s' where "calls = fst (reconcile_pass stop t)" and "s' = snd (reconcile_pass stop t)"
  have "filter (\<lambda>g. g \<notin> rs_tried_forced s') (rs_retiring s') = []"
    using res assms(2) by (auto simp: pass_result_def s'_def next_victim_def Let_def split: if_splits)
  then have tried: "\<forall>g\<in>set (rs_retiring s'). (g, True) \<in> set calls"
    using res assms(3) by (auto simp: pass_result_def s'_def calls_def filter_empty_conv)
  have left: "set (rs_retiring s') = {g \<in> set (rs_retiring t). \<forall>f. (g, f) \<in> set calls \<longrightarrow> stop g f \<noteq> StopDone}"
    using res unfolding pass_result_def s'_def [symmetric] calls_def [symmetric] by (elim conjE)
  have forced: "\<forall>g f. (g, f) \<in> set calls \<longrightarrow> f"
    using res assms(2) unfolding pass_result_def s'_def [symmetric] calls_def [symmetric] by blast
  have "set (rs_retiring s') = {g \<in> set (rs_retiring t). stop g True \<noteq> StopDone}"
  proof (intro set_eqI iffI)
    fix g
    show "g \<in> {g \<in> set (rs_retiring t). stop g True \<noteq> StopDone}" if "g \<in> set (rs_retiring s')"
      using that bspec [OF tried that] unfolding left by simp
    show "g \<in> set (rs_retiring s')" if g: "g \<in> {g \<in> set (rs_retiring t). stop g True \<noteq> StopDone}"
      unfolding left using g forced [rule_format, of g] by (auto; metis (full_types))
  qed
  then show "set (rs_retiring (snd (reconcile_pass stop t))) = {g \<in> set (rs_retiring t). stop g True \<noteq> StopDone}"
    by (simp add: s'_def)
  show "rs_current (snd (reconcile_pass stop t)) = rs_current t" "rs_stopping (snd (reconcile_pass stop t)) = rs_stopping t"
    using res by (simp_all add: pass_result_def)
qed

lemma stop_all_reconciler:
  "rs_reconciler (stop_all force s) = (if rs_reconciler s = NotRunning then Created else rs_reconciler s)"
  "rs_tried_forced (stop_all force s) = {}"
  "rs_retry_requests (stop_all force s) = Suc (rs_retry_requests s)"
proof -
  have "rs_reconciler (close_each gs t) = rs_reconciler t \<and> rs_retry_requests (close_each gs t) = rs_retry_requests t" for gs t
    by (induction gs arbitrary: t) (simp_all add: Let_def)
  then show "rs_reconciler (stop_all force s) = (if rs_reconciler s = NotRunning then Created else rs_reconciler s)"
    "rs_tried_forced (stop_all force s) = {}" "rs_retry_requests (stop_all force s) = Suc (rs_retry_requests s)"
    by (simp_all add: stop_all_def kick_def request_retry_def Let_def)
qed

text \<open>The state from which the task goes on after a forced \<open>stop_all\<close>, the stop under way settled.\<close>

definition shutdown_left :: "stop_outcome \<Rightarrow> runtime_set \<Rightarrow> nat set" where
  "shutdown_left answer s = set (generations s) \<union> (if answer = StopDone then {} else set (in_flight s))"

lemma shutdown_pass:
  assumes "gen_inv s" and "answer \<noteq> StopCancelled"
  shows "\<exists>t. run_reconciler answer stop (stop_all True s) = reconcile_pass stop t \<and> gen_inv (t\<lparr>rs_reconciler := NotRunning\<rparr>)
    \<and> rs_force_all t \<and> rs_stopping t \<and> rs_current t = None \<and> rs_tried_forced t = {} \<and> set (rs_retiring t) = shutdown_left answer s"
proof -
  note all = stop_all_generations [OF assms(1)] and inv = stop_all_inv [OF assms(1), of True]
  show ?thesis
  proof (cases "rs_reconciler s")
    case (Awaiting g force requests)
    then have await: "rs_reconciler (stop_all True s) = Awaiting g force requests" by (simp add: stop_all_reconciler)
    show ?thesis
      by (rule exI [of _ "settle_stop answer g force requests (stop_all True s)"])
        (use await assms(2) all settled_inv [OF inv await] Awaiting in
          \<open>auto simp: run_reconciler_def stop_all_reconciler(2) shutdown_left_def in_flight_def\<close>)
  qed (rule exI [of _ "(stop_all True s)\<lparr>rs_tried_forced := {}, rs_tried_graceful := {}\<rparr>"],
    use all inv gen_inv_not_running [of "(stop_all True s)\<lparr>rs_tried_forced := {}, rs_tried_graceful := {}\<rparr>"] in
    \<open>auto simp: run_reconciler_def stop_all_reconciler fresh_pass_def shutdown_left_def in_flight_def\<close>)+
qed

text \<open>
  C38: a forced shutdown gets rid of every process it can. From every reachable state, also while
  a graceful or a forced stop is under way, \<open>stop_all(force=True)\<close> followed by the reconciler's
  own run, uninterrupted and not cancelled, is a run of the unit that leaves exactly the
  generations whose forced stop does not succeed, whatever work they had: those that were
  attached and, unless its stop under way succeeds after all, the one being stopped, which
  is tried again by force. What is left admits no turn: there is no current generation and
  the unit is stopping. A start under way is not among them: it attaches its process later.
\<close>

theorem forced_shutdown_stops_everything:
  assumes "new_set cap = Inr s0" and "gen_step\<^sup>*\<^sup>* s0 s" and "\<forall>g force. stop g force \<noteq> StopCancelled" and "answer \<noteq> StopCancelled"
  shows "set (generations (snd (run_reconciler answer stop (stop_all True s))))
      = {g \<in> set (generations s) \<union> (if answer = StopDone then {} else set (in_flight s)). stop g True \<noteq> StopDone}
    \<and> rs_current (snd (run_reconciler answer stop (stop_all True s))) = None
    \<and> rs_stopping (snd (run_reconciler answer stop (stop_all True s)))
    \<and> rs_reconciler (snd (run_reconciler answer stop (stop_all True s))) = NotRunning
    \<and> gen_step\<^sup>*\<^sup>* s (snd (run_reconciler answer stop (stop_all True s)))"
proof -
  have inv: "gen_inv s" by (rule reachable_inv [OF assms(1,2)])
  obtain t where t: "run_reconciler answer stop (stop_all True s) = reconcile_pass stop t" "gen_inv (t\<lparr>rs_reconciler := NotRunning\<rparr>)"
    "rs_force_all t" "rs_stopping t" "rs_current t = None" "rs_tried_forced t = {}" "set (rs_retiring t) = shutdown_left answer s"
    using shutdown_pass [OF inv assms(4), of stop] by blast
  have "gen_step\<^sup>*\<^sup>* s (snd (run_reconciler answer stop (stop_all True s)))"
    using gen_step.stopped_all [of s True] run_reconciler_runs [of "stop_all True s" answer stop]
    by (rule converse_rtranclp_into_rtranclp)
  then show ?thesis using forced_pass [OF t(2,3,6) assms(3)] t pass_calls [of stop t]
    by (simp add: generations_def [of "snd _"] shutdown_left_def)
qed

text \<open>Generation 1 of the busy unit released and its graceful stop under way.\<close>

definition demo3 :: runtime_set where
  "demo3 = reconcile_begin (release 0 demo2)"

lemma demo3_reached: "gen_step\<^sup>*\<^sup>* demo0 demo3"
proof -
  have "rs_reconciler (release 0 demo2) = Created" "0 < length (rs_bindings demo2)" by code_simp+
  then have "gen_step demo2 (release 0 demo2)" "gen_step (release 0 demo2) demo3"
    unfolding demo3_def by (auto intro: gen_step.released gen_step.reconciler_begins)
  with demo2_reached show ?thesis by (meson rtranclp.rtrancl_into_rtrancl)
qed

theorem forced_shutdown_stops_everything_witness:
  "in_flight demo3 = [1] \<and> generations demo3 = [2]
   \<and> set (generations (snd (run_reconciler StopDeclined (\<lambda>g force. if g = 1 then StopFailed else StopDone) (stop_all True demo3)))) = {1}"
proof -
  have d: "in_flight demo3 = [1]" "generations demo3 = [2]" by code_simp+
  moreover have "{g \<in> {2} \<union> {1}. (if g = 1 then StopFailed else StopDone) \<noteq> StopDone} = {1::nat}" by auto
  ultimately show ?thesis
    using forced_shutdown_stops_everything [OF demo0_new demo3_reached, of "\<lambda>g force. if g = 1 then StopFailed else StopDone" StopDeclined]
    by simp
qed

text \<open>A generation that is replaced while a stop is awaited, when a retiring one serves instead.\<close>

lemma displaced_current:
  assumes "gen_inv s" and "rs_reconciler s = Awaiting h force n" and "rs_current s = Some g" and "g_digest (rs_gens s g) \<noteq> d"
    and "bind_serving d s = Inr (Some b, s')"
  shows "g \<in> set (rs_retiring s')" and "g_bindings (rs_gens s' g) = g_bindings (rs_gens s g)"
    and "g_deferred (rs_gens s' g) = g_deferred (rs_gens s g)" and "g_failed (rs_gens s' g) = g_failed (rs_gens s g)"
    and "rs_tried_graceful s' = rs_tried_graceful s" and "rs_reconciler s' = Awaiting h force n"
proof -
  obtain m where m: "m \<in> set (rs_retiring s)" and s': "bind_to m (promote m s) = (b, s')"
    using assms(3-5) by (auto elim!: bind_serving_cases)
  have ne: "m \<noteq> g" using assms(1,3) m by (auto simp: inv_defs)
  show "g \<in> set (rs_retiring s')" "g_bindings (rs_gens s' g) = g_bindings (rs_gens s g)"
    "g_deferred (rs_gens s' g) = g_deferred (rs_gens s g)" "g_failed (rs_gens s' g) = g_failed (rs_gens s g)"
    "rs_tried_graceful s' = rs_tried_graceful s" "rs_reconciler s' = Awaiting h force n"
    using ne s' assms(2,3) by (auto simp: bind_to_def promote_def install_current_def kick_def add_retiring_def Let_def)
qed

text \<open>A run in which a generation drains unnoticed, and the states it goes through.\<close>

definition missed_gen :: "string \<Rightarrow> nat \<Rightarrow> bool \<Rightarrow> bool \<Rightarrow> int \<Rightarrow> bool \<Rightarrow> generation" where
  "missed_gen d r retiring stopped n deferred =
     \<lparr>g_digest = d, g_runtime = r, g_retiring = retiring, g_stopped = stopped, g_bindings = n, g_closed = False,
      g_deferred = deferred, g_failed = False\<rparr>"

definition missed_state :: "generation \<Rightarrow> generation \<Rightarrow> generation \<Rightarrow> runtime_binding list \<Rightarrow> nat \<Rightarrow> nat list \<Rightarrow> reconciler \<Rightarrow> nat set \<Rightarrow> runtime_set" where
  "missed_state g1 g2 g3 bs c ret rec tried =
     \<lparr>rs_cap = 5, rs_gens = (\<lambda>_. new_generation [] 0)(1 := g1, 2 := g2, 3 := g3), rs_bindings = bs, rs_next_serial = 4, rs_starting = None,
      rs_current = Some c, rs_retiring = ret, rs_stopping = False, rs_force_all = False, rs_reconciler = rec,
      rs_tried_forced = {}, rs_tried_graceful = tried, rs_retry_requests = 0\<rparr>"

definition missed_adopted :: runtime_set where
  "missed_adopted =
     state_of (adopt ''x'' 3 False (state_of (adopt ''b'' 2 True (state_of (adopt ''a'' 1 True
       (case new_set 5 of Inr s \<Rightarrow> s | Inl _ \<Rightarrow> undefined))))))"

definition missed_before :: runtime_set where
  "missed_before = reconcile_resume StopDeclined (reconcile_begin missed_adopted)"

definition missed_idle :: runtime_set where
  "missed_idle = release 0 (state_of (bind_serving ''a'' missed_before))"

lemmas method_defs = adopt_def new_serial_def admitting_def install_current_def add_retiring_def upd_gen_def kick_def
  bind_serving_def bind_to_def promote_def serves_def release_def reconcile_resume_def settle_stop_def reattach_def
  reconcile_begin_def reconcile_next_def next_victim_def detach_def state_of_def Let_def

lemma missed_adopted_eq:
  "missed_adopted = missed_state (missed_gen ''a'' 1 True False 0 False) (missed_gen ''b'' 2 False False 0 False)
     (missed_gen ''x'' 3 True False 0 False) [] 2 [1, 3] Created {}"
  by (simp add: missed_adopted_def missed_state_def missed_gen_def method_defs new_set_def new_generation_def numeral_2_eq_2 numeral_3_eq_3 fun_eq_iff)

lemma missed_begun:
  "reconcile_begin missed_adopted = missed_state (missed_gen ''a'' 1 False True 0 False) (missed_gen ''b'' 2 False False 0 False)
     (missed_gen ''x'' 3 True False 0 False) [] 2 [3] (Awaiting 1 False 0) {1}"
  unfolding missed_adopted_eq by (simp add: missed_state_def missed_gen_def method_defs fun_eq_iff)

lemma missed_before_eq:
  "missed_before = missed_state (missed_gen ''a'' 1 True False 0 True) (missed_gen ''b'' 2 False False 0 False)
     (missed_gen ''x'' 3 False True 0 False) [] 2 [1] (Awaiting 3 False 0) {3, 1}"
  unfolding missed_before_def missed_begun by (simp add: missed_state_def missed_gen_def method_defs fun_eq_iff)

lemma missed_served:
  "bind_serving ''a'' missed_before = Inr (Some 0, missed_state (missed_gen ''a'' 1 False False 1 False) (missed_gen ''b'' 2 True False 0 False)
     (missed_gen ''x'' 3 False True 0 False) [\<lparr>b_generation = 1, b_released = False\<rparr>] 1 [2] (Awaiting 3 False 0) {3, 1})"
  unfolding missed_before_eq by (simp add: missed_state_def missed_gen_def method_defs fun_eq_iff)

lemma missed_idle_eq:
  "missed_idle = missed_state (missed_gen ''a'' 1 False False 0 False) (missed_gen ''b'' 2 True False 0 False)
     (missed_gen ''x'' 3 False True 0 False) [\<lparr>b_generation = 1, b_released = True\<rparr>] 1 [2] (Awaiting 3 False 0) {3, 1}"
  unfolding missed_idle_def missed_served by (simp add: missed_state_def missed_gen_def method_defs fun_eq_iff)

text \<open>
  C39: a drained generation can be left running although nothing declined to stop it since. In
  every reachable state where the reconciler awaits a stop and the current generation is
  without work, neither deferred nor failed, but already tried by this pass (it declined, and
  served turns again since), let a turn for another launch spec be served by a live retiring
  generation. Then the current one retires drained, yet the rest of the pass never stops it
  gracefully: unless the cap forces it out, the reconciler ends with it retiring, without
  work, and neither deferred nor failed, and nothing will try it before the next request.
\<close>

theorem drained_generation_missed:
  assumes "new_set cap = Inr s0" and "gen_step\<^sup>*\<^sup>* s0 s" and "rs_reconciler s = Awaiting h force n" and "answer \<noteq> StopCancelled"
    and "rs_current s = Some g" and "g \<in> rs_tried_graceful s"
    and "g_bindings (rs_gens s g) = 0" and "\<not> g_deferred (rs_gens s g)" and "\<not> g_failed (rs_gens s g)"
    and "g_digest (rs_gens s g) \<noteq> d" and "bind_serving d s = Inr (Some b, s')"
  shows "(g, False) \<notin> set (fst (run_reconciler answer stop s'))
    \<and> rs_reconciler (snd (run_reconciler answer stop s')) = NotRunning
    \<and> ((g, True) \<in> set (fst (run_reconciler answer stop s'))
       \<or> g \<in> set (rs_retiring (snd (run_reconciler answer stop s')))
         \<and> g_bindings (rs_gens (snd (run_reconciler answer stop s')) g) = 0
         \<and> \<not> g_deferred (rs_gens (snd (run_reconciler answer stop s')) g)
         \<and> \<not> g_failed (rs_gens (snd (run_reconciler answer stop s')) g))"
proof -
  have inv: "gen_inv s" by (rule reachable_inv [OF assms(1,2)])
  note s' = displaced_current [OF inv assms(3,5,10,11)]
  define s1 where "s1 = settle_stop answer h force n s'"
  have run: "run_reconciler answer stop s' = reconcile_pass stop s1" using s'(6) assms(4) by (simp add: run_reconciler_def s1_def)
  have "h \<noteq> g" using inv assms(3,5) by (auto simp: inv_defs)
  then have g: "rs_gens s1 g = rs_gens s' g" "g \<in> set (rs_retiring s1)" "g \<in> rs_tried_graceful s1"
    using s'(1,5) assms(6) by (simp_all add: s1_def)
  have calls: "(g, False) \<notin> set (fst (reconcile_pass stop s1))" "rs_reconciler (snd (reconcile_pass stop s1)) = NotRunning"
    using pass_calls [of stop s1] g(3) by auto
  show ?thesis
  proof (cases "(g, True) \<in> set (fst (reconcile_pass stop s1))")
    case False
    then have "(g, f) \<notin> set (fst (reconcile_pass stop s1))" for f using calls(1) by (cases f) simp_all
    from pass_other [OF this] show ?thesis using run calls g s'(2-4) assms(7-9) by simp
  qed (use run calls in simp)
qed

lemma missed_reached: "\<exists>s0. new_set 5 = Inr s0 \<and> gen_step\<^sup>*\<^sup>* s0 missed_idle"
proof -
  obtain s0 where s0: "new_set 5 = Inr s0" and cont: "\<not> rs_stopping s0" by (auto simp: new_set_def)
  have adopts: "gen_step s (state_of (adopt d r c s)) \<and> \<not> rs_stopping (state_of (adopt d r c s))" if admits: "\<not> rs_stopping s" for d r c s
  proof -
    obtain g s' where a: "adopt d r c s = Inr (g, s')" using admits
      by (cases "new_serial d r s") (simp add: adopt_def admitting_def)
    then have "\<not> rs_stopping s'" using admits
      by (auto simp: adopt_def admitting_def new_serial_def install_current_def kick_def Let_def split: if_splits option.splits)
    with a show ?thesis by (simp add: state_of_def gen_step.adopted)
  qed
  let ?a = "state_of (adopt ''a'' 1 True s0)"
  let ?b = "state_of (adopt ''b'' 2 True ?a)"
  have adopted: "missed_adopted = state_of (adopt ''x'' 3 False ?b)" by (simp add: missed_adopted_def s0)
  have a: "gen_step s0 ?a" "\<not> rs_stopping ?a" using adopts [OF cont] by blast+
  have b: "gen_step ?a ?b" "\<not> rs_stopping ?b" using adopts [OF a(2)] by blast+
  have "gen_step ?b missed_adopted" using adopts [OF b(2)] unfolding adopted by blast
  note a(1) b(1) this
  moreover have "gen_step missed_adopted (reconcile_begin missed_adopted)"
    by (rule gen_step.reconciler_begins) (simp add: missed_adopted_eq missed_state_def)
  moreover have "gen_step (reconcile_begin missed_adopted) missed_before" unfolding missed_before_def
    by (rule gen_step.reconciler_resumes [of _ 1 False 0]) (simp add: missed_begun missed_state_def)
  moreover have "gen_step missed_before (state_of (bind_serving ''a'' missed_before))"
    using gen_step.serve [OF missed_served] by (simp add: state_of_def missed_served)
  moreover have "gen_step (state_of (bind_serving ''a'' missed_before)) missed_idle" unfolding missed_idle_def
    by (rule gen_step.released) (simp add: missed_served state_of_def missed_state_def)
  ultimately have "gen_step\<^sup>*\<^sup>* s0 missed_idle" by (meson rtranclp.rtrancl_into_rtrancl rtranclp.rtrancl_refl)
  with s0 show ?thesis by blast
qed

theorem drained_generation_missed_witness:
  "\<exists>b s'. bind_serving ''b'' missed_idle = Inr (Some b, s')
    \<and> (1, False) \<notin> set (fst (run_reconciler StopDone (\<lambda>g force. StopDone) s'))
    \<and> ((1, True) \<in> set (fst (run_reconciler StopDone (\<lambda>g force. StopDone) s'))
       \<or> 1 \<in> set (rs_retiring (snd (run_reconciler StopDone (\<lambda>g force. StopDone) s'))))"
proof -
  obtain s0 where s0: "new_set 5 = Inr s0" "gen_step\<^sup>*\<^sup>* s0 missed_idle" using missed_reached by blast
  obtain b s' where served: "bind_serving ''b'' missed_idle = Inr (Some b, s')"
    unfolding missed_idle_eq by (simp add: missed_state_def missed_gen_def method_defs)
  have "rs_reconciler missed_idle = Awaiting 3 False 0" "rs_current missed_idle = Some 1" "1 \<in> rs_tried_graceful missed_idle"
    "g_bindings (rs_gens missed_idle 1) = 0" "\<not> g_deferred (rs_gens missed_idle 1)" "\<not> g_failed (rs_gens missed_idle 1)"
    "g_digest (rs_gens missed_idle 1) \<noteq> ''b''"
    by (simp_all add: missed_idle_eq missed_state_def missed_gen_def)
  from drained_generation_missed [OF s0 this(1) _ this(2-7) served, of StopDone "\<lambda>g force. StopDone"] served
  show ?thesis by auto
qed

end
