(* ===== verification/Worker.thy ===== *)
theory Worker
  imports Prelude
begin

text \<open>
  The ordered worker (\<open>src/core/ordered_worker.py\<close>): any thread submits jobs, one daemon thread runs
  them, and \<open>drain\<close> waits for the queue with a bound and discards what is left. A job is known by
  its place in the order of submission (the order of \<open>put\<close>). \<open>Future\<close> is the class of
  \<open>concurrent.futures\<close>: its states, \<open>cancel\<close>, \<open>set_running_or_notify_cancel\<close>, \<open>set_result\<close> and
  \<open>set_exception\<close>. Each step is one operation that the queue's or a future's lock makes atomic, and
  the steps of the threads interleave freely; what a job does is its outcome.
\<close>

section \<open>Futures\<close>

datatype outcome = Returned | Raised string

datatype future_state = Pending | Running | Cancelled | CancelledAndNotified | Finished outcome

definition future_cancel :: "future_state \<Rightarrow> bool \<times> future_state" where
  "future_cancel f = (case f of
      Running \<Rightarrow> (False, f)
    | Finished x \<Rightarrow> (False, f)
    | Cancelled \<Rightarrow> (True, f)
    | CancelledAndNotified \<Rightarrow> (True, f)
    | Pending \<Rightarrow> (True, Cancelled))"

text \<open>\<open>Inl\<close> is the exception for a future in another state.\<close>

definition set_running_or_notify_cancel :: "future_state \<Rightarrow> (bool \<times> future_state) result" where
  "set_running_or_notify_cancel f = (case f of
      Cancelled \<Rightarrow> Inr (False, CancelledAndNotified)
    | Pending \<Rightarrow> Inr (True, Running)
    | _ \<Rightarrow> Inl (RuntimeError ''Future in unexpected state''))"

definition set_outcome :: "outcome \<Rightarrow> future_state \<Rightarrow> future_state result" where
  "set_outcome x f = (case f of
      Cancelled \<Rightarrow> Inl (RuntimeError ''invalid state'')
    | CancelledAndNotified \<Rightarrow> Inl (RuntimeError ''invalid state'')
    | Finished y \<Rightarrow> Inl (RuntimeError ''invalid state'')
    | _ \<Rightarrow> Inr (Finished x))"

fun is_finished :: "future_state \<Rightarrow> bool" where
  "is_finished (Finished x) = True"
| "is_finished _ = False"

definition settled :: "future_state \<Rightarrow> bool" where
  "settled f \<longleftrightarrow> f \<noteq> Pending \<and> f \<noteq> Running"

section \<open>The worker\<close>

text \<open>
  \<open>w_futures\<close> holds the future of every job in the order of submission and \<open>w_jobs\<close> the jobs that wait in
  the queue. \<open>w_running\<close> is the job whose function the thread is running, and \<open>w_started\<close> the jobs it
  has started so far, a history variable.
\<close>

record worker =
  w_futures :: "future_state list"
  w_jobs :: "nat list"
  w_thread :: bool
  w_running :: "nat option"
  w_started :: "nat list"

definition new_worker :: worker where
  "new_worker = \<lparr>w_futures = [], w_jobs = [], w_thread = False, w_running = None, w_started = []\<rparr>"

definition set_future :: "nat \<Rightarrow> future_state \<Rightarrow> worker \<Rightarrow> worker" where
  "set_future j f w = w\<lparr>w_futures := (w_futures w)[j := f]\<rparr>"

text \<open>
  \<open>submit\<close> puts the job and makes sure of the thread. The thread is created under its own lock, a
  moment after the put; that only delays the first step of the thread.
\<close>

definition submit :: "worker \<Rightarrow> nat \<times> worker" where
  "submit w =
     (length (w_futures w),
      w\<lparr>w_futures := w_futures w @ [Pending], w_jobs := w_jobs w @ [length (w_futures w)], w_thread := True\<rparr>)"

text \<open>One turn of the loop of \<open>_run\<close> up to the call of the job, and what follows the call.\<close>

definition take_job :: "worker \<Rightarrow> worker result" where
  "take_job w = (case w_jobs w of
      [] \<Rightarrow> Inr w
    | j # js \<Rightarrow>
        bind_result (set_running_or_notify_cancel (w_futures w ! j)) (\<lambda>(run, f).
          let w' = set_future j f (w\<lparr>w_jobs := js\<rparr>) in
          Inr (if run then w'\<lparr>w_running := Some j, w_started := w_started w' @ [j]\<rparr> else w')))"

definition finish_job :: "outcome \<Rightarrow> worker \<Rightarrow> worker result" where
  "finish_job x w = (case w_running w of
      None \<Rightarrow> Inr w
    | Some j \<Rightarrow> bind_result (set_outcome x (w_futures w ! j)) (\<lambda>f. Inr (set_future j f (w\<lparr>w_running := None\<rparr>))))"

text \<open>The holder of a future cancels it.\<close>

definition cancel_job :: "nat \<Rightarrow> worker \<Rightarrow> bool \<times> worker" where
  "cancel_job j w = (case future_cancel (w_futures w ! j) of (ok, f) \<Rightarrow> (ok, set_future j f w))"

text \<open>
  \<open>drain\<close> after its timeout: one \<open>get_nowait\<close> with the cancellation of what it returned, and the loop
  when no other thread intervenes, with the number of jobs discarded (\<open>own\<close> is the job \<open>drain\<close> itself
  submitted).
\<close>

definition discard_one :: "nat \<Rightarrow> nat \<Rightarrow> worker \<Rightarrow> nat \<times> worker" where
  "discard_one own n w = (case w_jobs w of
      [] \<Rightarrow> (n, w)
    | j # js \<Rightarrow> case cancel_job j (w\<lparr>w_jobs := js\<rparr>) of (ok, w') \<Rightarrow> (if ok \<and> j \<noteq> own then n + 1 else n, w'))"

function discard_loop :: "nat \<Rightarrow> nat \<Rightarrow> worker \<Rightarrow> nat \<times> worker" where
  "discard_loop own n w =
     (if w_jobs w = [] then (n, w) else case discard_one own n w of (n', w') \<Rightarrow> discard_loop own n' w')"
  by pat_completeness auto
termination
  by (relation "measure (\<lambda>(own, n, w). length (w_jobs w))")
    (auto simp: discard_one_def cancel_job_def set_future_def split: list.splits prod.splits)

declare discard_loop.simps [simp del]

text \<open>
  What \<open>drain\<close> returns once it has waited: \<open>True\<close> when its own job has finished, otherwise it discards
  the queue and returns \<open>False\<close>. When another thread that drains has cancelled that job, waiting for it raises.
\<close>

definition drain_after_wait :: "nat \<Rightarrow> worker \<Rightarrow> (bool \<times> nat \<times> worker) result" where
  "drain_after_wait own w =
     (if is_finished (w_futures w ! own) then Inr (True, 0, w)
      else if w_futures w ! own = Cancelled \<or> w_futures w ! own = CancelledAndNotified then Inl (RuntimeError ''CancelledError'')
      else Inr (False, discard_loop own 0 w))"

inductive worker_step :: "worker \<Rightarrow> worker \<Rightarrow> bool" where
  submitted: "submit w = (j, w') \<Longrightarrow> worker_step w w'"
| taken: "w_thread w \<Longrightarrow> w_running w = None \<Longrightarrow> take_job w = Inr w' \<Longrightarrow> worker_step w w'"
| finished: "finish_job x w = Inr w' \<Longrightarrow> worker_step w w'"
| cancelled: "j < length (w_futures w) \<Longrightarrow> cancel_job j w = (ok, w') \<Longrightarrow> worker_step w w'"
| discarded: "discard_one own n w = (n', w') \<Longrightarrow> worker_step w w'"

inductive_cases worker_stepE: "worker_step w w'"

section \<open>The invariant\<close>

text \<open>Where a job is decides what its future may be.\<close>

definition job_ok :: "worker \<Rightarrow> nat \<Rightarrow> bool" where
  "job_ok w j \<longleftrightarrow>
     (if j \<in> set (w_jobs w) then w_futures w ! j = Pending \<or> w_futures w ! j = Cancelled
      else if w_running w = Some j then w_futures w ! j = Running
      else if j \<in> set (w_started w) then is_finished (w_futures w ! j)
      else w_futures w ! j = Cancelled \<or> w_futures w ! j = CancelledAndNotified)"

definition order_ok :: "worker \<Rightarrow> bool" where
  "order_ok w \<longleftrightarrow>
     sorted_wrt (<) (w_started w @ w_jobs w)
     \<and> (\<forall>j\<in>set (w_started w @ w_jobs w). j < length (w_futures w))
     \<and> (\<forall>j. w_running w = Some j \<longrightarrow> w_started w \<noteq> [] \<and> j = last (w_started w))
     \<and> (w_jobs w \<noteq> [] \<longrightarrow> w_thread w)"

definition worker_inv :: "worker \<Rightarrow> bool" where
  "worker_inv w \<longleftrightarrow> order_ok w \<and> (\<forall>j<length (w_futures w). job_ok w j)"

lemma submit_inv:
  assumes "worker_inv w" and "submit w = (j, w')"
  shows "worker_inv w'"
proof -
  have w': "w' = w\<lparr>w_futures := w_futures w @ [Pending], w_jobs := w_jobs w @ [length (w_futures w)], w_thread := True\<rparr>"
    using assms(2) by (auto simp: submit_def)
  have "order_ok w'" using assms(1) by (auto simp: w' worker_inv_def order_ok_def sorted_wrt_append intro: less_SucI)
  moreover have "job_ok w' i" if "i < length (w_futures w')" for i
    using that assms(1) by (cases "i < length (w_futures w)") (auto simp: w' worker_inv_def job_ok_def nth_append)
  ultimately show ?thesis by (simp add: worker_inv_def)
qed

lemma take_job_cases:
  assumes "worker_inv w" and "take_job w = Inr w'"
  obtains (empty) "w_jobs w = []" "w' = w"
  | (run) j js where "w_jobs w = j # js" "w_futures w ! j = Pending"
      "w' = w\<lparr>w_futures := (w_futures w)[j := Running], w_jobs := js, w_running := Some j, w_started := w_started w @ [j]\<rparr>"
  | (skip) j js where "w_jobs w = j # js" "w_futures w ! j = Cancelled"
      "w' = w\<lparr>w_futures := (w_futures w)[j := CancelledAndNotified], w_jobs := js\<rparr>"
  using assms
  by (cases "w_jobs w")
    (auto simp: take_job_def set_running_or_notify_cancel_def set_future_def bind_result_eq_Inr Let_def
      split: future_state.splits prod.splits)

lemma take_job_inv:
  assumes "worker_inv w" and "w_running w = None" and "take_job w = Inr w'"
  shows "worker_inv w'"
  using assms(1,3)
proof (cases rule: take_job_cases)
  case empty
  then show ?thesis using assms(1) by simp
next
  case (run j js)
  have "order_ok w'" using assms(1) run by (auto simp: worker_inv_def order_ok_def sorted_wrt_append)
  moreover have "j \<notin> set js" using assms(1) run(1) by (auto simp: worker_inv_def order_ok_def sorted_wrt_append)
  moreover have "job_ok w' i" if "i < length (w_futures w')" for i
    using that assms(1,2) run \<open>j \<notin> set js\<close>
    by (cases "i = j") (auto simp: worker_inv_def job_ok_def)
  ultimately show ?thesis by (simp add: worker_inv_def)
next
  case (skip j js)
  have "order_ok w'" using assms(1) skip by (auto simp: worker_inv_def order_ok_def sorted_wrt_append)
  moreover have "j \<notin> set js" "j \<notin> set (w_started w)"
    using assms(1) skip(1) by (auto simp: worker_inv_def order_ok_def sorted_wrt_append)
  moreover have "job_ok w' i" if "i < length (w_futures w')" for i
    using that assms(1,2) skip \<open>j \<notin> set js\<close> \<open>j \<notin> set (w_started w)\<close>
    by (cases "i = j") (auto simp: worker_inv_def job_ok_def)
  ultimately show ?thesis by (simp add: worker_inv_def)
qed

text \<open>The running job was the last to start and no longer waits.\<close>

lemma running_job:
  assumes "worker_inv w" and "w_running w = Some j"
  shows "j \<in> set (w_started w)" "j \<notin> set (w_jobs w)" "j < length (w_futures w)" "w_futures w ! j = Running"
proof -
  show started: "j \<in> set (w_started w)" using assms by (auto simp: worker_inv_def order_ok_def)
  show waits: "j \<notin> set (w_jobs w)"
    using assms(1) started by (auto simp: worker_inv_def order_ok_def sorted_wrt_append)
  show len: "j < length (w_futures w)" using assms(1) started by (simp add: worker_inv_def order_ok_def)
  show "w_futures w ! j = Running" using assms waits len by (auto simp: worker_inv_def job_ok_def)
qed

lemma finish_job_inv:
  assumes "worker_inv w" and "finish_job x w = Inr w'"
  shows "worker_inv w'"
proof (cases "w_running w")
  case None
  then show ?thesis using assms by (simp add: finish_job_def)
next
  case (Some j)
  note job = running_job [OF assms(1) Some]
  have w': "w' = w\<lparr>w_futures := (w_futures w)[j := Finished x], w_running := None\<rparr>"
    using assms(2) Some job by (auto simp: finish_job_def set_outcome_def set_future_def)
  have "order_ok w'" using assms(1) by (auto simp: w' worker_inv_def order_ok_def)
  moreover have "job_ok w' i" if "i < length (w_futures w')" for i
    using that assms(1) job Some by (cases "i = j") (auto simp: w' worker_inv_def job_ok_def)
  ultimately show ?thesis by (simp add: worker_inv_def)
qed

lemma set_future_same: "w_futures w ! j = f \<Longrightarrow> set_future j f w = w"
  using list_update_id [of "w_futures w" j] by (simp add: set_future_def)

lemma cancel_job_eq:
  assumes "cancel_job j w = (ok, w')"
  shows "w' = (if w_futures w ! j = Pending then w\<lparr>w_futures := (w_futures w)[j := Cancelled]\<rparr> else w)"
  using assms by (cases "w_futures w ! j") (auto simp: cancel_job_def future_cancel_def set_future_same, simp add: set_future_def)

lemma cancel_job_inv:
  assumes "worker_inv w" and "j < length (w_futures w)" and "cancel_job j w = (ok, w')"
  shows "worker_inv w'"
proof (cases "w_futures w ! j = Pending")
  case True
  have w': "w' = w\<lparr>w_futures := (w_futures w)[j := Cancelled]\<rparr>" using cancel_job_eq [OF assms(3)] True by simp
  have "order_ok w'" using assms(1) by (simp add: w' worker_inv_def order_ok_def)
  moreover have "job_ok w' i" if "i < length (w_futures w')" for i
    using that assms(1,2) True by (cases "i = j") (auto simp: w' worker_inv_def job_ok_def split: if_splits)
  ultimately show ?thesis by (simp add: worker_inv_def)
next
  case False
  then show ?thesis using cancel_job_eq [OF assms(3)] assms(1) by simp
qed

lemma discard_one_eq:
  assumes "worker_inv w" and "w_jobs w = j # js"
  shows "discard_one own n w = (if j = own then n else n + 1, w\<lparr>w_futures := (w_futures w)[j := Cancelled], w_jobs := js\<rparr>)"
proof -
  have "j < length (w_futures w)" "w_futures w ! j = Pending \<or> w_futures w ! j = Cancelled"
    using assms by (auto simp: worker_inv_def order_ok_def job_ok_def dest!: spec [of _ j])
  then show ?thesis
    using assms(2) list_update_id [of "w_futures w" j]
    by (auto simp: discard_one_def cancel_job_def future_cancel_def set_future_def)
qed

lemma discard_one_inv:
  assumes "worker_inv w" and "discard_one own n w = (n', w')"
  shows "worker_inv w'"
proof (cases "w_jobs w")
  case Nil
  then show ?thesis using assms by (simp add: discard_one_def)
next
  case (Cons j js)
  have w': "w' = w\<lparr>w_futures := (w_futures w)[j := Cancelled], w_jobs := js\<rparr>"
    using assms(2) discard_one_eq [OF assms(1) Cons] by simp
  have "order_ok w'" using assms(1) Cons by (auto simp: w' worker_inv_def order_ok_def sorted_wrt_append)
  moreover have "j \<notin> set js" "j \<notin> set (w_started w)" "w_running w \<noteq> Some j"
    using assms(1) Cons running_job(2) [OF assms(1), of j] by (auto simp: worker_inv_def order_ok_def sorted_wrt_append)
  moreover have "job_ok w' i" if "i < length (w_futures w')" for i
    using that assms(1) Cons \<open>j \<notin> set js\<close> \<open>j \<notin> set (w_started w)\<close> \<open>w_running w \<noteq> Some j\<close>
    by (cases "i = j") (auto simp: w' worker_inv_def job_ok_def)
  ultimately show ?thesis by (simp add: worker_inv_def)
qed

lemma worker_step_inv: "worker_inv w \<Longrightarrow> worker_step w w' \<Longrightarrow> worker_inv w'"
  by (elim worker_stepE)
    (blast intro: submit_inv take_job_inv finish_job_inv cancel_job_inv discard_one_inv)+

lemma new_worker_inv: "worker_inv new_worker"
  by (simp add: worker_inv_def order_ok_def new_worker_def)

section \<open>How the worker evolves\<close>

text \<open>Jobs are only added, a settled future keeps its outcome, and what has started stays started, in order.\<close>

definition future_evolves :: "future_state \<Rightarrow> future_state \<Rightarrow> bool" where
  "future_evolves f g \<longleftrightarrow>
     (is_finished f \<longrightarrow> g = f)
     \<and> (f = CancelledAndNotified \<longrightarrow> g = f)
     \<and> (f = Cancelled \<longrightarrow> g = Cancelled \<or> g = CancelledAndNotified)
     \<and> (f = Running \<longrightarrow> g = Running \<or> is_finished g)"

definition worker_evolves :: "worker \<Rightarrow> worker \<Rightarrow> bool" where
  "worker_evolves w w' \<longleftrightarrow>
     length (w_futures w) \<le> length (w_futures w')
     \<and> (\<forall>j<length (w_futures w). future_evolves (w_futures w ! j) (w_futures w' ! j))
     \<and> (\<exists>later. w_started w' = w_started w @ later)"

lemma future_evolves_refl [simp]: "future_evolves f f"
  by (simp add: future_evolves_def)

lemma future_evolves_trans: "future_evolves f g \<Longrightarrow> future_evolves g h \<Longrightarrow> future_evolves f h"
  by (cases f; cases g; cases h) (auto simp: future_evolves_def)

lemma worker_evolves_refl: "worker_evolves w w"
  by (simp add: worker_evolves_def)

lemma worker_evolves_trans: "worker_evolves w w' \<Longrightarrow> worker_evolves w' w'' \<Longrightarrow> worker_evolves w w''"
  unfolding worker_evolves_def by (auto intro: future_evolves_trans less_le_trans)

lemma worker_evolves_update:
  assumes "future_evolves (w_futures w ! j) f" "w_futures w' = (w_futures w)[j := f]"
    and "w_started w' = w_started w @ later"
  shows "worker_evolves w w'"
proof -
  have "future_evolves (w_futures w ! i) ((w_futures w)[j := f] ! i)" if "i < length (w_futures w)" for i
    using assms(1) that by (cases "i = j") auto
  then show ?thesis using assms(2,3) by (simp add: worker_evolves_def)
qed

lemma worker_step_evolves:
  assumes "worker_inv w" and "worker_step w w'"
  shows "worker_evolves w w'"
  using assms(2)
proof (cases rule: worker_step.cases)
  case (submitted j)
  then show ?thesis by (auto simp: submit_def worker_evolves_def nth_append)
next
  case taken
  show ?thesis using assms(1) taken(3)
  proof (cases rule: take_job_cases)
    case empty
    then show ?thesis by (simp add: worker_evolves_refl)
  next
    case (run j js)
    then show ?thesis by (intro worker_evolves_update [of w j Running w' "[j]"]) (auto simp: future_evolves_def)
  next
    case (skip j js)
    then show ?thesis
      by (intro worker_evolves_update [of w j CancelledAndNotified w' "[]"]) (auto simp: future_evolves_def)
  qed
next
  case (finished x)
  show ?thesis
  proof (cases "w_running w")
    case None
    then show ?thesis using finished by (simp add: finish_job_def worker_evolves_refl)
  next
    case (Some j)
    then show ?thesis using finished running_job(4) [OF assms(1) Some]
      by (intro worker_evolves_update [of w j "Finished x" w' "[]"])
        (auto simp: finish_job_def set_outcome_def set_future_def future_evolves_def)
  qed
next
  case (cancelled j ok)
  then show ?thesis
    using cancel_job_eq [OF cancelled(2)] worker_evolves_update [of w j Cancelled w' "[]"]
    by (auto simp: future_evolves_def worker_evolves_refl split: if_splits)
next
  case (discarded own n n')
  show ?thesis
  proof (cases "w_jobs w")
    case Nil
    then show ?thesis using discarded by (simp add: discard_one_def worker_evolves_refl)
  next
    case (Cons j js)
    have "w_futures w ! j = Pending \<or> w_futures w ! j = Cancelled"
      using assms(1) Cons by (auto simp: worker_inv_def order_ok_def job_ok_def dest!: spec [of _ j])
    then show ?thesis
      using discarded discard_one_eq [OF assms(1) Cons, of own n]
      by (intro worker_evolves_update [of w j Cancelled w' "[]"]) (auto simp: future_evolves_def)
  qed
qed

interpretation ordered_worker: evolving_system worker_step worker_inv worker_evolves
  by unfold_locales (auto intro: worker_step_inv worker_step_evolves worker_evolves_refl worker_evolves_trans)

lemma reachable_worker: "worker_step\<^sup>*\<^sup>* new_worker w \<Longrightarrow> worker_inv w"
  using ordered_worker.run_inv_evolves new_worker_inv by blast

section \<open>Draining\<close>

text \<open>Everything submitted before a finished job has settled.\<close>

lemma before_started_settled:
  assumes "worker_inv w" and "j \<in> set (w_started w)" and "i < j"
  shows "i \<notin> set (w_jobs w) \<and> w_running w \<noteq> Some i"
proof -
  have order: "sorted_wrt (<) (w_started w @ w_jobs w)" using assms(1) by (simp add: worker_inv_def order_ok_def)
  have "i \<notin> set (w_jobs w)" using order assms(2,3) by (auto simp: sorted_wrt_append dest: less_asym)
  moreover have "w_running w \<noteq> Some i"
  proof
    assume "w_running w = Some i"
    then have "i = last (w_started w)" "w_started w \<noteq> []" using assms(1) by (auto simp: worker_inv_def order_ok_def)
    moreover from this have "w_started w = butlast (w_started w) @ [i]" by simp
    moreover have "sorted_wrt (<) (w_started w)" using order by (simp add: sorted_wrt_append)
    ultimately have "\<forall>k\<in>set (butlast (w_started w)). k < i" by (metis list.set_intros(1) sorted_wrt_append)
    then show False using assms(2,3) \<open>w_started w = butlast (w_started w) @ [i]\<close>
      by (metis Un_iff empty_set empty_iff in_set_butlastD list.set(2) insert_iff not_less_iff_gr_or_eq set_append)
  qed
  ultimately show ?thesis by blast
qed

lemma finished_iff_started:
  assumes "worker_inv w" and "j < length (w_futures w)"
  shows "is_finished (w_futures w ! j) \<longleftrightarrow> j \<in> set (w_started w) \<and> w_running w \<noteq> Some j"
proof -
  have "j \<in> set (w_started w) \<Longrightarrow> j \<notin> set (w_jobs w)"
    using assms(1) by (auto simp: worker_inv_def order_ok_def sorted_wrt_append)
  then show ?thesis using assms by (auto simp: worker_inv_def job_ok_def split: if_splits)
qed

lemma settled_outside:
  assumes "worker_inv w" and "j < length (w_futures w)" and "j \<notin> set (w_jobs w)" and "w_running w \<noteq> Some j"
  shows "settled (w_futures w ! j)"
  using assms by (cases "w_futures w ! j") (auto simp: worker_inv_def job_ok_def settled_def split: if_splits)

lemma discard_loop_result:
  assumes "worker_inv w" and "discard_loop own n w = (n', w')"
  shows "worker_inv w' \<and> w_jobs w' = [] \<and> w_running w' = w_running w \<and> w_started w' = w_started w
    \<and> n' = n + length (filter (\<lambda>j. j \<noteq> own) (w_jobs w)) \<and> length (w_futures w') = length (w_futures w)
    \<and> (\<forall>j<length (w_futures w). w_futures w' ! j = (if j \<in> set (w_jobs w) then Cancelled else w_futures w ! j))"
  using assms
proof (induction "length (w_jobs w)" arbitrary: n w)
  case 0
  then show ?case by (subst (asm) discard_loop.simps) auto
next
  case (Suc k)
  obtain j js where jobs: "w_jobs w = j # js" using Suc.hyps(2) by (cases "w_jobs w") auto
  let ?w = "w\<lparr>w_futures := (w_futures w)[j := Cancelled], w_jobs := js\<rparr>" and ?n = "if j = own then n else n + 1"
  note one = discard_one_eq [OF Suc.prems(1) jobs, of own n]
  have inv: "worker_inv ?w" by (rule discard_one_inv [OF Suc.prems(1) one])
  have loop: "discard_loop own ?n ?w = (n', w')"
    using Suc.prems(2) jobs one by (subst (asm) discard_loop.simps) simp
  have "k = length (w_jobs ?w)" using Suc.hyps(2) jobs by simp
  note rec = Suc.hyps(1) [OF this inv loop]
  have "w_futures w' ! i = (if i \<in> set (w_jobs w) then Cancelled else w_futures w ! i)" if "i < length (w_futures w)" for i
    using rec that jobs by (cases "i = j") auto
  then show ?case using rec jobs by auto
qed

section \<open>Properties\<close>


definition demo_worker :: worker where
  "demo_worker = \<lparr>w_futures = [Finished Returned, Running, Pending], w_jobs = [2], w_thread = True, w_running = Some 1, w_started = [0, 1]\<rparr>"

lemma demo_worker_reached: "worker_step\<^sup>*\<^sup>* new_worker demo_worker"
proof -
  let ?w = "\<lambda>fs js r st. \<lparr>w_futures = fs, w_jobs = js, w_thread = True, w_running = r, w_started = st\<rparr>"
  have "worker_step new_worker (?w [Pending] [0] None [])"
    by (rule worker_step.submitted [of _ 0]) (simp add: submit_def new_worker_def)
  moreover have "worker_step (?w [Pending] [0] None []) (?w [Running] [] (Some 0) [0])"
    by (rule worker_step.taken) (simp_all add: take_job_def set_running_or_notify_cancel_def set_future_def Let_def)
  moreover have "worker_step (?w [Running] [] (Some 0) [0]) (?w [Running, Pending] [1] (Some 0) [0])"
    by (rule worker_step.submitted [of _ 1]) (simp add: submit_def)
  moreover have "worker_step (?w [Running, Pending] [1] (Some 0) [0]) (?w [Finished Returned, Pending] [1] None [0])"
    by (rule worker_step.finished [of Returned]) (simp add: finish_job_def set_outcome_def set_future_def)
  moreover have "worker_step (?w [Finished Returned, Pending] [1] None [0]) (?w [Finished Returned, Pending, Pending] [1, 2] None [0])"
    by (rule worker_step.submitted [of _ 2]) (simp add: submit_def)
  moreover have "worker_step (?w [Finished Returned, Pending, Pending] [1, 2] None [0]) demo_worker"
    by (rule worker_step.taken)
      (simp_all add: take_job_def set_running_or_notify_cancel_def set_future_def Let_def demo_worker_def)
  ultimately show ?thesis by (meson converse_rtranclp_into_rtranclp rtranclp.rtrancl_refl)
qed


text \<open>
  What \<open>drain\<close> returns is true. When the job that \<open>drain\<close> submitted has finished, every job
  submitted before it has settled; when the wait timed out, the queue is left empty, each job
  that still waited is cancelled and counted (\<open>drain\<close>'s own job apart), and nothing but the job the thread
  is running is unsettled.
\<close>

theorem drain_settles:
  assumes "worker_step\<^sup>*\<^sup>* new_worker w" and "own < length (w_futures w)"
    and "drain_after_wait own w = Inr (drained, discarded, w')"
  shows "(drained \<longrightarrow> w' = w \<and> (\<forall>j<own. settled (w_futures w ! j)))
    \<and> (\<not> drained \<longrightarrow> w_jobs w' = [] \<and> discarded = length (filter (\<lambda>j. j \<noteq> own) (w_jobs w))
         \<and> (\<forall>j\<in>set (w_jobs w). w_futures w' ! j = Cancelled)
         \<and> (\<forall>j<length (w_futures w'). w_running w' \<noteq> Some j \<longrightarrow> settled (w_futures w' ! j)))"
proof (cases "is_finished (w_futures w ! own)")
  case True
  have inv: "worker_inv w" using assms(1) by (rule reachable_worker)
  have "own \<in> set (w_started w)" using finished_iff_started [OF inv assms(2)] True by blast
  then have "settled (w_futures w ! j)" if "j < own" for j
    using before_started_settled [OF inv _ that] that assms(2) by (intro settled_outside [OF inv]) auto
  then show ?thesis using True assms(3) by (auto simp: drain_after_wait_def)
next
  case False
  have inv: "worker_inv w" using assms(1) by (rule reachable_worker)
  have loop: "discard_loop own 0 w = (discarded, w')" "\<not> drained"
    using False assms(3) by (auto simp: drain_after_wait_def split: if_splits)
  note res = discard_loop_result [OF inv loop(1)]
  have "settled (w_futures w' ! j)" if "j < length (w_futures w')" "w_running w' \<noteq> Some j" for j
    using res that by (intro settled_outside) auto
  moreover have "\<forall>j\<in>set (w_jobs w). j < length (w_futures w)" using inv by (simp add: worker_inv_def order_ok_def)
  ultimately show ?thesis using res loop(2) by auto
qed

theorem drain_settles_witness:
  "drain_after_wait 2 demo_worker =
     Inr (False, 0, demo_worker\<lparr>w_futures := [Finished Returned, Running, Cancelled], w_jobs := []\<rparr>)
   \<and> settled ([Finished Returned, Running, Cancelled] ! 0) \<and> settled ([Finished Returned, Running, Cancelled] ! 2)"
proof -
  have d: "drain_after_wait 2 demo_worker =
     Inr (False, 0, demo_worker\<lparr>w_futures := [Finished Returned, Running, Cancelled], w_jobs := []\<rparr>)"
    by (simp add: drain_after_wait_def demo_worker_def discard_loop.simps discard_one_def cancel_job_def
        future_cancel_def set_future_def)
  let ?fs = "[Finished Returned, Running, Cancelled]"
  have all: "\<forall>j<3. j \<noteq> 1 \<longrightarrow> settled (?fs ! j)"
    using drain_settles [OF demo_worker_reached _ d] by (simp add: demo_worker_def numeral_3_eq_3 eq_commute)
  show ?thesis using d all [rule_format, of 0] all [rule_format, of 2] by simp
qed

end
