(* ===== verification/Recovery.thy ===== *)
theory Recovery
  imports Prelude
begin

text \<open>
  Recovery of Model Hub sources (\<open>src/core/handlers/model_hub/retry.py\<close>): how long a source that
  failed is left alone, who may probe it first, and how long a request may go on waiting. Instants
  and spans are whole microseconds, the resolution of \<open>datetime\<close>, on two clocks, the wall clock
  and the monotonic one; an operation that reads the clocks at two places takes two readings.
  \<open>random.uniform\<close> is the argument \<open>jitter\<close>, \<open>datetime.fromisoformat\<close> (a time without a zone read as
  UTC) the argument \<open>parse_iso\<close> and \<open>parsedate_to_datetime\<close> the argument \<open>http_date\<close>, with \<open>None\<close> for a text it
  refuses or a date without a zone. The observer of a request gets the payload \<open>publish\<close> returns;
  \<open>wait\<close>, which only sleeps, is not modelled.
\<close>

section \<open>Constants\<close>

abbreviation seconds :: "int \<Rightarrow> int" where
  "seconds n \<equiv> n * 1000000"

definition RECOVERY_WINDOW_SECONDS :: int where
  "RECOVERY_WINDOW_SECONDS = seconds 1800"

definition LIMIT_RECOVERY_WINDOW_SECONDS :: int where
  "LIMIT_RECOVERY_WINDOW_SECONDS = seconds 120"

definition TRANSIENT_RECOVERY_REASONS :: "string list" where
  "TRANSIENT_RECOVERY_REASONS = [''network'', ''server_error'']"

definition RETRY_DELAYS :: "(string \<times> int list) list" where
  "RETRY_DELAYS =
     [(''network'', [1, 2, 4, 8, 16, 30, 60]), (''server_error'', [30, 60, 120]),
      (''rate_limited'', [60, 120, 240, 300]), (''quota_exhausted'', [300])]"

text \<open>The last instant \<open>datetime\<close> can hold, from the epoch.\<close>

definition DATETIME_MAX :: int where
  "DATETIME_MAX = seconds 253402300799 + 999999"

section \<open>Sources\<close>

datatype source_status = Active | Standby | Cooldown | NeedsAction | ErrorStatus

record source =
  s_id :: string
  kind :: string
  vendor :: string
  protocol :: string
  supply_channel :: string
  base_url :: "string option"
  credential_ref :: "string option"
  credential_generation :: "string option"
  s_status :: source_status
  s_retry_at :: "string option"
  s_detail_key :: "string option"

type_synonym identity = "string \<times> string \<times> string \<times> string \<times> string option \<times> string option \<times> string option"
type_synonym observation = "identity \<times> string option \<times> string option"

definition source_identity :: "source \<Rightarrow> identity" where
  "source_identity s =
     (kind s, vendor s, protocol s, supply_channel s, base_url s, credential_ref s, credential_generation s)"

definition cooldown_observation :: "source \<Rightarrow> observation option" where
  "cooldown_observation s =
     (if s_status s \<noteq> Cooldown then None else Some (source_identity s, s_retry_at s, s_detail_key s))"

definition parse_model_hub_timestamp :: "(string \<Rightarrow> int result) \<Rightarrow> string \<Rightarrow> int result" where
  "parse_model_hub_timestamp parse_iso value = parse_iso (concat (map (\<lambda>c. if c = CHR ''Z'' then ''+00:00'' else [c]) value))"

section \<open>Upstream advice\<close>

definition is_decimal :: "string \<Rightarrow> bool" where
  "is_decimal s \<longleftrightarrow> s \<noteq> [] \<and> list_all (\<lambda>c. 48 \<le> (of_char c :: nat) \<and> (of_char c :: nat) \<le> 57) s"

definition header_deadline :: "(string \<Rightarrow> int option) \<Rightarrow> string \<Rightarrow> int \<Rightarrow> int option" where
  "header_deadline http_date value received_at =
     (if 128 < length value \<or> \<not> list_all (\<lambda>c. (of_char c :: nat) < 128) value then None
      else let value = py_strip value in
        if is_decimal value then
          let deadline = received_at + seconds (int (str_nat value 0)) in
          if deadline \<le> DATETIME_MAX then Some deadline else None
        else http_date value)"

definition milliseconds_deadline :: "int \<Rightarrow> int \<Rightarrow> int option" where
  "milliseconds_deadline milliseconds received_at =
     (let deadline = received_at + milliseconds * 1000 in
      if 0 \<le> milliseconds \<and> deadline \<le> DATETIME_MAX then Some deadline else None)"

definition retry_after_deadline :: "(string \<Rightarrow> int option) \<Rightarrow> string option \<Rightarrow> int \<Rightarrow> int option \<Rightarrow> int option" where
  "retry_after_deadline http_date value received_at milliseconds =
     (let deadlines = List.map_filter id
            [Option.bind value (\<lambda>v. header_deadline http_date v received_at),
             Option.bind milliseconds (\<lambda>n. milliseconds_deadline n received_at)];
          future = filter (\<lambda>d. received_at \<le> d) deadlines in
      case future of [] \<Rightarrow> None | d # ds \<Rightarrow> Some (fold max ds d))"

section \<open>A request's clock\<close>

record clock =
  c_now :: int
  c_mono :: int

record recovery_request =
  q_window :: int
  q_started :: "int option"
  q_started_at :: "int option"
  q_attempt_count :: nat
  q_source_id :: "string option"
  q_reason :: "string option"
  q_transient :: bool
  q_non_retryable :: bool

definition is_transient :: "string option \<Rightarrow> bool" where
  "is_transient reason \<longleftrightarrow> (case reason of None \<Rightarrow> False | Some r \<Rightarrow> r \<in> set TRANSIENT_RECOVERY_REASONS)"

definition start_request :: "clock \<Rightarrow> recovery_request \<Rightarrow> recovery_request" where
  "start_request c q = (if q_started q = None then q\<lparr>q_started := Some (c_mono c), q_started_at := Some (c_now c)\<rparr> else q)"

definition window_seconds :: "recovery_request \<Rightarrow> int" where
  "window_seconds q = (if q_transient q then q_window q else min (q_window q) LIMIT_RECOVERY_WINDOW_SECONDS)"

definition observe_reason :: "string option \<Rightarrow> recovery_request \<Rightarrow> recovery_request" where
  "observe_reason reason q = q\<lparr>q_reason := reason, q_transient := q_transient q \<or> is_transient reason\<rparr>"

definition remaining_for :: "clock \<Rightarrow> string option \<Rightarrow> recovery_request \<Rightarrow> int" where
  "remaining_for c reason q =
     (let window = (if is_transient reason then q_window q else min (q_window q) LIMIT_RECOVERY_WINDOW_SECONDS);
          elapsed = (case q_started q of None \<Rightarrow> 0 | Some t \<Rightarrow> c_mono c - t) in
      max 0 (window - elapsed))"

definition remaining :: "clock \<Rightarrow> recovery_request \<Rightarrow> int" where
  "remaining c q = (case q_started q of None \<Rightarrow> window_seconds q | Some t \<Rightarrow> max 0 (window_seconds q - (c_mono c - t)))"

definition expired :: "clock \<Rightarrow> recovery_request \<Rightarrow> bool" where
  "expired c q \<longleftrightarrow> q_started q \<noteq> None \<and> remaining c q \<le> 0"

definition admits :: "clock \<Rightarrow> string option \<Rightarrow> recovery_request \<Rightarrow> bool" where
  "admits c cooldown_reason q \<longleftrightarrow> \<not> expired c q \<and> (cooldown_reason = None \<or> 0 < remaining_for c cooldown_reason q)"

definition window_end :: "recovery_request \<Rightarrow> int option" where
  "window_end q = map_option (\<lambda>t. t + window_seconds q) (q_started_at q)"

record progress =
  p_phase :: string
  p_started_at :: "int option"
  p_attempt_count :: nat
  p_source_id :: "string option"
  p_reason :: "string option"
  p_next_eligible_at :: "string option"
  p_window_end :: "int option"

definition publish :: "string \<Rightarrow> string option \<Rightarrow> recovery_request \<Rightarrow> progress option" where
  "publish phase next_eligible_at q =
     (if q_started q = None then None
      else Some \<lparr>p_phase = phase, p_started_at = q_started_at q, p_attempt_count = q_attempt_count q,
                 p_source_id = q_source_id q, p_reason = q_reason q, p_next_eligible_at = next_eligible_at,
                 p_window_end = window_end q\<rparr>)"

section \<open>The policy\<close>

record source_recovery =
  r_identity :: identity
  r_reason :: string
  r_failures :: nat
  r_retry_at :: int
  r_eligible_at :: int
  r_owner :: "int option"
  r_failed_generation :: "int option"

text \<open>\<open>changed\<close> counts the replacements of the event that wakes the waiters.\<close>

record policy =
  sources :: "(string \<times> source_recovery) list"
  retired_cooldowns :: "(string \<times> observation) list"
  changed :: nat

definition notify :: "policy \<Rightarrow> policy" where
  "notify p = p\<lparr>changed := changed p + 1\<rparr>"

definition put_source :: "string \<Rightarrow> source_recovery \<Rightarrow> policy \<Rightarrow> policy" where
  "put_source i st p = p\<lparr>sources := dict_put i st (sources p)\<rparr>"

definition del_source :: "string \<Rightarrow> policy \<Rightarrow> policy" where
  "del_source i p = p\<lparr>sources := dict_del i (sources p)\<rparr>"

text \<open>The sources of a configuration by id (the last one of an id wins), as \<open>reconcile\<close> builds them.\<close>

definition hub_source :: "source list \<Rightarrow> string \<Rightarrow> source option" where
  "hub_source config i = find (\<lambda>s. s_id s = i) (rev (filter (\<lambda>s. supply_channel s = ''hub'') config))"

definition reconcile :: "source list \<Rightarrow> policy \<Rightarrow> policy" where
  "reconcile config p =
     (let keeps = (\<lambda>(i, st). case hub_source config i of None \<Rightarrow> False | Some s \<Rightarrow> source_identity s = r_identity st);
          holds = (\<lambda>(i, ob). case hub_source config i of None \<Rightarrow> False | Some s \<Rightarrow> cooldown_observation s = Some ob);
          p' = p\<lparr>sources := filter keeps (sources p), retired_cooldowns := filter holds (retired_cooldowns p)\<rparr> in
      if list_all keeps (sources p) \<and> list_all holds (retired_cooldowns p) then p' else notify p')"

text \<open>
  \<open>_state\<close> in its stages: dropping the state of another identity, the cooldown that a verified
  inference retired, and what the persisted cooldown adds. An operation returns its value or
  exception with the policy it leaves.
\<close>

definition drop_other_identity :: "source \<Rightarrow> policy \<Rightarrow> policy" where
  "drop_other_identity s p =
     (case map_of (sources p) (s_id s) of
        Some st \<Rightarrow> if r_identity st \<noteq> source_identity s then notify (del_source (s_id s) p) else p
      | None \<Rightarrow> p)"

definition restored :: "clock \<Rightarrow> source \<Rightarrow> int \<Rightarrow> source_recovery" where
  "restored c s retry_at =
     \<lparr>r_identity = source_identity s,
      r_reason = rev (takeWhile (\<lambda>x. x \<noteq> CHR ''.'') (rev (opt_str (s_detail_key s)))),
      r_failures = 0, r_retry_at = retry_at, r_eligible_at = c_mono c + max 0 (retry_at - c_now c),
      r_owner = None, r_failed_generation = None\<rparr>"

definition merge_cooldown :: "(string \<Rightarrow> int result) \<Rightarrow> clock \<Rightarrow> source \<Rightarrow> policy \<Rightarrow> source_recovery option result \<times> policy" where
  "merge_cooldown parse_iso c s p =
     (let state = map_of (sources p) (s_id s) in
      if s_status s \<noteq> Cooldown \<or> opt_str (s_retry_at s) = [] then (Inr state, p)
      else case parse_model_hub_timestamp parse_iso (opt_str (s_retry_at s)) of
        Inl e \<Rightarrow> (Inl e, p)
      | Inr persisted \<Rightarrow>
          (case state of
             None \<Rightarrow> let st = restored c s persisted in (Inr (Some st), put_source (s_id s) st p)
           | Some st \<Rightarrow>
               if r_retry_at st < persisted then
                 let st' = st\<lparr>r_retry_at := persisted,
                             r_eligible_at := max (r_eligible_at st) (c_mono c + max 0 (persisted - c_now c))\<rparr> in
                 (Inr (Some st'), put_source (s_id s) st' p)
               else (Inr (Some st), p)))"

definition recovery_state :: "(string \<Rightarrow> int result) \<Rightarrow> clock \<Rightarrow> source \<Rightarrow> policy \<Rightarrow> source_recovery option result \<times> policy" where
  "recovery_state parse_iso c s p =
     (if supply_channel s \<noteq> ''hub'' then (Inr None, p)
      else let p1 = drop_other_identity s p in
        case map_of (retired_cooldowns p1) (s_id s) of
          None \<Rightarrow> merge_cooldown parse_iso c s p1
        | Some ob \<Rightarrow>
            if Some ob = cooldown_observation s then (Inr (map_of (sources p1) (s_id s)), p1)
            else merge_cooldown parse_iso c s (p1\<lparr>retired_cooldowns := dict_del (s_id s) (retired_cooldowns p1)\<rparr>))"

definition base_delay :: "int list \<Rightarrow> nat \<Rightarrow> int" where
  "base_delay delays failures = delays ! min (failures - 1) (length delays - 1)"

definition local_delay :: "(int \<Rightarrow> int \<Rightarrow> int) \<Rightarrow> string \<Rightarrow> int list \<Rightarrow> nat \<Rightarrow> int" where
  "local_delay jitter reason delays failures =
     (let base = base_delay delays failures; cap = last delays;
          lower = (if reason \<in> set TRANSIENT_RECOVERY_REASONS \<and> base = cap then base * 800000 else seconds base) in
      jitter lower (min (seconds cap) (base * 1200000)))"

definition record_failure :: "(string \<Rightarrow> int option) \<Rightarrow> (int \<Rightarrow> int \<Rightarrow> int) \<Rightarrow> clock \<Rightarrow> source \<Rightarrow> string \<Rightarrow> int
    \<Rightarrow> string option \<Rightarrow> int option \<Rightarrow> int option \<Rightarrow> int option \<Rightarrow> source_recovery option \<Rightarrow> policy
    \<Rightarrow> (int \<times> bool) result \<times> policy" where
  "record_failure http_date jitter c s reason generation retry_after retry_after_ms received_at upstream_retry_at state p =
     (let failures = (case state of None \<Rightarrow> 1 | Some st \<Rightarrow> r_failures st + 1) in
      case map_of RETRY_DELAYS reason of
        None \<Rightarrow> (Inl (KeyError reason), p)
      | Some delays \<Rightarrow>
          let now = c_now c; mono = c_mono c;
              local = local_delay jitter reason delays failures;
              received = (case received_at of None \<Rightarrow> now | Some t \<Rightarrow> t);
              upstream = retry_after_deadline http_date retry_after received retry_after_ms;
              deadline = max (now + local) (max (case upstream of None \<Rightarrow> now | Some u \<Rightarrow> u)
                                                (case upstream_retry_at of None \<Rightarrow> now | Some u \<Rightarrow> u));
              eligible = mono + (deadline - now);
              eligible' = (case state of None \<Rightarrow> eligible | Some st \<Rightarrow> max eligible (r_eligible_at st));
              deadline' = (case state of None \<Rightarrow> deadline
                           | Some st \<Rightarrow> max deadline (max (r_retry_at st) (now + (eligible' - mono)))) in
          (Inr (deadline', True),
           notify (put_source (s_id s)
             \<lparr>r_identity = source_identity s, r_reason = reason, r_failures = failures, r_retry_at = deadline',
              r_eligible_at = eligible', r_owner = None, r_failed_generation = Some generation\<rparr> p)))"

definition failed :: "(string \<Rightarrow> int result) \<Rightarrow> (string \<Rightarrow> int option) \<Rightarrow> (int \<Rightarrow> int \<Rightarrow> int) \<Rightarrow> clock \<Rightarrow> clock \<Rightarrow> source \<Rightarrow> string
    \<Rightarrow> int \<Rightarrow> string option \<Rightarrow> int option \<Rightarrow> int option \<Rightarrow> int option \<Rightarrow> policy \<Rightarrow> (int \<times> bool) result \<times> policy" where
  "failed parse_iso http_date jitter c0 c s reason generation retry_after retry_after_ms received_at upstream_retry_at p =
     (case recovery_state parse_iso c0 s p of
        (Inl e, p1) \<Rightarrow> (Inl e, p1)
      | (Inr state, p1) \<Rightarrow>
          case state of
            Some st \<Rightarrow>
              if (case r_failed_generation st of None \<Rightarrow> False | Some g \<Rightarrow> generation \<le> g) then (Inr (r_retry_at st, False), p1)
              else record_failure http_date jitter c s reason generation retry_after retry_after_ms received_at upstream_retry_at state p1
          | None \<Rightarrow>
              record_failure http_date jitter c s reason generation retry_after retry_after_ms received_at upstream_retry_at state p1)"

definition claim :: "(string \<Rightarrow> int result) \<Rightarrow> clock \<Rightarrow> clock \<Rightarrow> source \<Rightarrow> int \<Rightarrow> policy \<Rightarrow> bool result \<times> policy" where
  "claim parse_iso c0 c s generation p =
     (case recovery_state parse_iso c0 s p of
        (Inl e, p1) \<Rightarrow> (Inl e, p1)
      | (Inr None, p1) \<Rightarrow> (Inr True, p1)
      | (Inr (Some st), p1) \<Rightarrow>
          if r_owner st \<noteq> None \<or> c_mono c < r_eligible_at st then (Inr False, p1)
          else (Inr True, notify (put_source (s_id s) (st\<lparr>r_owner := Some generation\<rparr>) p1)))"



record annotation =
  a_reason :: string
  a_retry_at :: "int option"
  a_in_flight :: bool
  a_retired_cooldown :: "(string option \<times> string option) option"

text \<open>One source of \<open>annotations\<close>, and the loop over the configuration.\<close>

definition annotate :: "(string \<Rightarrow> int result) \<Rightarrow> clock \<Rightarrow> source \<Rightarrow> (string \<times> annotation) list \<times> policy
    \<Rightarrow> ((string \<times> annotation) list \<times> policy) result" where
  "annotate parse_iso c s rp =
     (case rp of (res, p) \<Rightarrow> case recovery_state parse_iso c s p of
        (Inl e, p1) \<Rightarrow> Inl e
      | (Inr state, p1) \<Rightarrow>
          let retired = map_option snd (map_of (retired_cooldowns p1) (s_id s)) in
          case state of
            None \<Rightarrow> Inr (case retired of None \<Rightarrow> res
                        | Some ob \<Rightarrow> dict_put (s_id s) \<lparr>a_reason = ''recovery'', a_retry_at = None, a_in_flight = False,
                                                      a_retired_cooldown = Some ob\<rparr> res, p1)
          | Some st \<Rightarrow>
              let left = max 0 (r_eligible_at st - c_mono c) in
              Inr (dict_put (s_id s) \<lparr>a_reason = r_reason st, a_retry_at = (if left \<noteq> 0 then Some (c_now c + left) else None),
                                     a_in_flight = (r_owner st \<noteq> None), a_retired_cooldown = retired\<rparr> res, p1))"

definition annotations :: "(string \<Rightarrow> int result) \<Rightarrow> clock \<Rightarrow> source list \<Rightarrow> policy \<Rightarrow> ((string \<times> annotation) list \<times> policy) result" where
  "annotations parse_iso c config p = fold_result (annotate parse_iso c) config ([], reconcile config p)"

section \<open>The state of a source\<close>

lemma policy_writes [simp]:
  "map_of (sources (notify p)) = map_of (sources p)"
  "map_of (sources (put_source i st p)) = (map_of (sources p))(i \<mapsto> st)"
  "map_of (sources (del_source i p)) = (map_of (sources p))(i := None)"
  by (auto simp: notify_def put_source_def del_source_def)

text \<open>What \<open>recovery_state\<close> returns is the entry it leaves; an entry of the same identity keeps its place and only waits longer.\<close>

definition waits_on :: "source_recovery \<Rightarrow> source_recovery \<Rightarrow> bool" where
  "waits_on st st' \<longleftrightarrow> r_identity st' = r_identity st \<and> r_owner st' = r_owner st \<and> r_failures st' = r_failures st
     \<and> r_failed_generation st' = r_failed_generation st \<and> r_retry_at st \<le> r_retry_at st' \<and> r_eligible_at st \<le> r_eligible_at st'"

lemma waits_on_refl [simp]: "waits_on st st"
  by (simp add: waits_on_def)

lemma drop_other_identity_entry:
  "map_of (sources (drop_other_identity s p)) =
     (case map_of (sources p) (s_id s) of
        Some st \<Rightarrow> if r_identity st \<noteq> source_identity s then (map_of (sources p))(s_id s := None) else map_of (sources p)
      | None \<Rightarrow> map_of (sources p))"
  by (simp add: drop_other_identity_def split: option.splits)

lemma merge_cooldown_entry:
  assumes "merge_cooldown parse_iso c s p = (v, p')"
  shows "v = Inr state \<Longrightarrow> map_of (sources p') (s_id s) = state"
    and "i \<noteq> s_id s \<Longrightarrow> map_of (sources p') i = map_of (sources p) i"
    and "map_of (sources p) (s_id s) = Some st \<Longrightarrow> \<exists>st'. map_of (sources p') (s_id s) = Some st' \<and> waits_on st st'"
    and "map_of (sources p) (s_id s) = None \<Longrightarrow> map_of (sources p') (s_id s) = Some st \<Longrightarrow>
      r_identity st = source_identity s \<and> r_owner st = None"
  using assms
  by (auto simp: merge_cooldown_def waits_on_def restored_def Let_def split: if_splits sum.splits option.splits)

lemma recovery_state_entry:
  assumes "recovery_state parse_iso c s p = (v, p')"
  shows "supply_channel s = ''hub'' \<Longrightarrow> v = Inr state \<Longrightarrow> map_of (sources p') (s_id s) = state"
    and "supply_channel s \<noteq> ''hub'' \<Longrightarrow> v = Inr None \<and> p' = p"
    and "i \<noteq> s_id s \<Longrightarrow> map_of (sources p') i = map_of (sources p) i"
    and "map_of (sources p) (s_id s) = Some st \<Longrightarrow> r_identity st = source_identity s \<Longrightarrow>
      \<exists>st'. map_of (sources p') (s_id s) = Some st' \<and> waits_on st st'"
proof -
  define p1 where "p1 = drop_other_identity s p"
  have p1: "i \<noteq> s_id s \<Longrightarrow> map_of (sources p1) i = map_of (sources p) i" for i
    by (simp add: p1_def drop_other_identity_entry split: option.splits)
  show "supply_channel s \<noteq> ''hub'' \<Longrightarrow> v = Inr None \<and> p' = p"
    using assms by (simp add: recovery_state_def)
  have cases: "(v, p') = (Inr (map_of (sources p1) (s_id s)), p1)
      \<or> (\<exists>p2. map_of (sources p2) = map_of (sources p1) \<and> merge_cooldown parse_iso c s p2 = (v, p'))"
    if "supply_channel s = ''hub''"
    using assms that unfolding recovery_state_def p1_def [symmetric]
    by (auto simp: Let_def split: option.splits if_splits)
  show "map_of (sources p') (s_id s) = state" if "supply_channel s = ''hub''" "v = Inr state"
    using cases that merge_cooldown_entry(1) by fastforce
  show "map_of (sources p') i = map_of (sources p) i" if "i \<noteq> s_id s"
  proof (cases "supply_channel s = ''hub''")
    case True
    then show ?thesis using cases p1 that merge_cooldown_entry(2) by (metis Pair_inject)
  qed (use assms in \<open>simp add: recovery_state_def\<close>)
  show "\<exists>st'. map_of (sources p') (s_id s) = Some st' \<and> waits_on st st'"
    if "map_of (sources p) (s_id s) = Some st" "r_identity st = source_identity s"
  proof (cases "supply_channel s = ''hub''")
    case True
    have "map_of (sources p1) (s_id s) = Some st" using that by (simp add: p1_def drop_other_identity_entry)
    then show ?thesis using cases [OF True] merge_cooldown_entry(3) by fastforce
  qed (use assms that in \<open>simp add: recovery_state_def\<close>)
qed

section \<open>Delays\<close>

lemma RETRY_DELAYS_ascend:
  assumes "map_of RETRY_DELAYS reason = Some delays"
  shows "delays \<noteq> []" and "d \<in> set delays \<Longrightarrow> 0 < d \<and> d \<le> last delays"
  using assms by (auto simp: RETRY_DELAYS_def split: if_splits)

lemma base_delay_in: "delays \<noteq> [] \<Longrightarrow> base_delay delays n \<in> set delays"
  unfolding base_delay_def by (rule nth_mem) (cases delays, auto)

text \<open>The contract of \<open>random.uniform\<close>.\<close>

definition uniform_between :: "(int \<Rightarrow> int \<Rightarrow> int) \<Rightarrow> bool" where
  "uniform_between jitter \<longleftrightarrow> (\<forall>lo hi. lo \<le> hi \<longrightarrow> lo \<le> jitter lo hi \<and> jitter lo hi \<le> hi)"

lemma local_delay_bounds:
  assumes "uniform_between jitter" and "map_of RETRY_DELAYS reason = Some delays"
  shows "base_delay delays n * 800000 \<le> local_delay jitter reason delays n"
    and "local_delay jitter reason delays n \<le> seconds (last delays)"
proof -
  let ?b = "base_delay delays n" and ?cap = "last delays"
  have b: "0 < ?b" "?b \<le> ?cap"
    using RETRY_DELAYS_ascend [OF assms(2)] base_delay_in by auto
  define lower where "lower = (if reason \<in> set TRANSIENT_RECOVERY_REASONS \<and> ?b = ?cap then ?b * 800000 else seconds ?b)"
  define upper where "upper = min (seconds ?cap) (?b * 1200000)"
  have "?b * 800000 \<le> lower" "lower \<le> upper" "upper \<le> seconds ?cap"
    using b by (auto simp: lower_def upper_def)
  moreover have "local_delay jitter reason delays n = jitter lower upper"
    by (simp add: local_delay_def lower_def upper_def Let_def)
  moreover have "lower \<le> jitter lower upper" "jitter lower upper \<le> upper"
    using assms(1) \<open>lower \<le> upper\<close> by (auto simp: uniform_between_def)
  ultimately show "?b * 800000 \<le> local_delay jitter reason delays n" "local_delay jitter reason delays n \<le> seconds ?cap"
    by auto
qed

lemma retry_after_deadline_future: "retry_after_deadline http_date value t ms = Some u \<Longrightarrow> t \<le> u"
proof -
  have "t \<le> d \<Longrightarrow> t \<le> fold max ds d" for d :: int and ds
    by (induction ds arbitrary: d) auto
  moreover assume "retry_after_deadline http_date value t ms = Some u"
  then obtain d ds xs where "u = fold max ds d" "filter (\<lambda>d. t \<le> d) xs = d # ds"
    by (auto simp: retry_after_deadline_def Let_def split: list.splits)
  moreover from this have "t \<le> d" by (metis (mono_tags, lifting) filter_eq_ConsD)
  ultimately show ?thesis by simp
qed

lemma record_failure_entry:
  assumes "record_failure http_date jitter c s reason g ra ms rcv up state p = (Inr (deadline, fresh), p')"
    and "uniform_between jitter"
  obtains delays st' where "map_of RETRY_DELAYS reason = Some delays" and "fresh"
    and "map_of (sources p') = (map_of (sources p))(s_id s \<mapsto> st')" and "r_retry_at st' = deadline"
    and "r_identity st' = source_identity s" and "r_owner st' = None" and "r_failed_generation st' = Some g"
    and "r_failures st' = (case state of None \<Rightarrow> 1 | Some st \<Rightarrow> r_failures st + 1)"
    and "c_mono c + base_delay delays (r_failures st') * 800000 \<le> r_eligible_at st'"
    and "c_now c + (r_eligible_at st' - c_mono c) \<le> deadline"
    and "\<And>st. state = Some st \<Longrightarrow> r_retry_at st \<le> deadline \<and> r_eligible_at st \<le> r_eligible_at st'"
    and "\<And>u. retry_after_deadline http_date ra (case rcv of None \<Rightarrow> c_now c | Some t \<Rightarrow> t) ms = Some u \<Longrightarrow> u \<le> deadline"
    and "\<And>u. up = Some u \<Longrightarrow> u \<le> deadline"
    and "state = None \<Longrightarrow> ra = None \<Longrightarrow> ms = None \<Longrightarrow> up = None \<Longrightarrow> deadline \<le> c_now c + seconds (last delays)"
proof (cases "map_of RETRY_DELAYS reason")
  case None
  then show ?thesis using assms(1) by (simp add: record_failure_def Let_def)
next
  case (Some delays)
  define n where "n = (case state of None \<Rightarrow> 1 | Some st \<Rightarrow> r_failures st + 1)"
  define up' where "up' = retry_after_deadline http_date ra (case rcv of None \<Rightarrow> c_now c | Some t \<Rightarrow> t) ms"
  define d where "d = max (c_now c + local_delay jitter reason delays n)
    (max (case up' of None \<Rightarrow> c_now c | Some u \<Rightarrow> u) (case up of None \<Rightarrow> c_now c | Some u \<Rightarrow> u))"
  define el where "el = (case state of None \<Rightarrow> c_mono c + (d - c_now c) | Some st \<Rightarrow> max (c_mono c + (d - c_now c)) (r_eligible_at st))"
  define d' where "d' = (case state of None \<Rightarrow> d | Some st \<Rightarrow> max d (max (r_retry_at st) (c_now c + (el - c_mono c))))"
  define st' where "st' = \<lparr>r_identity = source_identity s, r_reason = reason, r_failures = n, r_retry_at = d',
     r_eligible_at = el, r_owner = None, r_failed_generation = Some g\<rparr>"
  have "record_failure http_date jitter c s reason g ra ms rcv up state p
      = (Inr (d', True), notify (put_source (s_id s) st' p))"
    unfolding record_failure_def Let_def Some option.case st'_def d'_def el_def d_def up'_def n_def by (rule refl)
  then have res: "deadline = d'" "fresh" "p' = notify (put_source (s_id s) st' p)" using assms(1) by simp_all
  note bounds = local_delay_bounds [OF assms(2) Some, of n]
  have "c_now c + base_delay delays n * 800000 \<le> d" using bounds(1) by (simp add: d_def)
  then have el: "c_mono c + base_delay delays n * 800000 \<le> el" by (auto simp: el_def split: option.splits)
  have wait: "c_now c + (el - c_mono c) \<le> d'" by (auto simp: el_def d'_def split: option.splits)
  have "d \<le> d'" by (auto simp: d'_def split: option.splits)
  then have advice: "up' = Some u \<Longrightarrow> u \<le> d'" "up = Some u \<Longrightarrow> u \<le> d'" for u by (auto simp: d_def)
  have cap: "d' \<le> c_now c + seconds (last delays)" if "state = None" "ra = None" "ms = None" "up = None"
  proof -
    have "up' = None" using that by (simp add: up'_def retry_after_deadline_def List.map_filter_simps)
    moreover have "0 \<le> seconds (last delays)"
      using RETRY_DELAYS_ascend [OF Some] by (cases delays) (auto simp: order.strict_implies_order)
    ultimately show ?thesis using that bounds(2) by (simp add: d'_def d_def)
  qed
  show ?thesis
  proof (rule that [OF Some, of st'])
    show "map_of (sources p') = (map_of (sources p))(s_id s \<mapsto> st')" by (simp add: res(3))
    show "r_retry_at st' = deadline" by (simp add: st'_def res(1))
    show "c_now c + (r_eligible_at st' - c_mono c) \<le> deadline" using wait by (simp add: st'_def res(1))
    show "r_retry_at st \<le> deadline \<and> r_eligible_at st \<le> r_eligible_at st'" if "state = Some st" for st
      using that by (simp add: st'_def res(1) d'_def el_def)
    show "deadline \<le> c_now c + seconds (last delays)" if "state = None" "ra = None" "ms = None" "up = None"
      unfolding res(1) using that by (rule cap)
    show "u \<le> deadline"
      if "retry_after_deadline http_date ra (case rcv of None \<Rightarrow> c_now c | Some t \<Rightarrow> t) ms = Some u" for u
      unfolding res(1) by (rule advice(1)) (use that in \<open>simp add: up'_def\<close>)
    show "u \<le> deadline" if "up = Some u" for u unfolding res(1) using that by (rule advice(2))
  qed (use res(2) el in \<open>simp_all add: st'_def n_def\<close>)
qed

lemma failed_cases:
  assumes "failed parse_iso http_date jitter c0 c s reason g ra ms rcv up p = (Inr (deadline, fresh), p')"
  obtains (stale) st p1 where "recovery_state parse_iso c0 s p = (Inr (Some st), p1)" "p' = p1" "\<not> fresh" "deadline = r_retry_at st"
      "\<exists>g'. r_failed_generation st = Some g' \<and> g \<le> g'"
  | (fresh) state p1 where "recovery_state parse_iso c0 s p = (Inr state, p1)"
      "record_failure http_date jitter c s reason g ra ms rcv up state p1 = (Inr (deadline, fresh), p')"
      "\<And>st g'. state = Some st \<Longrightarrow> r_failed_generation st = Some g' \<Longrightarrow> g' < g"
proof -
  obtain v p1 where rs: "recovery_state parse_iso c0 s p = (v, p1)" by fastforce
  show ?thesis
  proof (cases v)
    case (Inl e)
    then show ?thesis using assms rs by (simp add: failed_def)
  next
    case (Inr state)
    show ?thesis
    proof (cases "\<exists>st g'. state = Some st \<and> r_failed_generation st = Some g' \<and> g \<le> g'")
      case True
      then obtain st g' where st: "state = Some st" "r_failed_generation st = Some g'" "g \<le> g'" by blast
      show ?thesis
        by (rule stale [of st p1]) (use assms rs Inr st in \<open>auto simp: failed_def\<close>)
    next
      case False
      then have "failed parse_iso http_date jitter c0 c s reason g ra ms rcv up p
          = record_failure http_date jitter c s reason g ra ms rcv up state p1"
        using rs Inr by (cases state) (auto simp: failed_def split: option.splits)
      then show ?thesis
        by (intro fresh [of state p1]) (use assms rs Inr False in \<open>auto simp: not_le\<close>)
    qed
  qed
qed

lemma claim_refused:
  assumes "map_of (sources p) (s_id s) = Some st" and "r_identity st = source_identity s"
    and "supply_channel s = ''hub''" and "r_owner st \<noteq> None \<or> c_mono c < r_eligible_at st"
  shows "fst (claim parse_iso c0 c s g p) \<noteq> Inr True"
proof -
  obtain v p1 where rs: "recovery_state parse_iso c0 s p = (v, p1)" by fastforce
  obtain st' where "map_of (sources p1) (s_id s) = Some st'" "waits_on st st'"
    using recovery_state_entry(4) [OF rs assms(1,2)] by blast
  moreover have "v = Inr state \<Longrightarrow> state = Some st'" for state
    using recovery_state_entry(1) [OF rs assms(3)] calculation(1) by simp
  ultimately show ?thesis
    using assms(4) rs by (cases v) (auto simp: claim_def waits_on_def)
qed

section \<open>Who probes a recovering source\<close>















section \<open>Properties\<close>

text \<open>
  A failure backs a source off. With a jitter that keeps its bounds, a report that is not
  older than the last counted one adds one failure, frees the probe, and sets a deadline that
  is at least 80 percent of the delay of that failure away, not before any advice the upstream gave, not
  before the previous deadline, and without advice or history at most the longest delay away; no claim of the source succeeds
  on the monotonic clock before that. An older report changes nothing and returns the deadline in force.
\<close>

theorem failure_backs_off:
  assumes "failed parse_iso http_date jitter c0 c s reason g ra ms rcv up p = (Inr (deadline, fresh), p')"
    and "uniform_between jitter" and "supply_channel s = ''hub''" and "recovery_state parse_iso c0 s p = (Inr state, p1)"
  shows "(\<not> fresh \<longrightarrow> p' = p1 \<and> (\<exists>st g'. state = Some st \<and> deadline = r_retry_at st \<and> r_failed_generation st = Some g' \<and> g \<le> g'))
    \<and> (fresh \<longrightarrow> (\<exists>delays st'. map_of RETRY_DELAYS reason = Some delays \<and> map_of (sources p') (s_id s) = Some st'
        \<and> r_retry_at st' = deadline \<and> r_owner st' = None \<and> r_failed_generation st' = Some g
        \<and> r_failures st' = (case state of None \<Rightarrow> 1 | Some st \<Rightarrow> r_failures st + 1)
        \<and> c_now c + base_delay delays (r_failures st') * 800000 \<le> deadline
        \<and> (\<forall>st. state = Some st \<longrightarrow> r_retry_at st \<le> deadline \<and> r_eligible_at st \<le> r_eligible_at st')
        \<and> (\<forall>u. retry_after_deadline http_date ra (case rcv of None \<Rightarrow> c_now c | Some t \<Rightarrow> t) ms = Some u \<longrightarrow> u \<le> deadline)
        \<and> (state = None \<and> ra = None \<and> ms = None \<and> up = None \<longrightarrow> deadline \<le> c_now c + seconds (last delays))
        \<and> (\<forall>c1 c2 g'. c_mono c2 < c_mono c + base_delay delays (r_failures st') * 800000
             \<longrightarrow> fst (claim parse_iso c1 c2 s g' p') \<noteq> Inr True)))"
  using assms(1)
proof (cases rule: failed_cases)
  case (stale st p1')
  then show ?thesis using assms(4) by auto
next
  case (fresh state' p1')
  have eqs: "state' = state" "p1' = p1" using fresh(1) assms(4) by auto
  show ?thesis
    using fresh(2) assms(2)
  proof (cases rule: record_failure_entry)
    case (1 delays st')
    have entry: "map_of (sources p') (s_id s) = Some st'" using 1(3) by simp
    have "c_now c + base_delay delays (r_failures st') * 800000 \<le> deadline" using 1(9,10) by linarith
    moreover have "fst (claim parse_iso c1 c2 s g' p') \<noteq> Inr True"
      if "c_mono c2 < c_mono c + base_delay delays (r_failures st') * 800000" for c1 c2 g'
      using that 1(9) by (intro claim_refused [OF entry 1(5) assms(3)]) linarith
    ultimately show ?thesis using 1 entry eqs by (intro conjI impI exI [of _ delays] exI [of _ st']) auto
  qed
qed

definition demo_source :: source where
  "demo_source = \<lparr>s_id = ''src1'', kind = ''api_key'', vendor = ''v'', protocol = ''google'', supply_channel = ''hub'',
     base_url = None, credential_ref = None, credential_generation = None, s_status = Standby, s_retry_at = None,
     s_detail_key = None\<rparr>"

definition empty_policy :: policy where
  "empty_policy = \<lparr>sources = [], retired_cooldowns = [], changed = 0\<rparr>"

definition at_time :: "int \<Rightarrow> clock" where
  "at_time t = \<lparr>c_now = t, c_mono = t\<rparr>"

definition no_iso :: "string \<Rightarrow> int result" where
  "no_iso v = Inl (ValueError ''Invalid isoformat string'')"

definition lowest :: "int \<Rightarrow> int \<Rightarrow> int" where
  "lowest lo hi = lo"

definition demo_entry :: source_recovery where
  "demo_entry = \<lparr>r_identity = source_identity demo_source, r_reason = ''network'', r_failures = 1, r_retry_at = 1000000,
     r_eligible_at = 1000000, r_owner = None, r_failed_generation = Some 7\<rparr>"

definition demo_policy :: policy where
  "demo_policy = \<lparr>sources = [(''src1'', demo_entry)], retired_cooldowns = [], changed = 1\<rparr>"

lemma demo_failed:
  "failed no_iso (\<lambda>v. None) lowest (at_time 0) (at_time 0) demo_source ''network'' 7 None None None None empty_policy
     = (Inr (1000000, True), demo_policy)"
  by code_simp

theorem failure_backs_off_witness:
  "\<forall>c1 g'. fst (claim no_iso c1 (at_time 799999) demo_source g' demo_policy) \<noteq> Inr True"
proof -
  have u: "uniform_between lowest" by (simp add: uniform_between_def lowest_def)
  have hub: "supply_channel demo_source = ''hub''" by (simp add: demo_source_def)
  have rs: "recovery_state no_iso (at_time 0) demo_source empty_policy = (Inr None, empty_policy)" by code_simp
  have "\<exists>delays (st' :: source_recovery). map_of RETRY_DELAYS ''network'' = Some delays \<and> r_failures st' = 1
      \<and> (\<forall>c1 c2 g'. c_mono c2 < c_mono (at_time 0) + base_delay delays (r_failures st') * 800000
        \<longrightarrow> fst (claim no_iso c1 c2 demo_source g' demo_policy) \<noteq> Inr True)"
    using failure_backs_off [OF demo_failed u hub rs, THEN conjunct2, THEN mp, OF TrueI]
    unfolding option.case by (elim exE conjE) (intro exI conjI; assumption)
  then obtain delays and st' :: source_recovery where "map_of RETRY_DELAYS ''network'' = Some delays" "r_failures st' = 1"
    and refused: "\<forall>c1 c2 g'. c_mono c2 < c_mono (at_time 0) + base_delay delays (r_failures st') * 800000
      \<longrightarrow> fst (claim no_iso c1 c2 demo_source g' demo_policy) \<noteq> Inr True"
    by (elim exE conjE)
  then have "base_delay delays (r_failures st') = 1" by (auto simp add: RETRY_DELAYS_def base_delay_def)
  then show ?thesis using refused by (simp add: at_time_def)
qed



text \<open>
  A request's waiting is bounded. Once started, a request admits no hop after its window has
  passed: the policy's window if it saw a transient failure and at most two minutes otherwise;
  and a hop that recovers from a limit is not admitted after two minutes even then. Before
  that a hop without a cooldown is admitted.
\<close>

theorem admission_window:
  assumes "q_started q = Some t"
  shows "admits c cooldown_reason q \<longleftrightarrow>
    c_mono c - t < (if q_transient q then q_window q else min (q_window q) LIMIT_RECOVERY_WINDOW_SECONDS)
    \<and> (cooldown_reason \<noteq> None \<and> \<not> is_transient cooldown_reason \<longrightarrow> c_mono c - t < min (q_window q) LIMIT_RECOVERY_WINDOW_SECONDS)
    \<and> (cooldown_reason \<noteq> None \<longrightarrow> c_mono c - t < q_window q)"
  using assms by (auto simp: admits_def expired_def remaining_def remaining_for_def window_seconds_def Let_def)

theorem admission_window_witness:
  "\<not> admits (at_time 120000000) (Some ''rate_limited'')
     (start_request (at_time 0) (observe_reason (Some ''network'')
       \<lparr>q_window = RECOVERY_WINDOW_SECONDS, q_started = None, q_started_at = None, q_attempt_count = 0, q_source_id = None,
        q_reason = None, q_transient = False, q_non_retryable = False\<rparr>))"
proof -
  let ?q = "start_request (at_time 0) (observe_reason (Some ''network'')
       \<lparr>q_window = RECOVERY_WINDOW_SECONDS, q_started = None, q_started_at = None, q_attempt_count = 0, q_source_id = None,
        q_reason = None, q_transient = False, q_non_retryable = False\<rparr>)"
  have "q_started ?q = Some 0" "q_window ?q = 1800000000"
    by (simp_all add: start_request_def observe_reason_def at_time_def RECOVERY_WINDOW_SECONDS_def)
  then show ?thesis
    using admission_window [of ?q 0 "at_time 120000000" "Some ''rate_limited''"]
    by (simp add: at_time_def LIMIT_RECOVERY_WINDOW_SECONDS_def is_transient_def TRANSIENT_RECOVERY_REASONS_def)
qed

end
