(* ===== verification/Spec2Isabelle.thy ===== *)
theory Spec2Isabelle
  imports DeliveryHistory Admission Truncate Sse Generations Worker Recovery
begin

text \<open>
  A verification library for avibe, a controller that takes messages from chat platforms, a web
  workbench, schedules and other agents, delivers them to coding agents, and runs an agent of
  its own with tools. The library models the parts that decide: what may be written when, in
  which order, and within which bounds.

  \<^bold>\<open>The parts and how they interact.\<close> An input is wrapped in an envelope and admitted: a policy
  decides its priority, and a Delivery row is reserved, or found again by its deduplication key
  (\<open>src/core/input_admission.py\<close>). The Delivery store (\<open>src/storage/message_deliveries.py\<close>, with
  the state matrix of \<open>src/storage/delivery_states.py\<close>, the priorities of
  \<open>src/core/message_priority.py\<close> and the tables of \<open>src/storage/models.py\<close>) queues Deliveries,
  claims them for Turns, steers them into a running Turn, records what the native agent
  acknowledged, and retires what was never written. The native agent runs in a process that a
  runtime unit starts, shares and stops (\<open>src/modules/agents/runtime_generations.py\<close>). Requests
  to models go to sources whose failures the recovery policy backs off
  (\<open>src/core/handlers/model_hub/retry.py\<close>), and their event streams are parsed by
  \<open>src/core/agent_core/ai/sse.py\<close>. The agent's own tools show files and the output of commands
  within caps (\<open>src/core/agent_core/tools/\<close>). Work that the controller must not wait for goes to
  an ordered worker (\<open>src/core/ordered_worker.py\<close>).

  \<^bold>\<open>Theories.\<close>
  \<^item> \<open>Prelude\<close>: exceptions as values of \<open>py_error\<close> and a sum type for fallible steps, dictionaries,
    JSON documents, keyed tables, and the locale \<open>evolving_system\<close> of a step relation with an
    invariant and a preorder that every step follows. It is interpreted for the Delivery store,
    the runtime unit and the ordered worker.
  \<^item> \<open>DeliveryStates\<close>, \<open>DeliveryStore\<close>, \<open>DeliveryContent\<close>, \<open>DeliveryOps\<close>: the state matrix, the
    rows and their constraints (a \<open>CHECK\<close> has three values; the unique indexes of Deliveries,
    Turns and Messages), what the store computes from a row, and its operations, each a
    function from the database to a result and the database. A statement that breaks a
    constraint is \<open>IntegrityError\<close>, and a transaction that raises leaves the database as it was.
  \<^item> \<open>DeliveryCas\<close>, \<open>DeliveryRows\<close>, \<open>DeliveryInvariant\<close>, \<open>DeliverySteps\<close>, \<open>DeliveryBehaviour\<close>,
    \<open>DeliveryProperties\<close>, \<open>DeliveryHistory\<close>: the compare-and-set interface as the locale
    \<open>versioned_table\<close>, interpreted for Deliveries and for Turns; the shape of a row and how it may
    change; one preservation lemma per operation; the transition system of all writes; when an
    operation succeeds and what it leaves; and the properties. They show that a final row stays
    final, that every reachable row has the shape of its state, that of two writers the second
    loses, that the queue is served in order and a batch is claimed whole, that repeating an
    acceptance changes nothing and when the Messages table refuses one, what a withdrawal and
    an archive retire, what the history, the keys, the public metadata and the drafts say, and
    which terminal outcomes the start constraint lets through without a receipt.
  \<^item> \<open>Admission\<close>: the envelope, the default policy and the admission entry. The policy of the
    entry is a parameter with the locale \<open>admission_policy\<close>, interpreted for the default policy.
    Admission is idempotent, records what any policy decided, and rewrites a legacy key.
  \<^item> \<open>Unicode\<close>, \<open>Truncate\<close>: Python text as code points with the codecs of the standard library,
    file text (\<open>tools/text.py\<close>), the output caps (\<open>tools/truncate.py\<close>) and the rolling tail of
    \<open>tools/output.py\<close>. The caps return the longest run of whole lines within both limits, the
    tail shows what the cap of the whole output would show, but for a long line that has just
    ended, and a cut line is exact but for lone surrogates.
  \<^item> \<open>Sse\<close>: the event stream parser. It implements a specification on the pending text, returns
    the same events however the bytes are cut as long as its lines are below the limit, stays
    within its limits, and raises for a malformed reconnection time.
  \<^item> \<open>Generations\<close>: the generations of a runtime unit, with the reconciler as a task that awaits
    each stop. In every interleaving the counts agree and a turn is bound only to an open
    generation. What a pass achieves is stated of a task that no other method interrupts from
    some state on: it comes to rest, a whole pass keeps the cap, a forced shutdown stops
    everything it can, also the generation whose stop is under way, and a generation that
    drained while it was current can be missed.
  \<^item> \<open>Worker\<close>: the ordered worker with its futures. Jobs start in the order of submission, one
    at a time, and \<open>drain\<close> tells the truth.
  \<^item> \<open>Recovery\<close>: the recovery policy and the clock of a request. A failure sets a deadline
    within its delays and after every advice; one owner probes a source; waiting ends with its
    window.

  \<^bold>\<open>Conventions and bounds.\<close> State is a record that an operation returns updated; an exception
  is \<open>Inl\<close>. Integers of the source are \<open>nat\<close> or \<open>int\<close>, since Python's do not wrap; the limits of
  the tools are arguments where the source takes them as arguments. Every loop is a
  terminating function, so no fuel is used. \<open>format_size\<close> is exact below \<open>2 ^ 53\<close> bytes, where its
  float division is. The comparison of the rolling tail with the whole output asks for a byte
  limit of at least five, one more than a character can have. Decimal digits are those of
  Unicode 14. Times of the recovery policy are whole microseconds. Code that is not in the
  repository is an argument: the policy of admission, the outcome of a stop or a job, the
  jitter (with the law that it keeps its bounds) and the parsers of dates.

  \<^bold>\<open>Not modelled.\<close> The foreign keys of the tables, which are deferred to the commit or concern
  rows of other services. The asynchronous owner of a session's Turn
  (\<open>core/session_turns.py\<close>) and the controller, whose writes are steps of the store; the ledger
  of Agent Runs, schedules and watches, and the operations of the store that join its tables
  (\<open>retire_queued_with_run\<close>, paging, recovery owners); the waits of \<open>stop_all\<close> and \<open>reap\<close>, after
  which nothing changes; the adapters of native agents and chat platforms, the Model Hub
  gateway and the provider transports, which are protocols over the network; the agent loop
  and its transcript; the command, job and file tools around the modelled text functions; the
  command line, the web server and the API; configuration files, remote access and
  installation. They are input and output around the modelled decisions or SQL over tables of
  other services.
\<close>

end
